(* ===== verification/LP_Prelude.thy ===== *)
theory LP_Prelude
  imports Complex_Main "HOL-Library.Word" "HOL-Library.Signed_Division" "HOL-Library.Multiset"
begin

text \<open>
  Shared vocabulary of the development: the widths of Go's integer types, the three ways a Go
  function ends (a value, an error, a panic), the error values of the program, Go's decimal
  formatting and parsing of integers, and generic facts about lists that several components use.
\<close>

named_theorems io_simps \<open>equations that unfold one call to the environment\<close>
named_theorems frame_simps \<open>fields of the system state that an operation leaves alone\<close>

section \<open>Machine integers\<close>

text \<open>
  Go's fixed width integers are words of that width; \<open>uint\<close> and \<open>int\<close> are taken as 64 bits wide
  (every platform the daemon is released for). Signed types are the same words, read by
  \<open>sint\<close>; all arithmetic wraps around, as in Go. A \<open>time.Duration\<close> is an \<open>int64\<close> of nanoseconds.
\<close>

type_synonym u8 = "8 word"
type_synonym u32 = "32 word"
type_synonym u64 = "64 word"
type_synonym i64 = "64 word"
type_synonym duration = "64 word"

abbreviation second :: duration where "second \<equiv> 1000000000"
abbreviation minute :: duration where "minute \<equiv> 60000000000"
abbreviation hour :: duration where "hour \<equiv> 3600000000000"

lemma word_of_int_read [simp]:
  "word_of_int (sint (w :: 'a::len word)) = w" "word_of_int (uint w) = w"
  by simp_all

declare of_int_sint [simp del] of_int_uint [simp del]

text \<open>Signed comparisons and Go's truncating signed division (on a non-zero divisor).\<close>

definition i64_lt :: "i64 \<Rightarrow> i64 \<Rightarrow> bool" where
  "i64_lt a b \<longleftrightarrow> sint a < sint b"

definition i64_le :: "i64 \<Rightarrow> i64 \<Rightarrow> bool" where
  "i64_le a b \<longleftrightarrow> sint a \<le> sint b"

definition i64_div :: "i64 \<Rightarrow> i64 \<Rightarrow> i64" where
  "i64_div a b = word_of_int (sint a sdiv sint b)"

lemma i64_not_lt: "\<not> i64_lt a b \<longleftrightarrow> i64_le b a"
  by (simp add: i64_lt_def i64_le_def not_less)

lemma sint_of_int_small:
  "- (2 ^ 63) \<le> n \<Longrightarrow> n < 2 ^ 63 \<Longrightarrow> sint (word_of_int n :: i64) = n"
  by (simp add: int_word_sint)

lemma i64_bounds: "- (2 ^ 63) \<le> sint (a :: i64)" "sint (a :: i64) < 2 ^ 63"
  using sint_greater_eq [of a] sint_lt [of a] by simp_all

lemma sint_i64_div_pos:
  assumes "0 \<le> sint a" and "0 < sint b"
  shows "sint (i64_div a b) = sint a div sint b"
proof -
  have q: "sint a sdiv sint b = sint a div sint b"
    using assms by (cases "sint a = 0") (auto simp: signed_divide_int_def)
  have "0 \<le> sint a div sint b" using assms by (simp add: pos_imp_zdiv_nonneg_iff)
  moreover have "sint a div sint b \<le> sint a"
    using assms by (metis int_div_less_self le_less div_by_1 zless_imp_add1_zle add_0 div_0 order_refl)
  ultimately show ?thesis
    using i64_bounds(2) [of a] by (simp add: i64_div_def q sint_of_int_small)
qed

lemma unat_u64_lt: "unat (x :: u64) < 2 ^ 64"
  using unsigned_less [of x, where 'a = nat] by simp

lemma unat_u32_lt: "unat (x :: u32) < 2 ^ 32"
  using unsigned_less [of x, where 'a = nat] by simp

lemma unat_u8_lt: "unat (x :: u8) < 256"
  using unsigned_less [of x, where 'a = nat] by simp

section \<open>Results and errors\<close>

text \<open>
  The error values of the program. The eight \<open>errPolicy\<close> errors are the sentinel errors that
  wrap \<open>errPolicy\<close> in \<open>server/server.go\<close>; the others are sentinels of the packages, errors that
  come back from a call outside the program (\<open>ErrRpc\<close>), and errors made by \<open>fmt.Errorf\<close> or the
  standard library (\<open>ErrOther\<close>), which callers only test for being present.
\<close>

datatype err =
    ErrTooSmallChan | ErrTooLargeChan | ErrTooManyOpenChans | ErrHasPendingOpenChan
  | ErrPeerUnconnected | ErrNotEnoughUtxos | ErrTooManyPendingChans | ErrIgnoredNode
  | ErrWrongKey | ErrDecode | ErrNotExists | ErrCanceled | ErrEOF
  | ErrCmdDone | ErrRpc string | ErrOther string

text \<open>\<open>errors.Is(err, errPolicy)\<close>\<close>

fun isErrPolicy :: "err \<Rightarrow> bool" where
  "isErrPolicy ErrTooSmallChan = True"
| "isErrPolicy ErrTooLargeChan = True"
| "isErrPolicy ErrTooManyOpenChans = True"
| "isErrPolicy ErrHasPendingOpenChan = True"
| "isErrPolicy ErrPeerUnconnected = True"
| "isErrPolicy ErrNotEnoughUtxos = True"
| "isErrPolicy ErrTooManyPendingChans = True"
| "isErrPolicy ErrIgnoredNode = True"
| "isErrPolicy _ = False"

text \<open>How a call ends: with a value, with an error value, or in a panic.\<close>

datatype 'a res = Ok 'a | Err err | Panic string

text \<open>\<open>x, err := m; if err != nil { return err }; k(x)\<close>, without a state.\<close>

fun andThen :: "'a res \<Rightarrow> ('a \<Rightarrow> 'b res) \<Rightarrow> 'b res" where
  "andThen (Ok x) k = k x"
| "andThen (Err e) k = Err e"
| "andThen (Panic m) k = Panic m"

lemma andThen_Ok: "andThen x k = Ok y \<longleftrightarrow> (\<exists>z. x = Ok z \<and> k z = Ok y)"
  by (cases x) auto

lemma andThen_Err: "andThen x k = Err e \<longleftrightarrow> x = Err e \<or> (\<exists>z. x = Ok z \<and> k z = Err e)"
  by (cases x) auto

lemma andThen_Panic: "andThen x k = Panic m \<longleftrightarrow> x = Panic m \<or> (\<exists>z. x = Ok z \<and> k z = Panic m)"
  by (cases x) auto

lemmas andThen_iffs = andThen_Ok andThen_Err andThen_Panic

section \<open>Invariants\<close>

text \<open>A system of steps and a property that every step keeps.\<close>

locale invariant_system =
  fixes nxt :: "'s \<Rightarrow> 's \<Rightarrow> bool" and ok :: "'s \<Rightarrow> bool"
  assumes ok_step: "ok s \<Longrightarrow> nxt s t \<Longrightarrow> ok t"
begin

lemma ok_run: "nxt\<^sup>*\<^sup>* s t \<Longrightarrow> ok s \<Longrightarrow> ok t"
  by (induction rule: rtranclp_induct) (auto dest: ok_step)

end

end
