(* ===== verification/Go_Strconv.thy ===== *)
theory Go_Strconv
  imports LP_Prelude
begin

text \<open>
  What the program uses of Go's \<open>strconv\<close> and \<open>fmt\<close>: \<open>%d\<close>, \<open>strconv.ParseUint\<close> in base 10 and
  \<open>strconv.Atoi\<close>. Strings are lists of bytes. The round trip of printing and parsing is the
  instance of the \<open>codec\<close> interface that the other encodings of the program share.
\<close>

section \<open>The interface of an encoding\<close>

text \<open>
  A partial decoder that undoes the encoder on the values in \<open>ok\<close>, and only ever returns such
  values.
\<close>

locale codec =
  fixes enc :: "'a \<Rightarrow> string" and dec :: "string \<Rightarrow> 'a option" and ok :: "'a \<Rightarrow> bool"
  assumes dec_enc: "ok x \<Longrightarrow> dec (enc x) = Some x"
    and dec_ok: "dec s = Some x \<Longrightarrow> ok x"
begin

lemma enc_inject: "ok x \<Longrightarrow> ok y \<Longrightarrow> enc x = enc y \<longleftrightarrow> x = y"
  by (metis dec_enc option.inject)

lemma dec_enc_dec: "dec s = Some x \<Longrightarrow> dec (enc x) = Some x"
  using dec_enc dec_ok by blast

end

section \<open>Decimal digits\<close>

definition is_digit :: "char \<Rightarrow> bool" where
  "is_digit c \<longleftrightarrow> 48 \<le> (of_char c :: nat) \<and> (of_char c :: nat) \<le> 57"

definition digit_val :: "char \<Rightarrow> nat" where
  "digit_val c = of_char c - 48"

definition digit_char :: "nat \<Rightarrow> char" where
  "digit_char d = char_of (48 + d)"

text \<open>\<open>%d\<close> of a natural number.\<close>

fun fmt_nat :: "nat \<Rightarrow> string" where
  "fmt_nat n = (if n < 10 then [digit_char n] else fmt_nat (n div 10) @ [digit_char (n mod 10)])"

declare fmt_nat.simps [simp del]

definition fmt_u64 :: "u64 \<Rightarrow> string" where
  "fmt_u64 w = fmt_nat (unat w)"

definition fmt_u32 :: "u32 \<Rightarrow> string" where
  "fmt_u32 w = fmt_nat (unat w)"

datatype num_error = ErrSyntax | ErrRange

text \<open>The loop of \<open>strconv.ParseUint\<close>: \<open>n\<close> is the value read so far, \<open>m\<close> the largest allowed.\<close>

fun parse_digits :: "nat \<Rightarrow> nat \<Rightarrow> string \<Rightarrow> num_error + nat" where
  "parse_digits m n [] = Inr n"
| "parse_digits m n (c # cs) =
     (if \<not> is_digit c then Inl ErrSyntax
      else if m < n * 10 + digit_val c then Inl ErrRange
      else parse_digits m (n * 10 + digit_val c) cs)"

definition parseUint :: "nat \<Rightarrow> string \<Rightarrow> num_error + nat" where
  "parseUint bits s = (if s = [] then Inl ErrSyntax else parse_digits (2 ^ bits - 1) 0 s)"

text \<open>
  \<open>strconv.Atoi\<close> returns a value beside the error: 0 on a syntax error, the nearest \<open>int\<close> on a
  range error. \<open>parse_sign\<close> splits off one leading sign.
\<close>

fun parse_sign :: "string \<Rightarrow> bool \<times> string" where
  "parse_sign (CHR ''+'' # cs) = (False, cs)"
| "parse_sign (CHR ''-'' # cs) = (True, cs)"
| "parse_sign cs = (False, cs)"

definition atoi :: "string \<Rightarrow> num_error option \<times> i64" where
  "atoi s = (let (neg, ds) = parse_sign s in
     case parseUint 64 ds of
       Inl ErrSyntax \<Rightarrow> (Some ErrSyntax, 0)
     | Inl ErrRange \<Rightarrow> (Some ErrRange, if neg then word_of_int (- (2 ^ 63)) else word_of_int (2 ^ 63 - 1))
     | Inr n \<Rightarrow>
         if \<not> neg \<and> 2 ^ 63 \<le> n then (Some ErrRange, word_of_int (2 ^ 63 - 1))
         else if neg \<and> 2 ^ 63 < n then (Some ErrRange, word_of_int (- (2 ^ 63)))
         else (None, word_of_int (if neg then - int n else int n)))"

section \<open>Round trip\<close>

lemma of_char_digit [simp]: "d < 10 \<Longrightarrow> (of_char (digit_char d) :: nat) = 48 + d"
  by (simp add: digit_char_def)

lemma digit_char_digit [simp]: "d < 10 \<Longrightarrow> is_digit (digit_char d)"
  by (simp add: is_digit_def)

lemma digit_val_char [simp]: "d < 10 \<Longrightarrow> digit_val (digit_char d) = d"
  by (simp add: digit_val_def)

lemma fmt_nat_ne [simp]: "fmt_nat n \<noteq> []"
  by (subst fmt_nat.simps) simp

lemma fmt_nat_digits: "c \<in> set (fmt_nat n) \<Longrightarrow> is_digit c"
proof (induction n rule: fmt_nat.induct)
  case (1 n)
  then show ?case by (cases "n < 10") (auto simp: fmt_nat.simps [of n])
qed

lemma parse_digits_append:
  "parse_digits m n (xs @ ys) =
     (case parse_digits m n xs of Inl e \<Rightarrow> Inl e | Inr k \<Rightarrow> parse_digits m k ys)"
  by (induction m n xs rule: parse_digits.induct) auto

lemma parse_digits_fmt: "n \<le> m \<Longrightarrow> parse_digits m 0 (fmt_nat n) = Inr n"
proof (induction n rule: fmt_nat.induct)
  case (1 n)
  show ?case
  proof (cases "n < 10")
    case True
    then show ?thesis using "1.prems" by (simp add: fmt_nat.simps [of n])
  next
    case False
    have "n div 10 \<le> m" using "1.prems" by simp
    with False "1.IH" have "parse_digits m 0 (fmt_nat (n div 10)) = Inr (n div 10)" by simp
    then show ?thesis using False "1.prems"
      by (simp add: fmt_nat.simps [of n] parse_digits_append)
  qed
qed

lemma parse_digits_le: "n \<le> m \<Longrightarrow> parse_digits m n s = Inr k \<Longrightarrow> k \<le> m"
  by (induction m n s rule: parse_digits.induct) (auto split: if_splits)

lemma parse_digits_Inr_digits: "parse_digits m n s = Inr k \<Longrightarrow> \<forall>c \<in> set s. is_digit c"
  by (induction m n s rule: parse_digits.induct) (auto split: if_splits)

lemma parseUint_fmt: "n < 2 ^ bits \<Longrightarrow> parseUint bits (fmt_nat n) = Inr n"
  by (simp add: parseUint_def parse_digits_fmt)

lemma parseUint_bound: "parseUint bits s = Inr n \<Longrightarrow> n < 2 ^ bits"
  using parse_digits_le [of 0 "2 ^ bits - 1" s n]
  by (auto simp: parseUint_def split: if_splits) (metis Suc_pred less_Suc_eq_le zero_less_numeral zero_less_power)

definition dec_u64 :: "string \<Rightarrow> u64 option" where
  "dec_u64 s = (case parseUint 64 s of Inl _ \<Rightarrow> None | Inr n \<Rightarrow> Some (of_nat n))"

interpretation decimal: codec fmt_u64 dec_u64 "\<lambda>_. True"
proof
  fix x :: u64
  show "dec_u64 (fmt_u64 x) = Some x"
    using parseUint_fmt [OF unat_u64_lt [of x]] by (simp add: dec_u64_def fmt_u64_def)
qed simp

lemma digit_first_not_sign: "is_digit c \<Longrightarrow> parse_sign (c # cs) = (False, c # cs)"
  by (cases "c # cs" rule: parse_sign.cases) (auto simp: is_digit_def)

lemma atoi_fmt_nat:
  assumes "n < 2 ^ 63"
  shows "atoi (fmt_nat n) = (None, of_nat n)"
proof -
  obtain c cs where c: "fmt_nat n = c # cs" by (cases "fmt_nat n") auto
  then have "is_digit c" using fmt_nat_digits [of c n] by simp
  then have s: "parse_sign (fmt_nat n) = (False, fmt_nat n)" by (simp add: c digit_first_not_sign)
  have "n < 2 ^ 64" using assms by simp
  then show ?thesis using assms by (simp add: atoi_def s parseUint_fmt)
qed

end
