(* ===== verification/Node_ID.thy ===== *)
theory Node_ID
  imports Go_Strconv
begin

unbundle bit_operations_syntax

text \<open>
  \<open>rpc/types.go\<close>: node ids are 33 bytes, written as 66 lower-case hexadecimal digits. Go's
  \<open>[33]byte\<close> is a list of bytes with the length as the invariant \<open>wf_nodeID\<close>.
  \<open>hexEncode\<close> and \<open>hexDecode\<close> are \<open>encoding/hex\<close>.
\<close>

section \<open>Hexadecimal\<close>

definition hextable :: string where
  "hextable = ''0123456789abcdef''"

definition hexByte :: "u8 \<Rightarrow> string" where
  "hexByte v = [hextable ! unat (drop_bit 4 v), hextable ! unat (v AND 15)]"

definition hexEncode :: "u8 list \<Rightarrow> string" where
  "hexEncode bs = concat (map hexByte bs)"

definition fromHexChar :: "char \<Rightarrow> u8 option" where
  "fromHexChar c = (let n = of_char c :: nat in
     if 48 \<le> n \<and> n \<le> 57 then Some (of_nat (n - 48))
     else if 97 \<le> n \<and> n \<le> 102 then Some (of_nat (n - 97 + 10))
     else if 65 \<le> n \<and> n \<le> 70 then Some (of_nat (n - 65 + 10))
     else None)"

text \<open>\<open>hex.DecodeString\<close>; \<open>None\<close> for an invalid byte or an odd length.\<close>

fun hexDecode :: "string \<Rightarrow> u8 list option" where
  "hexDecode [] = Some []"
| "hexDecode [c] = None"
| "hexDecode (p # q # cs) =
     (case fromHexChar p of None \<Rightarrow> None
      | Some a \<Rightarrow> (case fromHexChar q of None \<Rightarrow> None
         | Some b \<Rightarrow> (case hexDecode cs of None \<Rightarrow> None
            | Some bs \<Rightarrow> Some ((push_bit 4 a OR b) # bs))))"

lemma fromHexChar_hextable: "n < 16 \<Longrightarrow> fromHexChar (hextable ! n) = Some (of_nat n)"
proof -
  assume "n < 16"
  moreover have "\<forall>k \<in> set [0..<16]. fromHexChar (hextable ! k) = Some (of_nat k)" by code_simp
  ultimately show ?thesis by simp
qed

lemma high_nibble: "unat (drop_bit 4 (v :: u8)) < 16"
  using unat_u8_lt [of v] drop_bit_eq_div [of 4 "unat v"] by (simp add: unat_drop_bit_eq)

lemma and_15: "(v :: u8) AND 15 = take_bit 4 v"
  by (simp add: take_bit_eq_mask mask_eq_exp_minus_1)

lemma low_nibble: "unat ((v :: u8) AND 15) < 16"
  using take_bit_nat_less_exp [of 4 "unat v"] by (simp add: and_15 unsigned_take_bit_eq)

lemma join_nibbles: "push_bit 4 (drop_bit 4 v) OR (v AND 15) = (v :: u8)"
  by (rule bit_word_eqI) (auto simp: and_15 bit_simps)

lemma hexDecode_byte: "hexDecode (hexByte v @ cs) = map_option (Cons v) (hexDecode cs)"
  using join_nibbles [of v]
  by (simp add: hexByte_def fromHexChar_hextable high_nibble low_nibble split: option.split)

lemma hexDecode_encode: "hexDecode (hexEncode bs) = Some bs"
  by (induction bs) (simp_all add: hexEncode_def hexDecode_byte)

lemma length_hexEncode: "length (hexEncode bs) = 2 * length bs"
  by (induction bs) (simp_all add: hexEncode_def hexByte_def)

interpretation hex: codec hexEncode hexDecode "\<lambda>_. True"
  by unfold_locales (simp_all add: hexDecode_encode)

text \<open>The characters of a hexadecimal string.\<close>

definition hex_char :: "char \<Rightarrow> bool" where
  "hex_char c \<longleftrightarrow> c \<in> set hextable"

lemma hexEncode_chars: "c \<in> set (hexEncode bs) \<Longrightarrow> hex_char c"
proof (induction bs)
  case (Cons b bs)
  have "hextable ! unat (drop_bit 4 b) \<in> set hextable" "hextable ! unat (b AND 15) \<in> set hextable"
    using high_nibble [of b] low_nibble [of b] by (intro nth_mem; simp add: hextable_def)+
  with Cons show ?case by (auto simp: hexEncode_def hexByte_def hex_char_def)
qed (simp add: hexEncode_def)

section \<open>Node ids\<close>

type_synonym nodeID = "u8 list"

definition wf_nodeID :: "nodeID \<Rightarrow> bool" where
  "wf_nodeID u \<longleftrightarrow> length u = 33"

definition zeroNodeID :: nodeID where
  "zeroNodeID = replicate 33 0"

definition nodeString :: "nodeID \<Rightarrow> string" where
  "nodeString u = hexEncode u"

definition fromString :: "string \<Rightarrow> nodeID res" where
  "fromString s = (case hexDecode s of
      None \<Rightarrow> Err (ErrOther ''encoding/hex: invalid byte or odd length'')
    | Some h \<Rightarrow> if length h \<noteq> 33 then Err (ErrOther (''invalid NodeID length: '' @ fmt_nat (length h)))
                else Ok h)"

definition nodeOf :: "string \<Rightarrow> nodeID option" where
  "nodeOf s = (case fromString s of Ok u \<Rightarrow> Some u | _ \<Rightarrow> None)"

lemma wf_zeroNodeID [simp]: "wf_nodeID zeroNodeID"
  by (simp add: wf_nodeID_def zeroNodeID_def)

lemma fromString_nodeString: "wf_nodeID u \<Longrightarrow> fromString (nodeString u) = Ok u"
  by (simp add: fromString_def nodeString_def hexDecode_encode wf_nodeID_def)

lemma fromString_wf: "fromString s = Ok u \<Longrightarrow> wf_nodeID u"
  by (auto simp: fromString_def wf_nodeID_def split: option.splits if_splits)

lemma fromString_not_Panic: "fromString s \<noteq> Panic m"
  by (simp add: fromString_def split: option.split)

interpretation node: codec nodeString nodeOf wf_nodeID
  by unfold_locales
    (auto simp: nodeOf_def fromString_nodeString dest: fromString_wf split: res.splits)

lemma length_hexDecode: "hexDecode s = Some bs \<Longrightarrow> length s = 2 * length bs"
  by (induction s arbitrary: bs rule: hexDecode.induct) (auto split: option.splits)

lemma fromString_length: "fromString s = Ok u \<Longrightarrow> length s = 66"
  by (auto simp: fromString_def dest: length_hexDecode split: option.splits if_splits)

section \<open>Properties\<close>

text \<open>
  A node id prints to 66 hexadecimal digits that parse back to it, and nothing of any other
  length parses: an id read from a peer list, a request or a file is always the id that was meant.
\<close>

lemma node_id_roundtrip:
  assumes "wf_nodeID u"
  shows "fromString (nodeString u) = Ok u \<and> length (nodeString u) = 66 \<and>
    (length s \<noteq> 66 \<longrightarrow> (\<exists>e. fromString s = Err e))"
proof -
  have "\<exists>e. fromString s = Err e" if "length s \<noteq> 66"
    using that fromString_length [of s] fromString_not_Panic [of s] by (cases "fromString s") auto
  then show ?thesis
    using assms fromString_nodeString [OF assms] by (simp add: nodeString_def length_hexEncode wf_nodeID_def)
qed

lemma node_id_roundtrip_witness: "fromString (nodeString zeroNodeID) = Ok zeroNodeID"
  using node_id_roundtrip [of zeroNodeID "''02''"] by simp

end
