(* ===== verification/Go_Json.thy ===== *)
theory Go_Json
  imports Node_ID
begin

text \<open>
  What the program uses of \<open>encoding/json\<close>: reading one JSON value from the front of a byte
  stream (\<open>Decoder.Decode\<close>), and printing the two-field object of an invoice record
  (\<open>Encoder.Encode\<close>). The parser follows Go's scanner: its white space, its literals, its number
  syntax, its string escapes with surrogate pairs, and the replacement of malformed UTF-8 by
  U+FFFD. Go's limit of 10000 nested arrays or objects is left out.
\<close>

datatype json =
    JNull | JBool bool | JNum string | JStr string
  | JArr "json list" | JObj "(string \<times> json) list"

section \<open>Lexical level\<close>

abbreviation byte :: "char \<Rightarrow> nat" where "byte c \<equiv> of_char c"

definition is_ws :: "char \<Rightarrow> bool" where
  "is_ws c \<longleftrightarrow> byte c \<in> {32, 9, 10, 13}"

definition skip_ws :: "string \<Rightarrow> string" where
  "skip_ws s = dropWhile is_ws s"

text \<open>The UTF-8 encoding of a code point.\<close>

definition utf8_encode :: "nat \<Rightarrow> string" where
  "utf8_encode r =
     (if r < 128 then [char_of r]
      else if r < 2048 then [char_of (192 + r div 64), char_of (128 + r mod 64)]
      else if r < 65536 then
        [char_of (224 + r div 4096), char_of (128 + r div 64 mod 64), char_of (128 + r mod 64)]
      else [char_of (240 + r div 262144), char_of (128 + r div 4096 mod 64),
            char_of (128 + r div 64 mod 64), char_of (128 + r mod 64)])"

definition replacement :: string where
  "replacement = utf8_encode 65533"

definition in_range :: "nat \<Rightarrow> nat \<Rightarrow> char \<Rightarrow> bool" where
  "in_range lo hi c \<longleftrightarrow> lo \<le> byte c \<and> byte c \<le> hi"

text \<open>
  The number of bytes of the well-formed UTF-8 sequence at the front, 0 for a malformed one
  (\<open>utf8.DecodeRune\<close>, which then skips one byte).
\<close>

fun utf8_len :: "string \<Rightarrow> nat" where
  "utf8_len [] = 0"
| "utf8_len (a # bs) =
     (let cont = (\<lambda>k xs. k \<le> length xs \<and> (\<forall>x \<in> set (take k xs). in_range 128 191 x));
          second = (\<lambda>lo hi xs. xs \<noteq> [] \<and> in_range lo hi (hd xs))
      in if byte a < 128 then 1
         else if in_range 194 223 a then (if cont 1 bs then 2 else 0)
         else if byte a = 224 then (if second 160 191 bs \<and> cont 2 bs then 3 else 0)
         else if byte a = 237 then (if second 128 159 bs \<and> cont 2 bs then 3 else 0)
         else if in_range 225 239 a then (if cont 2 bs then 3 else 0)
         else if byte a = 240 then (if second 144 191 bs \<and> cont 3 bs then 4 else 0)
         else if in_range 241 243 a then (if cont 3 bs then 4 else 0)
         else if byte a = 244 then (if second 128 143 bs \<and> cont 3 bs then 4 else 0)
         else 0)"

function utf8_fix :: "string \<Rightarrow> string" where
  "utf8_fix [] = []"
| "utf8_fix (c # cs) =
     (let n = utf8_len (c # cs)
      in if n = 0 then replacement @ utf8_fix cs
         else take n (c # cs) @ utf8_fix (drop n (c # cs)))"
  by pat_completeness auto
termination
  by (relation "measure length") (auto simp del: utf8_len.simps)

text \<open>One \<open>uXXXX\<close> escape, without its backslash and \<open>u\<close>.\<close>

definition hex4 :: "char \<Rightarrow> char \<Rightarrow> char \<Rightarrow> char \<Rightarrow> nat option" where
  "hex4 a b c d =
     (case (fromHexChar a, fromHexChar b, fromHexChar c, fromHexChar d) of
        (Some w, Some x, Some y, Some z) \<Rightarrow> Some (((unat w * 16 + unat x) * 16 + unat y) * 16 + unat z)
      | _ \<Rightarrow> None)"

definition is_surrogate :: "nat \<Rightarrow> bool" where
  "is_surrogate r \<longleftrightarrow> 55296 \<le> r \<and> r < 57344"

text \<open>The second half of a surrogate pair, if one follows: the code point and the bytes after it.\<close>

definition low_half :: "nat \<Rightarrow> string \<Rightarrow> (nat \<times> string) option" where
  "low_half hi s = (case s of
      b # u # p # q # r # t # rest \<Rightarrow>
        if byte b = 92 \<and> u = CHR ''u'' then
          (case hex4 p q r t of
             None \<Rightarrow> None
           | Some lo \<Rightarrow> if hi < 56320 \<and> 56320 \<le> lo \<and> lo < 57344
                        then Some ((hi - 55296) * 1024 + (lo - 56320) + 65536, rest) else None)
        else None
    | _ \<Rightarrow> None)"

definition unescape :: "char \<Rightarrow> char option" where
  "unescape e =
     (if byte e \<in> {34, 92, 47} then Some e
      else if e = CHR ''b'' then Some (char_of (8 :: nat))
      else if e = CHR ''f'' then Some (char_of (12 :: nat))
      else if e = CHR ''n'' then Some (char_of (10 :: nat))
      else if e = CHR ''r'' then Some (char_of (13 :: nat))
      else if e = CHR ''t'' then Some (char_of (9 :: nat))
      else None)"

lemma low_half_length: "low_half hi s = Some (r, rest) \<Longrightarrow> length rest < length s"
  by (auto simp: low_half_def split: list.splits if_splits option.splits)

text \<open>One escape sequence, after its backslash: the bytes it stands for, and the rest of the input.\<close>

definition escape :: "string \<Rightarrow> (string \<times> string) option" where
  "escape s = (case s of
      [] \<Rightarrow> None
    | e # es \<Rightarrow>
        if e = CHR ''u'' then
          (case es of
             p # q # r # t # rest \<Rightarrow>
               (case hex4 p q r t of
                  None \<Rightarrow> None
                | Some x \<Rightarrow>
                    if \<not> is_surrogate x then Some (utf8_encode x, rest)
                    else (case low_half x rest of
                            Some (y, rest') \<Rightarrow> Some (utf8_encode y, rest')
                          | None \<Rightarrow> Some (replacement, rest)))
           | _ \<Rightarrow> None)
        else map_option (\<lambda>x. ([x], es)) (unescape e))"

lemma escape_shorter: "escape s = Some (v, r) \<Longrightarrow> length r < length s"
  by (auto simp: escape_def split: list.splits if_splits option.splits dest: low_half_length)

text \<open>The bytes of a string literal after its opening quote, and the rest of the input.\<close>

function parse_str :: "string \<Rightarrow> (string \<times> string) option" where
  "parse_str [] = None"
| "parse_str (c # cs) =
     (if byte c = 34 then Some ([], cs)
      else if byte c < 32 then None
      else if byte c \<noteq> 92 then map_option (apfst (Cons c)) (parse_str cs)
      else (case escape cs of
              None \<Rightarrow> None
            | Some (v, rest) \<Rightarrow> map_option (apfst ((@) v)) (parse_str rest)))"
  by pat_completeness auto
termination
  by (relation "measure length") (auto dest: escape_shorter)

lemma parse_str_shorter: "parse_str s = Some (v, r) \<Longrightarrow> length r < length s"
proof (induction s arbitrary: v r rule: parse_str.induct)
  case (2 c cs)
  then show ?case
    by (fastforce split: if_splits option.splits dest: escape_shorter)
qed simp

section \<open>Numbers\<close>

text \<open>A literal \<open>-?(0|[1-9][0-9]*)(.[0-9]+)?([eE][+-]?[0-9]+)?\<close> at the front of the input.\<close>

definition span_digits :: "string \<Rightarrow> string \<times> string" where
  "span_digits s = (takeWhile is_digit s, dropWhile is_digit s)"

definition num_int :: "string \<Rightarrow> (string \<times> string) option" where
  "num_int s = (case s of
      [] \<Rightarrow> None
    | c # cs \<Rightarrow> if c = CHR ''0'' then Some ([c], cs)
                else if is_digit c then Some (span_digits s) else None)"

definition num_frac :: "string \<Rightarrow> (string \<times> string) option" where
  "num_frac s = (if s \<noteq> [] \<and> hd s = CHR ''.'' then
      (let (ds, rest) = span_digits (tl s) in if ds = [] then None else Some (CHR ''.'' # ds, rest))
    else Some ([], s))"

definition num_exp :: "string \<Rightarrow> (string \<times> string) option" where
  "num_exp s = (if s \<noteq> [] \<and> (hd s = CHR ''e'' \<or> hd s = CHR ''E'') then
      (let sg = (if tl s \<noteq> [] \<and> (hd (tl s) = CHR ''+'' \<or> hd (tl s) = CHR ''-'') then [hd (tl s)] else []);
           (ds, rest) = span_digits (drop (length sg) (tl s))
       in if ds = [] then None else Some (hd s # sg @ ds, rest))
    else Some ([], s))"

definition parse_num :: "string \<Rightarrow> (string \<times> string) option" where
  "parse_num s =
     (let sg = (if s \<noteq> [] \<and> hd s = CHR ''-'' then [CHR ''-''] else []) in
      case num_int (drop (length sg) s) of
        None \<Rightarrow> None
      | Some (i, s1) \<Rightarrow>
          (case num_frac s1 of
             None \<Rightarrow> None
           | Some (f, s2) \<Rightarrow>
               (case num_exp s2 of
                  None \<Rightarrow> None
                | Some (e, s3) \<Rightarrow> Some (sg @ i @ f @ e, s3))))"

definition strip :: "string \<Rightarrow> string \<Rightarrow> string option" where
  "strip p s = (if take (length p) s = p then Some (drop (length p) s) else None)"

section \<open>Values\<close>

lemma skip_ws_length: "length (skip_ws s) \<le> length s"
  by (simp add: skip_ws_def length_dropWhile_le)

lemma skip_ws_shorter: "skip_ws s = c # cs \<Longrightarrow> length cs < length s"
  using skip_ws_length [of s] by simp

text \<open>The key of an object member, up to and including the colon.\<close>

definition parse_key :: "string \<Rightarrow> (string \<times> string) option" where
  "parse_key s =
     (case skip_ws s of
        [] \<Rightarrow> None
      | q # qs \<Rightarrow>
          if byte q \<noteq> 34 then None
          else (case parse_str qs of
                  None \<Rightarrow> None
                | Some (k, r) \<Rightarrow>
                    (case skip_ws r of
                       [] \<Rightarrow> None
                     | c # cs \<Rightarrow> if c = CHR '':'' then Some (utf8_fix k, cs) else None)))"

lemma parse_key_shorter: "parse_key s = Some (k, r) \<Longrightarrow> length r < length s"
  by (fastforce simp: parse_key_def split: list.splits option.splits if_splits
      dest: skip_ws_shorter parse_str_shorter)

text \<open>
  The recursion is on ever shorter input; the comparisons of lengths hold of every result
  (\<open>parse_rest\<close> below) and are there for the termination argument.
\<close>

function parse_value :: "string \<Rightarrow> (json \<times> string) option"
  and parse_elems :: "string \<Rightarrow> (json list \<times> string) option"
  and parse_members :: "string \<Rightarrow> ((string \<times> json) list \<times> string) option" where
  "parse_value s = (case skip_ws s of
      [] \<Rightarrow> None
    | c # cs \<Rightarrow>
        if length cs < length s then
          if c = CHR ''{'' then
            (case skip_ws cs of
               [] \<Rightarrow> None
             | d # ds \<Rightarrow> if d = CHR ''}'' then Some (JObj [], ds)
                          else map_option (apfst JObj) (parse_members cs))
          else if c = CHR ''['' then
            (case skip_ws cs of
               [] \<Rightarrow> None
             | d # ds \<Rightarrow> if d = CHR '']'' then Some (JArr [], ds)
                          else map_option (apfst JArr) (parse_elems cs))
          else if byte c = 34 then map_option (apfst (JStr \<circ> utf8_fix)) (parse_str cs)
          else if c = CHR ''t'' then map_option (Pair (JBool True)) (strip ''rue'' cs)
          else if c = CHR ''f'' then map_option (Pair (JBool False)) (strip ''alse'' cs)
          else if c = CHR ''n'' then map_option (Pair JNull) (strip ''ull'' cs)
          else map_option (apfst JNum) (parse_num (c # cs))
        else None)"
| "parse_elems s =
     (case parse_value s of
        None \<Rightarrow> None
      | Some (v, r) \<Rightarrow>
          (case skip_ws r of
             [] \<Rightarrow> None
           | c # cs \<Rightarrow>
               if c = CHR '']'' then Some ([v], cs)
               else if c = CHR '','' \<and> length cs < length s
               then map_option (apfst (Cons v)) (parse_elems cs) else None))"
| "parse_members s =
     (case parse_key s of
        None \<Rightarrow> None
      | Some (k, cs) \<Rightarrow>
          (case parse_value cs of
             None \<Rightarrow> None
           | Some (v, r) \<Rightarrow>
               (case skip_ws r of
                  [] \<Rightarrow> None
                | d # ds \<Rightarrow>
                    if d = CHR ''}'' then Some ([(k, v)], ds)
                    else if d = CHR '','' \<and> length ds < length s
                    then map_option (apfst (Cons (k, v))) (parse_members ds)
                    else None)))"
  by pat_completeness auto
termination
  by (relation "measure (case_sum (\<lambda>s. 2 * length s)
        (case_sum (\<lambda>s. 2 * length s + 1) (\<lambda>s. 2 * length s + 1)))") (auto dest: parse_key_shorter)


declare parse_value.simps [simp del] parse_elems.simps [simp del] parse_members.simps [simp del]

text \<open>What a parser leaves is shorter than its input, and has no characters of its own.\<close>

definition rest_of :: "string \<Rightarrow> string \<Rightarrow> bool" where
  "rest_of r s \<longleftrightarrow> length r < length s \<and> set r \<subseteq> set s"

lemma rest_of_trans: "rest_of r s \<Longrightarrow> rest_of s t \<Longrightarrow> rest_of r t"
  by (auto simp: rest_of_def)

lemma rest_of_Cons: "rest_of r (c # cs) \<longleftrightarrow> length r \<le> length cs \<and> set r \<subseteq> insert c (set cs)"
  by (auto simp: rest_of_def less_Suc_eq_le)

lemma set_span: "set (dropWhile P s) \<subseteq> set s"
  by (auto dest: set_dropWhileD)

lemma skip_ws_rest: "skip_ws s = c # cs \<Longrightarrow> rest_of cs s"
  using skip_ws_shorter [of s c cs] set_span [of is_ws s] by (simp add: rest_of_def skip_ws_def)

lemma low_half_rest: "low_half hi s = Some (y, r) \<Longrightarrow> rest_of r s"
  by (auto simp: low_half_def rest_of_def split: list.splits if_splits option.splits)

lemma escape_rest: "escape s = Some (v, r) \<Longrightarrow> rest_of r s"
  by (auto simp: escape_def rest_of_def split: list.splits if_splits option.splits dest!: low_half_rest)

lemma parse_str_rest: "parse_str s = Some (v, r) \<Longrightarrow> rest_of r s"
proof (induction s arbitrary: v r rule: parse_str.induct)
  case (2 c cs)
  then show ?case
    by (fastforce simp: rest_of_def split: if_splits option.splits dest: escape_rest)
qed simp

lemma parse_key_rest: "parse_key s = Some (k, r) \<Longrightarrow> rest_of r s"
  by (fastforce simp: parse_key_def split: list.splits option.splits if_splits
      dest: skip_ws_rest parse_str_rest intro: rest_of_trans)

lemma strip_rest: "strip p s = Some r \<Longrightarrow> length r \<le> length s \<and> set r \<subseteq> set s"
  by (auto simp: strip_def split: if_splits dest: in_set_dropD)

lemma num_int_rest: "num_int s = Some (i, r) \<Longrightarrow> rest_of r s"
  using set_span [of is_digit]
  by (cases s) (auto simp: num_int_def span_digits_def rest_of_Cons length_dropWhile_le split: if_splits)

lemma num_frac_rest: "num_frac s = Some (f, r) \<Longrightarrow> length r \<le> length s \<and> set r \<subseteq> set s"
  using set_span [of is_digit]
  by (cases s) (auto simp: num_frac_def span_digits_def Let_def le_SucI length_dropWhile_le split: if_splits)

lemma num_exp_rest: "num_exp s = Some (e, r) \<Longrightarrow> length r \<le> length s \<and> set r \<subseteq> set s"
proof (cases s)
  case (Cons c cs)
  assume e: "num_exp s = Some (e, r)"
  have k: "length (dropWhile is_digit (drop k cs)) \<le> length cs \<and> set (dropWhile is_digit (drop k cs)) \<subseteq> set cs" for k
    using order_trans [OF length_dropWhile_le [of is_digit "drop k cs"]] by (auto dest: set_dropWhileD in_set_dropD)
  from e Cons show ?thesis using k [of 0] k [of 1]
    by (auto simp: num_exp_def span_digits_def Let_def le_SucI split: if_splits)
qed (simp add: num_exp_def)

lemma parse_num_rest:
  assumes "parse_num s = Some (v, r)"
  shows "rest_of r s"
proof -
  obtain n i s1 f s2 e where i: "num_int (drop n s) = Some (i, s1)" and f: "num_frac s1 = Some (f, s2)"
    and e: "num_exp s2 = Some (e, r)"
    using assms by (auto simp: parse_num_def Let_def split: option.splits)
  have "set (drop n s) \<subseteq> set s" by (rule set_drop_subset)
  with num_int_rest [OF i] num_frac_rest [OF f] num_exp_rest [OF e] show ?thesis
    by (auto simp: rest_of_def)
qed

text \<open>Every parser leaves a rest of its input, so the length comparisons above never reject anything.\<close>

lemma parse_rest:
  "parse_value s = Some (v, r) \<Longrightarrow> rest_of r s"
  "parse_elems s = Some (vs, r) \<Longrightarrow> rest_of r s"
  "parse_members s = Some (ms, r) \<Longrightarrow> rest_of r s"
proof (induction s and s and s arbitrary: v r and vs r and ms r
    rule: parse_value_parse_elems_parse_members.induct)
  case (1 s)
  then obtain c cs where s: "skip_ws s = c # cs"
    by (subst (asm) parse_value.simps) (auto split: list.splits)
  have l: "rest_of cs s" "length cs < length s" using skip_ws_rest [OF s] by (simp_all add: rest_of_def)
  consider "c = CHR ''{''" | "c = CHR ''[''" | "c \<noteq> CHR ''{''" "c \<noteq> CHR ''[''" by blast
  then show ?case
  proof cases
    case 1
    with "1.prems" l s obtain d ds where d: "skip_ws cs = d # ds"
      by (subst (asm) parse_value.simps) (auto split: list.splits)
    show ?thesis
    proof (cases "d = CHR ''}''")
      case True
      with 1 d "1.prems" l s have "r = ds" by (subst (asm) parse_value.simps) auto
      with rest_of_trans [OF skip_ws_rest [OF d] l(1)] show ?thesis by simp
    next
      case False
      with 1 d "1.prems" l s obtain ms where "parse_members cs = Some (ms, r)"
        by (subst (asm) parse_value.simps) auto
      then have "rest_of r cs" using "1.IH"(1) [OF s l(2) 1 d False] by blast
      with l(1) show ?thesis by (rule rest_of_trans [rotated])
    qed
  next
    case 2
    with "1.prems" l s obtain d ds where d: "skip_ws cs = d # ds"
      by (subst (asm) parse_value.simps) (auto split: list.splits)
    show ?thesis
    proof (cases "d = CHR '']''")
      case True
      with 2 d "1.prems" l s have "r = ds" by (subst (asm) parse_value.simps) auto
      with rest_of_trans [OF skip_ws_rest [OF d] l(1)] show ?thesis by simp
    next
      case False
      with 2 d "1.prems" l s obtain es where "parse_elems cs = Some (es, r)"
        by (subst (asm) parse_value.simps) auto
      then have "rest_of r cs" using "1.IH"(2) [OF s l(2) _ 2 d False] 2 by simp
      with l(1) show ?thesis by (rule rest_of_trans [rotated])
    qed
  next
    case 3
    have c: "set (c # cs) \<subseteq> set s" using s set_span [of is_ws s] by (simp add: skip_ws_def)
    from 3 have "length r \<le> length cs \<and> set r \<subseteq> set (c # cs)" using "1.prems" l s
      by (subst (asm) parse_value.simps)
        (auto simp: rest_of_def split: if_splits dest!: parse_str_rest strip_rest parse_num_rest)
    with l(2) c show ?thesis unfolding rest_of_def by force
  qed
next
  case (2 s)
  then obtain x y c cs where v: "parse_value s = Some (x, y)" and w: "skip_ws y = c # cs"
    by (subst (asm) parse_elems.simps) (auto split: option.splits list.splits)
  have l: "rest_of cs s" using rest_of_trans [OF skip_ws_rest [OF w] "2.IH"(1) [OF v]] .
  show ?case
  proof (cases "c = CHR '']''")
    case True
    with "2.prems" v w l show ?thesis by (subst (asm) parse_elems.simps) auto
  next
    case False
    with "2.prems" v w obtain es where c: "c = CHR '',''" and "parse_elems cs = Some (es, r)"
      by (subst (asm) parse_elems.simps) (auto split: if_splits)
    then have "rest_of r cs" using "2.IH"(2) [OF v refl w False] l by (simp add: rest_of_def)
    with l show ?thesis by (rule rest_of_trans [rotated])
  qed
next
  case (3 s)
  then obtain k cs x y d ds where k: "parse_key s = Some (k, cs)"
    and x: "parse_value cs = Some (x, y)" and d: "skip_ws y = d # ds"
    by (subst (asm) parse_members.simps) (auto split: option.splits list.splits)
  have l: "rest_of ds s"
    using rest_of_trans [OF rest_of_trans [OF skip_ws_rest [OF d] "3.IH"(1) [OF k refl x]] parse_key_rest [OF k]] .
  show ?case
  proof (cases "d = CHR ''}''")
    case True
    with "3.prems" k x d l show ?thesis by (subst (asm) parse_members.simps) auto
  next
    case False
    with "3.prems" k x d obtain ms where c: "d = CHR '',''" and "parse_members ds = Some (ms, r)"
      by (subst (asm) parse_members.simps) (auto split: if_splits)
    then have "rest_of r ds" using "3.IH"(2) [OF k refl x refl d False] l by (simp add: rest_of_def)
    with l show ?thesis by (rule rest_of_trans [rotated])
  qed
qed

text \<open>An object ends with a brace, so a text without one is no object.\<close>

lemma parse_members_brace: "parse_members s = Some (ms, r) \<Longrightarrow> CHR ''}'' \<in> set s"
proof (induction "length s" arbitrary: s ms rule: less_induct)
  case less
  then obtain k cs x y d ds where k: "parse_key s = Some (k, cs)"
    and x: "parse_value cs = Some (x, y)" and d: "skip_ws y = d # ds"
    by (subst (asm) parse_members.simps) (auto split: option.splits list.splits)
  have y: "rest_of y s" using rest_of_trans [OF parse_rest(1) [OF x] parse_key_rest [OF k]] .
  have ds: "rest_of ds s" using rest_of_trans [OF skip_ws_rest [OF d] y] .
  show ?case
  proof (cases "d = CHR ''}''")
    case True
    then have "CHR ''}'' \<in> set (skip_ws y)" using d by simp
    then have "CHR ''}'' \<in> set y" using set_span [of is_ws y] by (auto simp: skip_ws_def)
    with y show ?thesis by (auto simp: rest_of_def)
  next
    case False
    with less.prems k x d obtain ms' where "parse_members ds = Some (ms', r)"
      by (subst (asm) parse_members.simps) (auto split: if_splits)
    with less.hyps [of ds] ds show ?thesis by (auto simp: rest_of_def)
  qed
qed

end
