(* ===== verification/Go_Float64.thy ===== *)
theory Go_Float64
  imports LP_Prelude
begin

text \<open>
  Go's \<open>float64\<close>: IEEE 754 binary64 values with round-to-nearest, ties-to-even. Finite values are
  rationals; \<open>rnd\<close> is the rounding every operation applies to its exact result. The sign of zero is
  not represented: the program never divides by a zero and never prints one, so it cannot see it.
  The lemmas give what the components use: rounding is monotone, exact on integers up to \<open>2^53\<close>,
  and its relative error is at most \<open>2^-53\<close> on normal values.
\<close>

section \<open>Binary exponents\<close>

abbreviation pow2 :: "int \<Rightarrow> rat" where "pow2 e \<equiv> 2 powi e"

lemma pow2_mono: "a \<le> b \<Longrightarrow> pow2 a \<le> pow2 b"
  by (rule power_int_increasing) auto

lemma pow2_strict_mono: "a < b \<Longrightarrow> pow2 a < pow2 b"
  by (rule power_int_strict_increasing) auto

lemma pow2_less_cancel: "pow2 a < pow2 b \<Longrightarrow> a < b"
  using pow2_mono [of b a] by (force simp: not_less)

lemma pow2_nat: "0 \<le> e \<Longrightarrow> pow2 e = of_int (2 ^ nat e)"
  by (simp add: power_int_nonneg_exp)

lemma pow2_split: "b \<le> a \<Longrightarrow> pow2 a = of_int (2 ^ nat (a - b)) * pow2 b"
proof -
  assume le: "b \<le> a"
  have "pow2 (a - b + b) = pow2 (a - b) * pow2 b" by (rule power_int_add) simp
  with le show ?thesis by (simp only: pow2_nat diff_add_cancel diff_ge_0_iff_ge)
qed

function ilog2 :: "int \<Rightarrow> nat" where
  "ilog2 n = (if n < 2 then 0 else Suc (ilog2 (n div 2)))"
  by pat_completeness auto
termination
  by (relation "measure nat") auto

declare ilog2.simps [simp del]

lemma ilog2_bounds: "0 < n \<Longrightarrow> 2 ^ ilog2 n \<le> n \<and> n < 2 ^ (ilog2 n + 1)"
proof (induction n rule: ilog2.induct)
  case (1 n)
  show ?case
  proof (cases "n < 2")
    case True
    with "1.prems" show ?thesis by (simp add: ilog2.simps [of n])
  next
    case False
    with "1.IH" have "2 ^ ilog2 (n div 2) \<le> n div 2 \<and> n div 2 < 2 ^ (ilog2 (n div 2) + 1)"
      by simp
    with False show ?thesis by (auto simp: ilog2.simps [of n])
  qed
qed

text \<open>\<open>qexp x\<close> is the binary exponent of a positive rational: \<open>2^e \<le> x < 2^(e+1)\<close>.\<close>

definition qexp :: "rat \<Rightarrow> int" where
  "qexp x = (let (n, d) = quotient_of x; e = int (ilog2 n) - int (ilog2 d)
             in if pow2 e \<le> x then e else e - 1)"

lemma qexp_bounds:
  assumes "0 < x"
  shows "pow2 (qexp x) \<le> x" and "x < pow2 (qexp x + 1)"
proof -
  obtain n d where q: "quotient_of x = (n, d)" by force
  have d: "0 < d" using quotient_of_denom_pos [OF q] .
  have x: "x = of_int n / of_int d" using quotient_of_div [OF q] .
  with assms d have n: "0 < n" by (simp add: zero_less_divide_iff)
  define a b where "a = ilog2 n" and "b = ilog2 d"
  have ni: "2 ^ a \<le> n" "n < 2 ^ (a + 1)" and di: "2 ^ b \<le> d" "d < 2 ^ (b + 1)"
    using ilog2_bounds [OF n] ilog2_bounds [OF d] by (auto simp: a_def b_def)
  have nr: "2 ^ a \<le> (of_int n :: rat)" "(of_int n :: rat) < 2 ^ (a + 1)"
    using of_int_le_iff [of "2 ^ a" n, where 'a = rat] of_int_less_iff [of n "2 ^ (a + 1)", where 'a = rat] ni
    by simp_all
  have dr: "2 ^ b \<le> (of_int d :: rat)" "(of_int d :: rat) < 2 ^ (b + 1)"
    using of_int_le_iff [of "2 ^ b" d, where 'a = rat] of_int_less_iff [of d "2 ^ (b + 1)", where 'a = rat] di
    by simp_all
  have up: "x < pow2 (int a - int b + 1)"
  proof -
    have "x < 2 ^ (a + 1) / of_int d" unfolding x using nr d by (simp add: divide_strict_right_mono)
    also have "\<dots> \<le> 2 ^ (a + 1) / 2 ^ b" using dr d by (intro divide_left_mono) auto
    also have "\<dots> = pow2 (int (a + 1)) / pow2 (int b)" by (simp only: power_int_of_nat)
    also have "\<dots> = pow2 (int a - int b + 1)" by (subst power_int_diff [symmetric]) (auto simp: algebra_simps)
    finally show ?thesis .
  qed
  have lo: "pow2 (int a - int b - 1) \<le> x"
  proof -
    have "pow2 (int a - int b - 1) = pow2 (int a) / pow2 (int (b + 1))"
      by (subst power_int_diff [symmetric]) (auto simp: algebra_simps)
    also have "\<dots> = 2 ^ a / 2 ^ (b + 1)" by (simp only: power_int_of_nat)
    also have "\<dots> \<le> 2 ^ a / of_int d" using dr d by (intro divide_left_mono) auto
    also have "\<dots> \<le> x" unfolding x using nr d by (intro divide_right_mono) auto
    finally show ?thesis .
  qed
  have "qexp x = (if pow2 (int a - int b) \<le> x then int a - int b else int a - int b - 1)"
    by (simp add: qexp_def q a_def b_def Let_def)
  with up lo show "pow2 (qexp x) \<le> x" "x < pow2 (qexp x + 1)"
    by (auto simp: not_le)
qed

lemma qexp_unique:
  assumes "pow2 e \<le> x" and "x < pow2 (e + 1)"
  shows "qexp x = e"
proof -
  have "0 < x" using assms(1) by (rule less_le_trans [rotated]) simp
  note b = qexp_bounds [OF this]
  have "qexp x < e + 1" using b(1) assms(2) by (intro pow2_less_cancel) (rule le_less_trans)
  moreover have "e < qexp x + 1" using b(2) assms(1) by (intro pow2_less_cancel) (rule le_less_trans)
  ultimately show ?thesis by simp
qed

lemma qexp_mono:
  assumes "0 < x" and "x \<le> y"
  shows "qexp x \<le> qexp y"
proof -
  have "0 < y" using assms by simp
  have "pow2 (qexp x) < pow2 (qexp y + 1)"
    using qexp_bounds(1) [OF assms(1)] assms(2) qexp_bounds(2) [OF \<open>0 < y\<close>] by linarith
  then show ?thesis using pow2_less_cancel by fastforce
qed


section \<open>Rounding\<close>

text \<open>Round half to even, to an integer.\<close>

definition rne :: "rat \<Rightarrow> int" where
  "rne x = (let f = \<lfloor>x\<rfloor>; r = x - of_int f
            in if r < 1 / 2 then f else if 1 / 2 < r then f + 1
               else if even f then f else f + 1)"

lemma rne_of_int [simp]: "rne (of_int z) = z"
  by (simp add: rne_def)

lemma rne_cases: "rne x = \<lfloor>x\<rfloor> \<or> rne x = \<lfloor>x\<rfloor> + 1"
  by (simp add: rne_def Let_def)

lemma rne_error: "\<bar>of_int (rne x) - x\<bar> \<le> 1 / 2"
proof -
  have "of_int \<lfloor>x\<rfloor> \<le> x" "x < of_int \<lfloor>x\<rfloor> + 1" by linarith+
  then show ?thesis by (auto simp: rne_def Let_def abs_le_iff)
qed

lemma rne_mono:
  assumes "x \<le> y"
  shows "rne x \<le> rne y"
proof (cases "\<lfloor>x\<rfloor> = \<lfloor>y\<rfloor>")
  case True
  with assms show ?thesis by (auto simp: rne_def Let_def)
next
  case False
  with assms have "\<lfloor>x\<rfloor> + 1 \<le> \<lfloor>y\<rfloor>" using floor_mono [of x y] by linarith
  then show ?thesis using rne_cases [of x] rne_cases [of y] by linarith
qed

lemma rne_upper: "x \<le> of_int z \<Longrightarrow> rne x \<le> z"
  using rne_mono [of x "of_int z"] by simp

lemma rne_lower: "of_int z \<le> x \<Longrightarrow> z \<le> rne x"
  using rne_mono [of "of_int z" x] by simp

text \<open>
  The spacing of the representable values around a rational, and rounding to that grid: 53 bits
  of precision, and never finer than \<open>2^-1074\<close> (gradual underflow).
\<close>

definition ulp :: "rat \<Rightarrow> rat" where
  "ulp x = pow2 (max (qexp \<bar>x\<bar> - 52) (- 1074))"

definition rnd_rat :: "rat \<Rightarrow> rat" where
  "rnd_rat x = (if x = 0 then 0 else of_int (rne (x / ulp x)) * ulp x)"

lemma ulp_pos [simp]: "0 < ulp x"
  by (simp add: ulp_def)

lemma ulp_nonneg [simp]: "0 \<le> ulp x" "ulp x \<noteq> 0"
  using ulp_pos [of x] by linarith+

lemma rnd_rat_zero [simp]: "rnd_rat 0 = 0"
  by (simp add: rnd_rat_def)

lemma rnd_rat_nonneg: "0 \<le> x \<Longrightarrow> 0 \<le> rnd_rat x"
  using rne_lower [of 0 "x / ulp x"] by (auto simp: rnd_rat_def intro: mult_nonneg_nonneg)

lemma rnd_rat_nonpos: "x \<le> 0 \<Longrightarrow> rnd_rat x \<le> 0"
  using rne_upper [of "x / ulp x" 0]
  by (auto simp: rnd_rat_def divide_nonpos_pos intro: mult_nonpos_nonneg)

lemma rnd_rat_upper:
  assumes "x \<noteq> 0" and "x \<le> of_int z * ulp x"
  shows "rnd_rat x \<le> of_int z * ulp x"
proof -
  have "x / ulp x \<le> of_int z" using assms(2) by (simp add: pos_divide_le_eq)
  then have "rne (x / ulp x) \<le> z" by (rule rne_upper)
  then have "(of_int (rne (x / ulp x)) :: rat) \<le> of_int z" by simp
  then show ?thesis using assms(1) ulp_pos [of x]
    by (simp add: rnd_rat_def mult_right_mono less_imp_le)
qed

lemma rnd_rat_lower:
  assumes "x \<noteq> 0" and "of_int z * ulp x \<le> x"
  shows "of_int z * ulp x \<le> rnd_rat x"
proof -
  have "of_int z \<le> x / ulp x" using assms(2) by (simp add: pos_le_divide_eq)
  then have "z \<le> rne (x / ulp x)" by (rule rne_lower)
  then have "(of_int z :: rat) \<le> of_int (rne (x / ulp x))" by simp
  then show ?thesis using assms(1) ulp_pos [of x]
    by (simp add: rnd_rat_def mult_right_mono less_imp_le)
qed

lemma rnd_rat_exact: "x = of_int z * ulp x \<Longrightarrow> rnd_rat x = x"
  by (cases "x = 0")
    (metis rnd_rat_zero, metis rnd_rat_upper rnd_rat_lower order_antisym order_refl)

lemma rnd_rat_error: "\<bar>rnd_rat x - x\<bar> \<le> ulp x / 2"
proof (cases "x = 0")
  case False
  have "\<bar>of_int (rne (x / ulp x)) - x / ulp x\<bar> * ulp x \<le> 1 / 2 * ulp x"
    by (rule mult_right_mono [OF rne_error]) (simp add: less_imp_le)
  moreover have "\<bar>of_int (rne (x / ulp x)) - x / ulp x\<bar> * ulp x = \<bar>rnd_rat x - x\<bar>"
    using False ulp_pos [of x] by (simp add: rnd_rat_def abs_mult_pos left_diff_distrib less_imp_le)
  ultimately show ?thesis by simp
qed (simp add: ulp_def)

lemma ulp_mono: "0 < x \<Longrightarrow> x \<le> y \<Longrightarrow> ulp x \<le> ulp y"
  unfolding ulp_def by (rule pow2_mono) (use qexp_mono [of x y] in auto)

text \<open>Monotonicity: within one binade the grid is the same; across binades a power of two separates.\<close>

lemma rnd_rat_mono_pos:
  assumes "0 < x" and "x \<le> y"
  shows "rnd_rat x \<le> rnd_rat y"
proof (cases "ulp x = ulp y")
  case True
  have "x / ulp x \<le> y / ulp y" using assms True ulp_pos [of y] by (simp add: divide_right_mono less_imp_le)
  then have "(of_int (rne (x / ulp x)) :: rat) \<le> of_int (rne (y / ulp y))"
    using rne_mono by simp
  then show ?thesis using assms True ulp_pos [of y]
    by (simp add: rnd_rat_def mult_right_mono less_imp_le)
next
  case False
  let ?E = "qexp y"
  have y: "0 < y" using assms by simp
  have le: "qexp x \<le> ?E" using qexp_mono [OF assms] .
  from False assms y have "max (qexp x - 52) (- 1074) \<noteq> max (?E - 52) (- 1074)"
    by (auto simp: ulp_def)
  with le have big: "- 1074 < ?E - 52" and lt: "qexp x < ?E" by linarith+
  have xE: "x \<le> pow2 ?E"
    using qexp_bounds(2) [OF assms(1)] pow2_mono [of "qexp x + 1" ?E] lt by linarith
  have "pow2 ?E = of_int (2 ^ nat (?E - max (qexp x - 52) (- 1074))) * ulp x"
    unfolding ulp_def using assms lt big by (simp only: abs_of_pos) (rule pow2_split, simp)
  then obtain zx where zx: "pow2 ?E = of_int zx * ulp x" by blast
  have "rnd_rat x \<le> pow2 ?E" using rnd_rat_upper [of x zx] xE assms by (simp add: zx)
  also have "\<dots> \<le> rnd_rat y"
  proof -
    have "pow2 ?E = of_int (2 ^ nat (?E - max (?E - 52) (- 1074))) * ulp y"
      unfolding ulp_def using y big by (simp only: abs_of_pos) (rule pow2_split, simp)
    then obtain zy where zy: "pow2 ?E = of_int zy * ulp y" by blast
    then show ?thesis using rnd_rat_lower [of y zy] qexp_bounds(1) [OF y] y by simp
  qed
  finally show ?thesis .
qed

lemma ulp_minus [simp]: "ulp (- x) = ulp x"
  by (simp add: ulp_def)

lemma rne_minus: "rne (- x) = - rne x"
proof (cases "x = of_int \<lfloor>x\<rfloor>")
  case True
  then show ?thesis by (metis rne_of_int of_int_minus)
next
  case False
  then have f: "\<lfloor>- x\<rfloor> = - \<lfloor>x\<rfloor> - 1" by linarith
  show ?thesis by (auto simp: rne_def Let_def f)
qed

lemma rnd_rat_minus: "rnd_rat (- x) = - rnd_rat x"
  by (simp add: rnd_rat_def rne_minus)

lemma rnd_rat_mono:
  assumes "x \<le> y"
  shows "rnd_rat x \<le> rnd_rat y"
proof -
  consider "0 < x" | "y < 0" | "x \<le> 0" "0 \<le> y" using assms by linarith
  then show ?thesis
  proof cases
    case 2
    with rnd_rat_mono_pos [of "- y" "- x"] assms show ?thesis by (simp add: rnd_rat_minus)
  next
    case 3
    then show ?thesis using rnd_rat_nonneg [of y] rnd_rat_nonpos [of x] by simp
  qed (use assms rnd_rat_mono_pos in auto)
qed


text \<open>Every integer multiple of a power of two with at most 53 bits is representable.\<close>

lemma rnd_rat_dyadic:
  assumes m: "\<bar>m\<bar> \<le> 2 ^ 53" and e: "- 1074 \<le> e" and x: "x = of_int m * pow2 e"
  shows "rnd_rat x = x"
proof (cases "m = 0")
  case False
  then have pos: "0 < \<bar>x\<bar>" by (simp add: x)
  have "\<bar>x\<bar> = of_int \<bar>m\<bar> * pow2 e" by (simp add: x abs_mult)
  also have "\<dots> \<le> of_int (2 ^ 53) * pow2 e"
    using m of_int_le_iff [of "\<bar>m\<bar>" "2 ^ 53", where 'a = rat] by (intro mult_right_mono) auto
  also have "\<dots> = pow2 (e + 53)" by (simp add: power_int_add)
  finally have up: "\<bar>x\<bar> \<le> pow2 (e + 53)" .
  have "pow2 (qexp \<bar>x\<bar>) < pow2 (e + 54)"
    using qexp_bounds(1) [OF pos] up pow2_strict_mono [of "e + 53" "e + 54"] by linarith
  then have q: "qexp \<bar>x\<bar> \<le> e + 53" using pow2_less_cancel by fastforce
  let ?u = "max (qexp \<bar>x\<bar> - 52) (- 1074)"
  show ?thesis
  proof (cases "?u \<le> e")
    case True
    have "x = of_int (m * 2 ^ nat (e - ?u)) * ulp x"
      using pow2_split [OF True] by (simp add: x ulp_def)
    then show ?thesis by (rule rnd_rat_exact)
  next
    case False
    with q e have qe: "qexp \<bar>x\<bar> = e + 53" by linarith
    with up qexp_bounds(1) [OF pos] have ax: "\<bar>x\<bar> = pow2 (e + 53)" by simp
    have u: "ulp x = pow2 (e + 1)" using qe e by (simp add: ulp_def max_def add.commute)
    have "\<bar>x\<bar> = of_int (2 ^ 52) * ulp x"
      using pow2_split [of "e + 1" "e + 53"] by (simp add: ax u)
    then have "x = of_int (2 ^ 52) * ulp x \<or> x = of_int (- (2 ^ 52)) * ulp x"
      by (auto simp: abs_if split: if_splits)
    then show ?thesis using rnd_rat_exact by blast
  qed
qed (simp add: x)

lemma rnd_rat_int: "\<bar>z\<bar> \<le> 2 ^ 53 \<Longrightarrow> rnd_rat (of_int z) = of_int z"
  by (rule rnd_rat_dyadic [of z 0]) auto

lemma rnd_rat_pow2: "rnd_rat (2 ^ k) = 2 ^ k"
  by (rule rnd_rat_dyadic [of 1 "int k"]) auto

lemma rnd_rat_abs_le: "\<bar>x\<bar> \<le> 2 ^ k \<Longrightarrow> \<bar>rnd_rat x\<bar> \<le> 2 ^ k"
  using rnd_rat_mono [of x "2 ^ k"] rnd_rat_mono [of "- (2 ^ k)" x]
  by (simp add: rnd_rat_minus rnd_rat_pow2 abs_le_iff)

text \<open>The relative error on normal values.\<close>

lemma rnd_rat_rel_error:
  assumes "pow2 (- 1022) \<le> \<bar>x\<bar>"
  shows "\<bar>rnd_rat x - x\<bar> \<le> \<bar>x\<bar> / 2 ^ 53"
proof -
  have pos: "0 < \<bar>x\<bar>" using assms by (rule less_le_trans [rotated]) simp
  have "- 1022 < qexp \<bar>x\<bar> + 1"
    using assms qexp_bounds(2) [OF pos] by (intro pow2_less_cancel) linarith
  then have "max (qexp \<bar>x\<bar> - 52) (- 1074) = qexp \<bar>x\<bar> - 52" by linarith
  then have "ulp x = pow2 (qexp \<bar>x\<bar> - 52)" by (simp only: ulp_def)
  also have "\<dots> = pow2 (qexp \<bar>x\<bar>) / 2 ^ 52" by (subst power_int_diff) auto
  also have "\<dots> \<le> \<bar>x\<bar> / 2 ^ 52" using qexp_bounds(1) [OF pos] by (rule divide_right_mono) simp
  finally show ?thesis using rnd_rat_error [of x] by simp
qed

section \<open>The type and its operations\<close>

datatype f64 = Fin rat | PosInf | NegInf | NaN

definition rnd :: "rat \<Rightarrow> f64" where
  "rnd x = (let y = rnd_rat x
            in if 2 ^ 1024 \<le> y then PosInf else if y \<le> - (2 ^ 1024) then NegInf else Fin y)"

text \<open>An infinity with the sign of a non-zero finite operand.\<close>

definition inf_sgn :: "rat \<Rightarrow> f64" where
  "inf_sgn s = (if 0 < s then PosInf else if s < 0 then NegInf else NaN)"

fun f64_neg :: "f64 \<Rightarrow> f64" where
  "f64_neg (Fin a) = Fin (- a)"
| "f64_neg PosInf = NegInf"
| "f64_neg NegInf = PosInf"
| "f64_neg NaN = NaN"

fun f64_mul :: "f64 \<Rightarrow> f64 \<Rightarrow> f64" where
  "f64_mul NaN _ = NaN"
| "f64_mul _ NaN = NaN"
| "f64_mul (Fin a) (Fin b) = rnd (a * b)"
| "f64_mul (Fin a) PosInf = inf_sgn a"
| "f64_mul (Fin a) NegInf = inf_sgn (- a)"
| "f64_mul PosInf (Fin b) = inf_sgn b"
| "f64_mul NegInf (Fin b) = inf_sgn (- b)"
| "f64_mul PosInf y = y"
| "f64_mul NegInf y = f64_neg y"

fun f64_div :: "f64 \<Rightarrow> f64 \<Rightarrow> f64" where
  "f64_div NaN _ = NaN"
| "f64_div _ NaN = NaN"
| "f64_div (Fin a) (Fin b) = (if b = 0 then inf_sgn a else rnd (a / b))"
| "f64_div (Fin _) _ = Fin 0"
| "f64_div PosInf (Fin b) = (if b < 0 then NegInf else PosInf)"
| "f64_div NegInf (Fin b) = (if b < 0 then PosInf else NegInf)"
| "f64_div _ _ = NaN"

fun f64_add :: "f64 \<Rightarrow> f64 \<Rightarrow> f64" where
  "f64_add NaN _ = NaN"
| "f64_add _ NaN = NaN"
| "f64_add (Fin a) (Fin b) = rnd (a + b)"
| "f64_add (Fin _) y = y"
| "f64_add x (Fin _) = x"
| "f64_add x y = (if x = y then x else NaN)"

fun f64_lt :: "f64 \<Rightarrow> f64 \<Rightarrow> bool" where
  "f64_lt NaN _ = False"
| "f64_lt _ NaN = False"
| "f64_lt (Fin a) (Fin b) = (a < b)"
| "f64_lt NegInf y = (y \<noteq> NegInf)"
| "f64_lt _ NegInf = False"
| "f64_lt PosInf _ = False"
| "f64_lt (Fin _) PosInf = True"

definition f64_le :: "f64 \<Rightarrow> f64 \<Rightarrow> bool" where
  "f64_le x y \<longleftrightarrow> f64_lt x y \<or> x = y \<and> x \<noteq> NaN"

text \<open>\<open>float64(n)\<close> for an integer \<open>n\<close>.\<close>

definition f64_of_int :: "int \<Rightarrow> f64" where
  "f64_of_int n = rnd (of_int n)"

definition f64_of_u64 :: "u64 \<Rightarrow> f64" where
  "f64_of_u64 w = f64_of_int (uint w)"

definition f64_of_i64 :: "i64 \<Rightarrow> f64" where
  "f64_of_i64 w = f64_of_int (sint w)"

text \<open>
  \<open>uint64(x)\<close> discards the fraction. Go leaves the result implementation-dependent when the
  truncated value is not representable; the parameter \<open>oor\<close> (out of range) is that result.
\<close>

definition f64_trunc :: "rat \<Rightarrow> int" where
  "f64_trunc x = (if 0 \<le> x then \<lfloor>x\<rfloor> else \<lceil>x\<rceil>)"

definition f64_to_u64 :: "(f64 \<Rightarrow> u64) \<Rightarrow> f64 \<Rightarrow> u64" where
  "f64_to_u64 oor x = (case x of
      Fin r \<Rightarrow> if 0 \<le> f64_trunc r \<and> f64_trunc r < 2 ^ 64 then word_of_int (f64_trunc r) else oor x
    | _ \<Rightarrow> oor x)"

definition f64_to_i64 :: "(f64 \<Rightarrow> i64) \<Rightarrow> f64 \<Rightarrow> i64" where
  "f64_to_i64 oor x = (case x of
      Fin r \<Rightarrow> if - (2 ^ 63) \<le> f64_trunc r \<and> f64_trunc r < 2 ^ 63 then word_of_int (f64_trunc r) else oor x
    | _ \<Rightarrow> oor x)"

text \<open>\<open>time.Duration.Seconds\<close>: whole seconds plus the nanoseconds as a fraction.\<close>

definition duration_Seconds :: "duration \<Rightarrow> f64" where
  "duration_Seconds d =
     (let sec = sint d sdiv 1000000000; nsec = sint d smod 1000000000
      in f64_add (f64_of_int sec) (f64_div (f64_of_int nsec) (Fin 1000000000)))"

section \<open>Laws\<close>

lemma rnd_not_NaN [simp]: "rnd x \<noteq> NaN"
  by (simp add: rnd_def Let_def)

lemma rnd_bounded: "\<bar>x\<bar> \<le> 2 ^ 1023 \<Longrightarrow> rnd x = Fin (rnd_rat x)"
proof -
  assume "\<bar>x\<bar> \<le> 2 ^ 1023"
  then have "\<bar>rnd_rat x\<bar> \<le> 2 ^ 1023" by (rule rnd_rat_abs_le)
  moreover have "(2 :: rat) ^ 1023 < 2 ^ 1024" by simp
  ultimately show ?thesis by (simp add: rnd_def Let_def abs_le_iff)
qed

lemma f64_le_refl: "x \<noteq> NaN \<Longrightarrow> f64_le x x"
  by (simp add: f64_le_def)

lemma f64_lt_irrefl [simp]: "\<not> f64_lt x x"
  by (cases x) auto

lemma f64_lt_trans: "f64_lt x y \<Longrightarrow> f64_lt y z \<Longrightarrow> f64_lt x z"
  by (cases x; cases y; cases z) auto

lemma f64_not_lt: "x \<noteq> NaN \<Longrightarrow> y \<noteq> NaN \<Longrightarrow> \<not> f64_lt x y \<longleftrightarrow> f64_le y x"
  by (cases x; cases y) (auto simp: f64_le_def)

lemma f64_le_trans: "f64_le x y \<Longrightarrow> f64_le y z \<Longrightarrow> f64_le x z"
  by (auto simp: f64_le_def intro: f64_lt_trans)

lemma f64_le_Fin [simp]: "f64_le (Fin a) (Fin b) \<longleftrightarrow> a \<le> b"
  by (auto simp: f64_le_def)

lemma rnd_mono: "x \<le> y \<Longrightarrow> f64_le (rnd x) (rnd y)"
  using rnd_rat_mono [of x y] by (auto simp: rnd_def Let_def f64_le_def)

lemma f64_of_int_exact: "\<bar>n\<bar> \<le> 2 ^ 53 \<Longrightarrow> f64_of_int n = Fin (of_int n)"
proof -
  assume n: "\<bar>n\<bar> \<le> 2 ^ 53"
  have "\<bar>of_int n :: rat\<bar> = of_int \<bar>n\<bar>" by simp
  also have "\<dots> \<le> of_int (2 ^ 53)" using n by (simp only: of_int_le_iff)
  also have "\<dots> \<le> 2 ^ 1023" by simp
  finally show ?thesis using n by (simp add: f64_of_int_def rnd_bounded rnd_rat_int)
qed

text \<open>Any 64-bit integer converts to a finite value.\<close>

lemma f64_of_int_finite:
  assumes "\<bar>n\<bar> \<le> 2 ^ 64"
  shows "f64_of_int n = Fin (rnd_rat (of_int n))" and "\<bar>rnd_rat (of_int n)\<bar> \<le> 2 ^ 64"
proof -
  have "\<bar>of_int n :: rat\<bar> = of_int \<bar>n\<bar>" by simp
  also have "\<dots> \<le> of_int (2 ^ 64)" using assms by (simp only: of_int_le_iff)
  finally have le: "\<bar>of_int n :: rat\<bar> \<le> 2 ^ 64" by simp
  then show "\<bar>rnd_rat (of_int n)\<bar> \<le> 2 ^ 64" by (rule rnd_rat_abs_le)
  have "(2 :: rat) ^ 64 \<le> 2 ^ 1023" by simp
  with le show "f64_of_int n = Fin (rnd_rat (of_int n))" by (simp add: f64_of_int_def rnd_bounded)
qed

end
