(* ===== verification/Go_Path.thy ===== *)
theory Go_Path
  imports LP_Prelude
begin

text \<open>
  \<open>path/filepath\<close> on a Unix system, as far as the program uses it: \<open>Clean\<close>, \<open>Join\<close> and \<open>Dir\<close>.
  The invoice files sit at \<open>Join(root, "invoices", hex)\<close>; the lemma at the end is what makes
  different invoices live in different files.
\<close>

fun split_slash :: "string \<Rightarrow> string list" where
  "split_slash [] = [[]]"
| "split_slash (c # cs) =
     (if c = CHR ''/'' then [] # split_slash cs
      else (case split_slash cs of [] \<Rightarrow> [[c]] | p # ps \<Rightarrow> (c # p) # ps))"

fun join_slash :: "string list \<Rightarrow> string" where
  "join_slash [] = []"
| "join_slash [p] = p"
| "join_slash (p # ps) = p @ ''/'' @ join_slash ps"

text \<open>One path element: empty elements and \<open>.\<close> vanish, \<open>..\<close> removes the element before it.\<close>

definition clean_step :: "bool \<Rightarrow> string list \<Rightarrow> string \<Rightarrow> string list" where
  "clean_step rooted acc p =
     (if p = [] \<or> p = ''.'' then acc
      else if p = ''..'' then
        (if acc \<noteq> [] \<and> last acc \<noteq> ''..'' then butlast acc
         else if rooted then acc else acc @ [p])
      else acc @ [p])"

definition path_Clean :: "string \<Rightarrow> string" where
  "path_Clean s =
     (if s = [] then ''.''
      else let rooted = (hd s = CHR ''/'');
               body = join_slash (foldl (clean_step rooted) [] (split_slash s))
           in if rooted then ''/'' @ body else if body = [] then ''.'' else body)"

definition path_Join :: "string list \<Rightarrow> string" where
  "path_Join es =
     (let es' = dropWhile (\<lambda>e. e = []) es in if es' = [] then [] else path_Clean (join_slash es'))"

definition path_Dir :: "string \<Rightarrow> string" where
  "path_Dir p = path_Clean (rev (dropWhile (\<lambda>c. c \<noteq> CHR ''/'') (rev p)))"

section \<open>Laws\<close>

lemma split_slash_ne [simp]: "split_slash s \<noteq> []"
  by (induction s) (auto split: list.split)

lemma split_slash_append:
  "split_slash (a @ ''/'' @ b) = split_slash a @ split_slash b"
proof (induction a)
  case (Cons c a)
  then show ?case by (cases "split_slash a") (auto split: list.split)
qed simp

lemma split_slash_plain: "CHR ''/'' \<notin> set s \<Longrightarrow> split_slash s = [s]"
  by (induction s) auto

lemma join_slash_snoc: "ps \<noteq> [] \<Longrightarrow> join_slash (ps @ [p]) = join_slash ps @ ''/'' @ p"
  by (induction ps rule: join_slash.induct) auto

definition plain_elem :: "string \<Rightarrow> bool" where
  "plain_elem p \<longleftrightarrow> CHR ''/'' \<notin> set p \<and> p \<noteq> ''.'' \<and> p \<noteq> ''..''"

lemma clean_step_plain: "plain_elem p \<Longrightarrow> clean_step r acc p = (if p = [] then acc else acc @ [p])"
  by (simp add: clean_step_def plain_elem_def)

text \<open>The directory part of \<open>Join(root, dir, name)\<close> does not depend on the name.\<close>

definition join_base :: "string \<Rightarrow> string \<Rightarrow> string" where
  "join_base rdir dir =
     (let s = (if rdir = [] then dir else rdir @ ''/'' @ dir);
          rooted = (hd s = CHR ''/'')
      in (if rooted then ''/'' else []) @
         join_slash (foldl (clean_step rooted) [] (split_slash s)))"

lemma path_Join_dir:
  assumes d: "plain_elem d" "d \<noteq> []" and n: "plain_elem n"
  shows "path_Join [rdir, d, n] = join_base rdir d @ (if n = [] then [] else CHR ''/'' # n)"
proof -
  define s where "s = (if rdir = [] then d else rdir @ ''/'' @ d)"
  have s: "s \<noteq> []" and hd: "hd (s @ ''/'' @ n) = hd s" using d by (auto simp: s_def)
  let ?r = "hd s = CHR ''/''"
  have dd: "split_slash d = [d]" "split_slash n = [n]"
    using d n by (auto simp: plain_elem_def split_slash_plain)
  have fs: "foldl (clean_step ?r) [] (split_slash s) \<noteq> []"
  proof (cases "rdir = []")
    case True
    then show ?thesis using d dd by (simp add: s_def clean_step_plain)
  next
    case False
    have "split_slash s = split_slash rdir @ [d]"
      using False dd split_slash_append [of rdir d] by (simp add: s_def)
    then show ?thesis using d by (simp add: clean_step_plain)
  qed
  let ?body = "foldl (clean_step ?r) [] (split_slash s)"
  have join: "path_Join [rdir, d, n] = path_Clean (s @ ''/'' @ n)"
    using d by (simp add: path_Join_def s_def)
  have body: "foldl (clean_step ?r) [] (split_slash (s @ ''/'' @ n)) = (if n = [] then ?body else ?body @ [n])"
    using split_slash_append [of s n] n by (simp add: dd clean_step_plain)
  have j: "join_slash (if n = [] then ?body else ?body @ [n])
      = join_slash ?body @ (if n = [] then [] else CHR ''/'' # n)"
    using fs join_slash_snoc [of ?body n] by simp
  have ne: "join_slash ?body \<noteq> []"
  proof -
    have "\<exists>ps. ?body = ps @ [d]"
    proof (cases "rdir = []")
      case True
      then show ?thesis using d dd by (simp add: s_def clean_step_plain)
    next
      case False
      have "split_slash s = split_slash rdir @ [d]"
        using False dd split_slash_append [of rdir d] by (simp add: s_def)
      then show ?thesis using d by (simp add: clean_step_plain)
    qed
    then obtain ps where "?body = ps @ [d]" ..
    then show ?thesis using d by (cases "ps = []") (simp_all add: join_slash_snoc)
  qed
  have "path_Clean (s @ ''/'' @ n) =
      (if ?r then ''/'' else []) @ join_slash ?body @ (if n = [] then [] else CHR ''/'' # n)"
    using s ne unfolding path_Clean_def Let_def hd body j by (cases "hd s = CHR ''/''") simp_all
  then show ?thesis by (simp add: join join_base_def s_def [symmetric] Let_def)
qed

lemma path_Join_inject:
  assumes "plain_elem d" "d \<noteq> []" "plain_elem n" "plain_elem n'"
  shows "path_Join [rdir, d, n] = path_Join [rdir, d, n'] \<longleftrightarrow> n = n'"
  using assms by (auto simp: path_Join_dir split: if_splits)

end
