(* ===== verification/Daemon_State.thy ===== *)
theory Daemon_State
  imports Go_Json Go_Float64 Go_Path
begin

text \<open>
  The state of the daemon and what surrounds it. \<open>'w\<close> is the outside world: the dcrlnd node, the
  clock, the file system's failures. It is opaque; every call to code outside the repository is a
  field of the record \<open>env\<close> that maps the world before the call to its answer and the world after
  it, so nothing is assumed about the answers, about their consistency with each other, or about
  what other processes do meanwhile. \<open>sys\<close> is what the daemon itself keeps: the table of pending
  requests of \<open>Server\<close>, the files under its root directory, the goroutines it has started and that
  have not run yet, and a ghost field \<open>events\<close>, the list of effects it has had so far.
\<close>

section \<open>Data from dcrlnd\<close>

record chainParams =
  Name :: string
  TargetTimePerBlock :: duration

record shortChanID =
  BlockHeight :: u32
  TxIndex :: u32
  TxPosition :: "16 word"

text \<open>\<open>lnrpc.Channel\<close>, \<open>lnrpc.Invoice\<close> and the other messages, with the fields the daemon reads.\<close>

record channel =
  ch_ChannelPoint :: string
  ch_RemotePubkey :: string
  ch_ChanId :: u64
  ch_Capacity :: i64
  ch_LocalBalance :: i64
  ch_RemoteBalance :: i64
  ch_TotalAtomsSent :: i64
  ch_Initiator :: bool

record pendingOpenChannel =
  po_RemoteNodePub :: string
  po_ChannelPoint :: string
  po_Capacity :: i64

record pendingChannels =
  PendingOpenChannels :: "pendingOpenChannel list"
  LimboBalances :: "i64 list"

record getInfo =
  IdentityPubkey :: string
  gi_BlockHeight :: u32
  gi_Chains :: "(string \<times> string) list"

datatype invoiceState = InvOpen | InvSettled | InvCanceled | InvAccepted

record invoice =
  inv_State :: invoiceState
  inv_RHash :: "u8 list"
  inv_AmtPaidAtoms :: i64

datatype fundingTxid = FundingTxidBytes "u8 list" | FundingTxidStr string | FundingTxidNone

record channelPoint =
  FundingTxid :: fundingTxid
  OutputIndex :: u32

datatype openUpdate = ChanPending "u8 list" u32 | ChanOpen channelPoint | OpenOther

datatype closeUpdate = ClosePending "u8 list" | ChanClose "u8 list" | CloseOther

section \<open>The server's configuration\<close>

record config =
  ChainParams :: chainParams
  RootDir :: string
  LNRPCHost :: string
  LNTLSCertPath :: string
  LNMacaroonPath :: string
  LNNodeAddrs :: "string list"
  MaxPendingChans :: u64
  MinChanSize :: u64
  MaxChanSize :: u64
  MaxNbChannels :: u64
  MinWalletBalance :: i64
  CloseCheckInterval :: duration
  MinChanLifetime :: duration
  CreateKey :: "string option"
  InvoiceExpiration :: duration
  IgnoreChannels :: "string set"
  IgnoreNodes :: "string set"
  ChanInvoiceFeeRate :: f64

section \<open>The environment\<close>

text \<open>
  Calls to dcrlnd answer with a message on failure. \<open>e_OpenChannel\<close> and \<open>e_CloseChannel\<close> return
  once the request is accepted; the updates that follow on their streams are inputs of the
  functions that read them. \<open>e_Delay\<close> is \<open>select\<close> on a timer and the context: true when the context
  was done first. The file system calls answer \<open>None\<close> on success; a failed write leaves the given
  bytes in the file. The last fields are pure: third-party functions of \<open>lnwire\<close> and \<open>chainhash\<close>,
  and Go's implementation-dependent float conversions.
\<close>

record 'w env =
  e_ListChannels :: "nodeID option \<Rightarrow> 'w \<Rightarrow> (string + channel list) \<times> 'w"
  e_ListPeers :: "'w \<Rightarrow> (string + string list) \<times> 'w"
  e_ListUnspent :: "'w \<Rightarrow> (string + i64 list) \<times> 'w"
  e_PendingChannels :: "'w \<Rightarrow> (string + pendingChannels) \<times> 'w"
  e_WalletBalance :: "'w \<Rightarrow> (string + i64) \<times> 'w"
  e_GetInfo :: "'w \<Rightarrow> (string + getInfo) \<times> 'w"
  e_AddInvoice :: "string \<Rightarrow> i64 \<Rightarrow> i64 \<Rightarrow> 'w \<Rightarrow> (string + (u8 list \<times> string)) \<times> 'w"
  e_OpenChannel :: "nodeID \<Rightarrow> i64 \<Rightarrow> 'w \<Rightarrow> (string + unit) \<times> 'w"
  e_CloseChannel :: "channelPoint \<Rightarrow> bool \<Rightarrow> 'w \<Rightarrow> (string + unit) \<times> 'w"
  e_Now :: "'w \<Rightarrow> int \<times> 'w"
  e_CtxDone :: "'w \<Rightarrow> bool \<times> 'w"
  e_Delay :: "duration \<Rightarrow> 'w \<Rightarrow> bool \<times> 'w"
  e_MkdirAll :: "string \<Rightarrow> 'w \<Rightarrow> string option \<times> 'w"
  e_Create :: "string \<Rightarrow> 'w \<Rightarrow> string option \<times> 'w"
  e_Write :: "string \<Rightarrow> string \<Rightarrow> 'w \<Rightarrow> (string \<times> string) option \<times> 'w"
  e_Open :: "string \<Rightarrow> 'w \<Rightarrow> string option \<times> 'w"
  e_Remove :: "string \<Rightarrow> 'w \<Rightarrow> string option \<times> 'w"
  e_NewShortChanIDFromInt :: "u64 \<Rightarrow> shortChanID"
  e_NewHashFromStr :: "string \<Rightarrow> string + u8 list"
  e_NewHash :: "u8 list \<Rightarrow> string + u8 list"
  e_HashString :: "u8 list \<Rightarrow> string"
  e_u64_oor :: "f64 \<Rightarrow> u64"
  e_i64_oor :: "f64 \<Rightarrow> i64"

section \<open>The daemon's state\<close>

record waitingInvoice =
  TargetNode :: nodeID
  ChannelSize :: u64

text \<open>The pending table holds instants as nanoseconds of Go's monotonic clock.\<close>

type_synonym pendingTable = "nodeID \<rightharpoonup> int"

datatype event =
    EvAddInvoice string i64 i64
  | EvStored string waitingInvoice
  | EvPartial string
  | EvSpawnOpen string waitingInvoice i64
  | EvOpenChannel nodeID i64
  | EvAccepted nodeID i64
  | EvDelay duration
  | EvSpawnClose nodeID string
  | EvCloseChannel channelPoint bool

text \<open>
  The goroutines that are under way, with the point they have reached: a request that has been
  admitted and has no invoice yet, a channel opening (before the policy check, before an attempt,
  or reading updates), a channel closing.
\<close>

datatype openPhase = OpenCheck | OpenAttempt nat | OpenWatch

datatype task = CreateTask waitingInvoice | OpenTask waitingInvoice openPhase | CloseTask nodeID string

record 'w sys =
  world :: 'w
  pendingChans :: pendingTable
  files :: "string \<rightharpoonup> string"
  tasks :: "task list"
  events :: "event list"

definition emit :: "event \<Rightarrow> 'w sys \<Rightarrow> 'w sys" where
  "emit e s = s\<lparr>events := events s @ [e]\<rparr>"

definition spawn :: "task \<Rightarrow> 'w sys \<Rightarrow> 'w sys" where
  "spawn t s = s\<lparr>tasks := tasks s @ [t]\<rparr>"

text \<open>One call to dcrlnd.\<close>

definition rpc :: "('w \<Rightarrow> (string + 'a) \<times> 'w) \<Rightarrow> 'w sys \<Rightarrow> 'a res \<times> 'w sys" where
  "rpc f s = (case f (world s) of
      (Inl m, w) \<Rightarrow> (Err (ErrRpc m), s\<lparr>world := w\<rparr>)
    | (Inr x, w) \<Rightarrow> (Ok x, s\<lparr>world := w\<rparr>))"

text \<open>One call whose answer is not an error: the clock and the timer.\<close>

definition ask :: "('w \<Rightarrow> 'a \<times> 'w) \<Rightarrow> 'w sys \<Rightarrow> 'a \<times> 'w sys" where
  "ask f s = (case f (world s) of (x, w) \<Rightarrow> (x, s\<lparr>world := w\<rparr>))"

text \<open>\<open>x, err := m; if err != nil { return err }; k(x)\<close>\<close>

fun bindR :: "'a res \<times> 's \<Rightarrow> ('a \<Rightarrow> 's \<Rightarrow> 'b res \<times> 's) \<Rightarrow> 'b res \<times> 's" where
  "bindR (Ok x, s) k = k x s"
| "bindR (Err e, s) k = (Err e, s)"
| "bindR (Panic m, s) k = (Panic m, s)"

text \<open>\<open>if err == nil && !q() { err = e }\<close> and \<open>if err == nil && q() { err = e }\<close>\<close>

definition requireR :: "err \<Rightarrow> bool \<times> 's \<Rightarrow> ('s \<Rightarrow> 'b res \<times> 's) \<Rightarrow> 'b res \<times> 's" where
  "requireR e m k = (case m of (b, s) \<Rightarrow> if b then k s else (Err e, s))"

definition refuseR :: "err \<Rightarrow> bool \<times> 's \<Rightarrow> ('s \<Rightarrow> 'b res \<times> 's) \<Rightarrow> 'b res \<times> 's" where
  "refuseR e m k = (case m of (b, s) \<Rightarrow> if b then (Err e, s) else k s)"

section \<open>Streams of updates\<close>

text \<open>How a goroutine that reads a stream is left: still reading, or ended.\<close>

definition endOfStream :: "err \<Rightarrow> bool" where
  "endOfStream e \<longleftrightarrow> e = ErrCanceled \<or> e = ErrEOF"

datatype stream = Reading | Ended | Failed err

definition recvError :: "err \<Rightarrow> stream" where
  "recvError e = (if endOfStream e then Ended else Failed e)"

section \<open>Frame lemmas\<close>

text \<open>Two states that differ at most in the outside world.\<close>

definition quiet :: "'w sys \<Rightarrow> 'w sys \<Rightarrow> bool" where
  "quiet s t \<longleftrightarrow> pendingChans t = pendingChans s \<and> files t = files s \<and> tasks t = tasks s \<and>
     events t = events s"

lemma quiet_refl [simp]: "quiet s s"
  by (simp add: quiet_def)

lemma quiet_trans: "quiet s t \<Longrightarrow> quiet t u \<Longrightarrow> quiet s u"
  by (simp add: quiet_def)

lemma quiet_world [simp]: "quiet s (s\<lparr>world := w\<rparr>)"
  by (simp add: quiet_def)

lemma quiet_rpc: "rpc f s = (r, t) \<Longrightarrow> quiet s t"
  by (auto simp: rpc_def split: prod.splits sum.splits)

lemma quiet_ask: "ask f s = (r, t) \<Longrightarrow> quiet s t"
  by (auto simp: ask_def split: prod.splits)

lemma rpc_not_Panic: "rpc f s = (r, t) \<Longrightarrow> r \<noteq> Panic m"
  by (auto simp: rpc_def split: prod.splits sum.splits)

lemma rpc_Err: "rpc f s = (Err e, t) \<Longrightarrow> \<exists>m. e = ErrRpc m"
  by (auto simp: rpc_def split: prod.splits sum.splits)

lemma bindR_Ok_iff:
  "bindR m k = (Ok y, t) \<longleftrightarrow> (\<exists>x s. m = (Ok x, s) \<and> k x s = (Ok y, t))"
  by (cases m rule: prod.exhaust, rename_tac r s, case_tac r) auto

lemma bindR_Err_iff:
  "bindR m k = (Err e, t) \<longleftrightarrow> m = (Err e, t) \<or> (\<exists>x s. m = (Ok x, s) \<and> k x s = (Err e, t))"
  by (cases m rule: prod.exhaust, rename_tac r s, case_tac r) auto

lemma bindR_Panic_iff:
  "bindR m k = (Panic p, t) \<longleftrightarrow> m = (Panic p, t) \<or> (\<exists>x s. m = (Ok x, s) \<and> k x s = (Panic p, t))"
  by (cases m rule: prod.exhaust, rename_tac r s, case_tac r) auto

lemma requireR_iffs:
  "requireR e m k = (Ok y, t) \<longleftrightarrow> (\<exists>s. m = (True, s) \<and> k s = (Ok y, t))"
  "requireR e m k = (Err e', t) \<longleftrightarrow> m = (False, t) \<and> e' = e \<or> (\<exists>s. m = (True, s) \<and> k s = (Err e', t))"
  "requireR e m k = (Panic p, t) \<longleftrightarrow> (\<exists>s. m = (True, s) \<and> k s = (Panic p, t))"
  by (auto simp: requireR_def split: prod.split)

lemma refuseR_iffs:
  "refuseR e m k = (Ok y, t) \<longleftrightarrow> (\<exists>s. m = (False, s) \<and> k s = (Ok y, t))"
  "refuseR e m k = (Err e', t) \<longleftrightarrow> m = (True, t) \<and> e' = e \<or> (\<exists>s. m = (False, s) \<and> k s = (Err e', t))"
  "refuseR e m k = (Panic p, t) \<longleftrightarrow> (\<exists>s. m = (False, s) \<and> k s = (Panic p, t))"
  by (auto simp: refuseR_def split: prod.split)

lemmas bindR_iffs = bindR_Ok_iff bindR_Err_iff bindR_Panic_iff requireR_iffs refuseR_iffs

end
