(* ===== verification/Sample_World.thy ===== *)
theory Sample_World
  imports Daemon_State
begin

text \<open>
  One concrete environment, configuration and state, on which the witnesses of the properties are
  evaluated. The world is the clock, in nanoseconds; every call succeeds and reading the clock
  advances it by one.
\<close>

definition sampleNode :: nodeID where
  "sampleNode = replicate 33 2"

definition sampleEnv :: "int env" where
  "sampleEnv = \<lparr>
     e_ListChannels = \<lambda>_ w. (Inr [], w),
     e_ListPeers = \<lambda>w. (Inr [nodeString sampleNode], w),
     e_ListUnspent = \<lambda>w. (Inr [700000, 800000], w),
     e_PendingChannels = \<lambda>w. (Inr \<lparr>PendingOpenChannels = [], LimboBalances = [500]\<rparr>, w),
     e_WalletBalance = \<lambda>w. (Inr 1000, w),
     e_GetInfo = \<lambda>w. (Inr \<lparr>IdentityPubkey = nodeString sampleNode, gi_BlockHeight = 7201,
        gi_Chains = [(''decred'', ''simnet'')]\<rparr>, w),
     e_AddInvoice = \<lambda>_ _ _ w. (Inr ([1, 2, 3], ''payreq''), w),
     e_OpenChannel = \<lambda>_ _ w. (Inr (), w),
     e_CloseChannel = \<lambda>_ _ w. (Inr (), w),
     e_Now = \<lambda>w. (w, w + 1),
     e_CtxDone = \<lambda>w. (False, w),
     e_Delay = \<lambda>d w. (False, w + sint d),
     e_MkdirAll = \<lambda>_ w. (None, w),
     e_Create = \<lambda>_ w. (None, w),
     e_Write = \<lambda>_ _ w. (None, w),
     e_Open = \<lambda>_ w. (None, w),
     e_Remove = \<lambda>_ w. (None, w),
     e_NewShortChanIDFromInt = \<lambda>n. \<lparr>BlockHeight = ucast (drop_bit 40 n),
        TxIndex = ucast (drop_bit 16 n AND 0xFFFFFF), TxPosition = ucast n\<rparr>,
     e_NewHashFromStr = \<lambda>_. Inr (replicate 32 0),
     e_NewHash = \<lambda>bs. if length bs = 32 then Inr bs else Inl ''invalid hash length'',
     e_HashString = hexEncode,
     e_u64_oor = \<lambda>_. 0,
     e_i64_oor = \<lambda>_. 0\<rparr>"

definition sampleCfg :: config where
  "sampleCfg = \<lparr>
     ChainParams = \<lparr>Name = ''simnet'', TargetTimePerBlock = second\<rparr>,
     RootDir = ''/lpd'', LNRPCHost = [], LNTLSCertPath = [], LNMacaroonPath = [], LNNodeAddrs = [],
     MaxPendingChans = 5, MinChanSize = 1000, MaxChanSize = 2000000, MaxNbChannels = 1,
     MinWalletBalance = 5000, CloseCheckInterval = hour, MinChanLifetime = hour, CreateKey = None,
     InvoiceExpiration = hour, IgnoreChannels = {}, IgnoreNodes = {}, ChanInvoiceFeeRate = Fin (1 / 16)\<rparr>"

definition sampleState :: "int sys" where
  "sampleState = \<lparr>world = 0, pendingChans = Map.empty, files = Map.empty, tasks = [], events = []\<rparr>"

definition sampleInvoice :: waitingInvoice where
  "sampleInvoice = \<lparr>TargetNode = sampleNode, ChannelSize = 1048576\<rparr>"

lemma sample_simps [simp]:
  "wf_nodeID sampleNode"
  "TargetNode sampleInvoice = sampleNode" "ChannelSize sampleInvoice = 1048576"
  by (simp_all add: wf_nodeID_def sampleNode_def sampleInvoice_def)

lemmas sample_defs = sampleEnv_def sampleCfg_def sampleState_def

end
