(* ===== verification/Invoice_Store.thy ===== *)
theory Invoice_Store
  imports Sample_World
begin

text \<open>
  \<open>server/db.go\<close>: one JSON file per invoice, named by the invoice's payment hash. The first part is
  the JSON form of an invoice record and its round trip; the second the three file operations with
  the failures the operating system can report; the third the interface of a keyed store, which
  the file operations implement when the file system does not fail.
\<close>

section \<open>Invoice records as JSON\<close>

abbreviation dq :: string where "dq \<equiv> [CHR 0x22]"

definition marshalNodeID :: "nodeID \<Rightarrow> string" where
  "marshalNodeID u = dq @ nodeString u @ dq"

definition encodeWaitingInvoice :: "waitingInvoice \<Rightarrow> string" where
  "encodeWaitingInvoice w =
     ''{'' @ dq @ ''target_node'' @ dq @ '':'' @ marshalNodeID (TargetNode w) @ '','' @
     dq @ ''channel_size'' @ dq @ '':'' @ fmt_u64 (ChannelSize w) @ ''}'' @ [CHR 0x0A]"

text \<open>
  Decoding into a struct. A JSON null leaves an integer field alone; \<open>NodeID.UnmarshalJSON\<close> turns a
  null into the empty string, which is no node id. Field names match up to case
  (\<open>fold_name\<close>, with the two letters outside ASCII that fold into it); a later member overrides
  an earlier one; members with other names are skipped.
\<close>

fun unmarshalNodeID :: "json \<Rightarrow> nodeID option" where
  "unmarshalNodeID (JStr s) = nodeOf s"
| "unmarshalNodeID JNull = nodeOf []"
| "unmarshalNodeID _ = None"

fun unmarshalU64 :: "u64 \<Rightarrow> json \<Rightarrow> u64 option" where
  "unmarshalU64 old (JNum lit) = dec_u64 lit"
| "unmarshalU64 old JNull = Some old"
| "unmarshalU64 old _ = None"

definition upper_char :: "char \<Rightarrow> char" where
  "upper_char c = (if 97 \<le> byte c \<and> byte c \<le> 122 then char_of (byte c - 32) else c)"

fun fold_name :: "string \<Rightarrow> string" where
  "fold_name [] = []"
| "fold_name (c # cs) =
     (if byte c = 226 \<and> map byte (take 2 cs) = [132, 170] then CHR ''K'' # fold_name (drop 2 cs)
      else if byte c = 197 \<and> map byte (take 1 cs) = [191] then CHR ''S'' # fold_name (drop 1 cs)
      else upper_char c # fold_name cs)"

definition is_field :: "string \<Rightarrow> string \<Rightarrow> bool" where
  "is_field name k \<longleftrightarrow> fold_name k = fold_name name"

fun setInvoiceField :: "waitingInvoice option \<Rightarrow> string \<times> json \<Rightarrow> waitingInvoice option" where
  "setInvoiceField None m = None"
| "setInvoiceField (Some w) (k, v) =
     (if is_field ''target_node'' k then map_option (\<lambda>u. w\<lparr>TargetNode := u\<rparr>) (unmarshalNodeID v)
      else if is_field ''channel_size'' k
      then map_option (\<lambda>n. w\<lparr>ChannelSize := n\<rparr>) (unmarshalU64 (ChannelSize w) v)
      else Some w)"

definition zeroWaitingInvoice :: waitingInvoice where
  "zeroWaitingInvoice = \<lparr>TargetNode = zeroNodeID, ChannelSize = 0\<rparr>"

definition decodeWaitingInvoice :: "string \<Rightarrow> waitingInvoice option" where
  "decodeWaitingInvoice s =
     (case parse_value s of
        Some (JObj ms, _) \<Rightarrow> foldl setInvoiceField (Some zeroWaitingInvoice) ms
      | Some (JNull, _) \<Rightarrow> Some zeroWaitingInvoice
      | _ \<Rightarrow> None)"

definition wf_winv :: "waitingInvoice \<Rightarrow> bool" where
  "wf_winv w \<longleftrightarrow> wf_nodeID (TargetNode w)"

subsection \<open>Round trip\<close>

text \<open>Characters that stand for themselves inside a JSON string.\<close>

definition plain :: "char \<Rightarrow> bool" where
  "plain c \<longleftrightarrow> 32 \<le> byte c \<and> byte c < 128 \<and> byte c \<noteq> 34 \<and> byte c \<noteq> 92"

lemma utf8_fix_plain: "\<forall>c \<in> set s. plain c \<Longrightarrow> utf8_fix s = s"
  by (induction s) (simp_all add: plain_def Let_def)

lemma parse_str_plain: "\<forall>c \<in> set s. plain c \<Longrightarrow> parse_str (s @ dq @ r) = Some (s, r)"
  by (induction s) (auto simp: plain_def)

lemma skip_ws_id: "\<not> is_ws c \<Longrightarrow> skip_ws (c # cs) = c # cs"
  by (simp add: skip_ws_def)

lemma parse_key_plain:
  "\<forall>c \<in> set s. plain c \<Longrightarrow> parse_key (dq @ s @ dq @ '':'' @ r) = Some (s, r)"
  using parse_str_plain [of s "'':'' @ r"]
  by (simp add: parse_key_def skip_ws_id is_ws_def utf8_fix_plain)

lemma parse_value_plain:
  "\<forall>c \<in> set s. plain c \<Longrightarrow> parse_value (dq @ s @ dq @ r) = Some (JStr s, r)"
  using parse_str_plain [of s r]
  by (simp add: parse_value.simps skip_ws_id is_ws_def utf8_fix_plain)

lemma hex_char_plain: "hex_char c \<Longrightarrow> plain c"
  by (auto simp: hex_char_def hextable_def plain_def)

lemma nodeString_plain: "\<forall>c \<in> set (nodeString u). plain c"
  by (auto simp: nodeString_def dest: hexEncode_chars hex_char_plain)

lemma fmt_nat_zero_first: "fmt_nat n = CHR ''0'' # cs \<Longrightarrow> cs = []"
proof (induction n arbitrary: cs rule: fmt_nat.induct)
  case (1 n)
  show ?case
  proof (cases "n < 10")
    case True
    with "1.prems" show ?thesis by (simp add: fmt_nat.simps [of n])
  next
    case False
    obtain d ds where d: "fmt_nat (n div 10) = d # ds" by (cases "fmt_nat (n div 10)") auto
    with False "1.prems" have "d = CHR ''0''" by (simp add: fmt_nat.simps [of n])
    with d "1.IH" False have "fmt_nat (n div 10) = ''0''" by simp
    then have "parse_digits (n div 10) 0 ''0'' = Inr (n div 10)"
      using parse_digits_fmt [of "n div 10" "n div 10"] by simp
    then have "n div 10 = 0" by (simp add: is_digit_def digit_val_def)
    with False show ?thesis by simp
  qed
qed

lemma parse_num_fmt: "\<not> is_digit c \<Longrightarrow> c \<notin> set ''.eE'' \<Longrightarrow> parse_num (fmt_nat n @ c # r) = Some (fmt_nat n, c # r)"
proof -
  assume c: "\<not> is_digit c" "c \<notin> set ''.eE''"
  obtain d ds where d: "fmt_nat n = d # ds" by (cases "fmt_nat n") auto
  have dig: "\<forall>x \<in> set (d # ds). is_digit x" using fmt_nat_digits [of _ n] by (simp add: d)
  then have m: "d \<noteq> CHR ''-''" by (auto simp: is_digit_def)
  have sp: "span_digits (d # ds @ c # r) = (d # ds, c # r)"
    using dig c by (simp add: span_digits_def takeWhile_append dropWhile_append)
  have "num_int (d # ds @ c # r) = Some (d # ds, c # r)"
    using dig sp fmt_nat_zero_first [of n ds] d by (auto simp: num_int_def)
  then show ?thesis using c m by (simp add: parse_num_def d num_frac_def num_exp_def)
qed

lemma parse_value_num:
  assumes "\<not> is_digit c" and "c \<notin> set ''.eE''"
  shows "parse_value (fmt_nat n @ c # r) = Some (JNum (fmt_nat n), c # r)"
proof -
  obtain d ds where d: "fmt_nat n = d # ds" by (cases "fmt_nat n") auto
  have "is_digit d" using fmt_nat_digits [of d n] by (simp add: d)
  then have "\<not> is_ws d" "d \<noteq> CHR ''{''" "d \<noteq> CHR ''[''" "byte d \<noteq> 34"
    "d \<noteq> CHR ''t''" "d \<noteq> CHR ''f''" "d \<noteq> CHR ''n''"
    by (auto simp: is_digit_def is_ws_def)
  then show ?thesis using parse_num_fmt [OF assms, of n r]
    by (simp add: parse_value.simps [of "d # ds @ c # r"] d skip_ws_id)
qed

text \<open>The text of a record up to its closing bracket; the encoder adds a newline.\<close>

definition recordText :: "waitingInvoice \<Rightarrow> string" where
  "recordText w =
     ''{'' @ dq @ ''target_node'' @ dq @ '':'' @ marshalNodeID (TargetNode w) @ '','' @
     dq @ ''channel_size'' @ dq @ '':'' @ fmt_u64 (ChannelSize w)"

lemma encode_recordText: "encodeWaitingInvoice w = recordText w @ [CHR ''}'', CHR 0x0A]"
  by (simp add: encodeWaitingInvoice_def recordText_def)

lemma decode_recordText: "wf_winv w \<Longrightarrow> decodeWaitingInvoice (recordText w @ CHR ''}'' # r) = Some w"
proof -
  assume w: "wf_winv w"
  let ?t = "fmt_u64 (ChannelSize w) @ CHR ''}'' # r"
  let ?m2 = "dq @ ''channel_size'' @ dq @ '':'' @ ?t"
  let ?m1 = "dq @ ''target_node'' @ dq @ '':'' @ dq @ nodeString (TargetNode w) @ dq @ '','' @ ?m2"
  have num: "parse_value ?t = Some (JNum (fmt_u64 (ChannelSize w)), CHR ''}'' # r)"
    using parse_value_num [of "CHR ''}''" "unat (ChannelSize w)" r]
    by (simp add: fmt_u64_def is_digit_def)
  have k2: "parse_key ?m2 = Some (''channel_size'', ?t)"
    by (rule parse_key_plain) (simp add: plain_def)
  have m2: "parse_members ?m2 = Some ([(''channel_size'', JNum (fmt_u64 (ChannelSize w)))], r)"
    unfolding parse_members.simps [of ?m2] k2 option.case prod.case num
    by (simp add: skip_ws_id is_ws_def)
  have k1: "parse_key ?m1 = Some (''target_node'', dq @ nodeString (TargetNode w) @ dq @ '','' @ ?m2)"
    by (rule parse_key_plain) (simp add: plain_def)
  have v1: "parse_value (dq @ nodeString (TargetNode w) @ dq @ '','' @ ?m2)
      = Some (JStr (nodeString (TargetNode w)), '','' @ ?m2)"
    by (rule parse_value_plain [OF nodeString_plain])
  have m1: "parse_members ?m1 = Some ([(''target_node'', JStr (nodeString (TargetNode w))),
      (''channel_size'', JNum (fmt_u64 (ChannelSize w)))], r)"
    unfolding parse_members.simps [of ?m1] k1 option.case prod.case v1
    using m2 by (simp add: skip_ws_id is_ws_def)
  have enc: "recordText w @ CHR ''}'' # r = CHR ''{'' # ?m1"
    by (simp add: recordText_def marshalNodeID_def)
  have "parse_value (recordText w @ CHR ''}'' # r) = map_option (apfst JObj) (parse_members ?m1)"
    unfolding enc by (subst parse_value.simps) (simp add: skip_ws_id is_ws_def)
  then have "parse_value (recordText w @ CHR ''}'' # r) =
      Some (JObj [(''target_node'', JStr (nodeString (TargetNode w))),
        (''channel_size'', JNum (fmt_u64 (ChannelSize w)))], r)"
    unfolding m1 by simp
  moreover have "nodeOf (nodeString (TargetNode w)) = Some (TargetNode w)"
    using w node.dec_enc by (simp add: wf_winv_def)
  ultimately show ?thesis
    using decimal.dec_enc [of "ChannelSize w"]
    by (simp add: decodeWaitingInvoice_def is_field_def upper_char_def zeroWaitingInvoice_def)
qed

lemma decode_encode_winv: "wf_winv w \<Longrightarrow> decodeWaitingInvoice (encodeWaitingInvoice w) = Some w"
  by (simp add: encode_recordText decode_recordText)

text \<open>
  A file whose write was cut short reads back as the record or not at all: without the closing bracket the object does
  not end.
\<close>

lemma parse_object_brace:
  assumes "parse_value (CHR ''{'' # s) = Some (v, r)"
  shows "CHR ''}'' \<in> set s"
proof -
  have ws: "skip_ws (CHR ''{'' # s) = CHR ''{'' # s" by (simp add: skip_ws_id is_ws_def)
  obtain d ds where d: "skip_ws s = d # ds" "d = CHR ''}'' \<or> (\<exists>ms. parse_members s = Some (ms, r))"
    using assms unfolding parse_value.simps [of "CHR ''{'' # s"] ws by (auto split: list.splits if_splits)
  from d(1) have "d \<in> set (skip_ws s)" by simp
  then have "d \<in> set s" using set_span [of is_ws s] by (auto simp: skip_ws_def)
  with d(2) parse_members_brace show ?thesis by blast
qed

lemma recordText_chars: "CHR ''}'' \<notin> set (recordText w)"
proof -
  have "plain (CHR ''}'') \<Longrightarrow> hex_char (CHR ''}'') \<Longrightarrow> False" by (simp add: hex_char_def hextable_def)
  then have "CHR ''}'' \<notin> set (nodeString (TargetNode w))"
    by (auto simp: nodeString_def dest: hexEncode_chars hex_char_plain)
  moreover have "CHR ''}'' \<notin> set (fmt_u64 (ChannelSize w))"
    by (auto simp: fmt_u64_def is_digit_def dest!: fmt_nat_digits)
  ultimately show ?thesis by (simp add: recordText_def marshalNodeID_def)
qed

lemma decode_prefix:
  assumes w: "wf_winv w" and c: "encodeWaitingInvoice w = c @ u" and d: "decodeWaitingInvoice c = Some w'"
  shows "w' = w"
proof (cases "length c \<le> length (recordText w)")
  case True
  then have pre: "c = take (length c) (recordText w)"
    using c unfolding encode_recordText by (metis append_eq_append_conv_if append_take_drop_id)
  have "CHR ''}'' \<notin> set c" using recordText_chars [of w] pre by (metis in_set_takeD)
  moreover have ne: "c \<noteq> []" using d by (auto simp: decodeWaitingInvoice_def parse_value.simps [of "[]"] skip_ws_def)
  moreover have "hd c = CHR ''{''"
  proof -
    have "hd c = hd (take (length c) (recordText w))" using pre by simp
    also have "\<dots> = hd (recordText w)" using ne by (simp add: hd_take)
    finally show ?thesis by (simp add: recordText_def)
  qed
  ultimately have "parse_value c = None" using parse_object_brace [of "tl c"] by (cases c; cases "parse_value c") auto
  with d show ?thesis by (simp add: decodeWaitingInvoice_def)
next
  case False
  then have "c = recordText w @ take (length c - length (recordText w)) [CHR ''}'', CHR 0x0A]"
    using c unfolding encode_recordText by (metis append_eq_conv_conj linear take_append take_all)
  moreover have "take (length c - length (recordText w)) [CHR ''}'', CHR 0x0A] = CHR ''}'' # take (length c - length (recordText w) - 1) [CHR 0x0A]"
    using False by (cases "length c - length (recordText w)") auto
  ultimately have "decodeWaitingInvoice c = Some w" using decode_recordText [OF w] by metis
  with d show ?thesis by simp
qed

lemma setInvoiceField_wf:
  "(\<And>w. acc = Some w \<Longrightarrow> wf_winv w) \<Longrightarrow> setInvoiceField acc m = Some w' \<Longrightarrow> wf_winv w'"
proof (cases acc)
  case (Some w)
  assume wf: "\<And>w. acc = Some w \<Longrightarrow> wf_winv w" and s: "setInvoiceField acc m = Some w'"
  obtain k v where m: "m = (k, v)" by force
  have node_wf: "wf_nodeID u" if "unmarshalNodeID v = Some u" for u
    using that node.dec_ok by (cases v) auto
  show ?thesis
    using s wf [OF Some] node_wf by (auto simp: Some m wf_winv_def split: if_splits)
qed simp

lemma foldl_setInvoiceField_wf:
  "(\<And>w. acc = Some w \<Longrightarrow> wf_winv w) \<Longrightarrow> foldl setInvoiceField acc ms = Some w' \<Longrightarrow> wf_winv w'"
proof (induction ms arbitrary: acc)
  case (Cons m ms)
  have "\<And>w. setInvoiceField acc m = Some w \<Longrightarrow> wf_winv w"
    using setInvoiceField_wf Cons.prems(1) by blast
  then show ?case using Cons.IH [of "setInvoiceField acc m"] Cons.prems(2) by simp
qed simp

lemma decode_wf: "decodeWaitingInvoice s = Some w \<Longrightarrow> wf_winv w"
proof -
  have z: "wf_winv zeroWaitingInvoice" by (simp add: wf_winv_def zeroWaitingInvoice_def)
  assume "decodeWaitingInvoice s = Some w"
  then show ?thesis
    using foldl_setInvoiceField_wf [of "Some zeroWaitingInvoice"] z
    by (auto simp: decodeWaitingInvoice_def split: option.splits json.splits)
qed

interpretation winv_codec: codec encodeWaitingInvoice decodeWaitingInvoice wf_winv
  by unfold_locales (simp_all add: decode_encode_winv decode_wf)

section \<open>The file operations\<close>

definition invoicesDir :: string where
  "invoicesDir = ''invoices''"

text \<open>\<open>filepath.Join(s.root, invoicesDir, hex.EncodeToString(rhash))\<close>\<close>

definition invoicePath :: "config \<Rightarrow> u8 list \<Rightarrow> string" where
  "invoicePath cfg rhash = path_Join [RootDir cfg, invoicesDir, hexEncode rhash]"

definition writeJsonFile :: "'w env \<Rightarrow> string \<Rightarrow> waitingInvoice \<Rightarrow> 'w sys \<Rightarrow> unit res \<times> 'w sys" where
  "writeJsonFile E fpath data s =
     (case ask (e_MkdirAll E (path_Dir fpath)) s of
        (Some m, s1) \<Rightarrow> (Err (ErrOther m), s1)
      | (None, s1) \<Rightarrow>
          (case ask (e_Create E fpath) s1 of
             (Some m, s2) \<Rightarrow> (Err (ErrOther m), s2)
           | (None, s2) \<Rightarrow>
               (case ask (e_Write E fpath (encodeWaitingInvoice data)) s2 of
                  (Some (m, part), s3) \<Rightarrow>
                    (Err (ErrOther m), emit (EvPartial fpath) (s3\<lparr>files := (files s3)(fpath \<mapsto> part)\<rparr>))
                | (None, s3) \<Rightarrow>
                    (Ok (), emit (EvStored fpath data)
                       (s3\<lparr>files := (files s3)(fpath \<mapsto> encodeWaitingInvoice data)\<rparr>)))))"

definition readJsonFile :: "'w env \<Rightarrow> string \<Rightarrow> 'w sys \<Rightarrow> waitingInvoice res \<times> 'w sys" where
  "readJsonFile E fpath s =
     (case ask (e_Open E fpath) s of
        (Some m, s1) \<Rightarrow> (Err (ErrOther m), s1)
      | (None, s1) \<Rightarrow>
          (case files s1 fpath of
             None \<Rightarrow> (Err ErrNotExists, s1)
           | Some c \<Rightarrow>
               (case decodeWaitingInvoice c of
                  None \<Rightarrow> (Err (ErrOther ''json''), s1)
                | Some w \<Rightarrow> (Ok w, s1))))"

text \<open>Removing a file that does not exist is not an error.\<close>

definition removeFile :: "'w env \<Rightarrow> string \<Rightarrow> 'w sys \<Rightarrow> unit res \<times> 'w sys" where
  "removeFile E fpath s =
     (case ask (e_Remove E fpath) s of
        (Some m, s1) \<Rightarrow> (Err (ErrOther m), s1)
      | (None, s1) \<Rightarrow> (Ok (), s1\<lparr>files := (files s1)(fpath := None)\<rparr>))"

subsection \<open>What each operation does, on every outcome\<close>

lemma writeJsonFile_cases:
  assumes "writeJsonFile E p d s = (r, t)"
  obtains (stored) "r = Ok ()" "files t = (files s)(p \<mapsto> encodeWaitingInvoice d)"
      "events t = events s @ [EvStored p d]" "pendingChans t = pendingChans s" "tasks t = tasks s"
  | (untouched) e where "r = Err e" "quiet s t"
  | (partial) e part where "r = Err e" "files t = (files s)(p \<mapsto> part)"
      "events t = events s @ [EvPartial p]" "pendingChans t = pendingChans s" "tasks t = tasks s"
      "\<exists>m w0 w1. e_Write E p (encodeWaitingInvoice d) w0 = (Some (m, part), w1)"
  using assms
  by (auto simp: writeJsonFile_def emit_def ask_def quiet_def split: prod.splits option.splits) blast

lemma readJsonFile_quiet: "readJsonFile E p s = (r, t) \<Longrightarrow> quiet s t"
  by (auto simp: readJsonFile_def ask_def quiet_def split: prod.splits option.splits)

lemma readJsonFile_Ok:
  "readJsonFile E p s = (Ok w, t) \<Longrightarrow> \<exists>c. files s p = Some c \<and> decodeWaitingInvoice c = Some w"
  by (auto simp: readJsonFile_def ask_def split: prod.splits option.splits)

lemma readJsonFile_NotExists:
  "readJsonFile E p s = (Err ErrNotExists, t) \<Longrightarrow> files s p = None"
  by (auto simp: readJsonFile_def ask_def split: prod.splits option.splits)

lemma readJsonFile_not_Panic: "readJsonFile E p s \<noteq> (Panic m, t)"
  by (auto simp: readJsonFile_def ask_def split: prod.splits option.splits)

lemma removeFile_cases:
  assumes "removeFile E p s = (r, t)"
  obtains (removed) "r = Ok ()" "files t = (files s)(p := None)" "events t = events s"
      "pendingChans t = pendingChans s" "tasks t = tasks s"
  | (failed) e where "r = Err e" "quiet s t"
  using assms by (auto simp: removeFile_def ask_def quiet_def split: prod.splits option.splits)

section \<open>The interface of a keyed store\<close>

text \<open>
  What the rest of the server relies on: a stored record is read back until it is removed, a
  removed one is gone, and other keys are not affected. The operations are the three above with
  their state, on an environment whose file system calls succeed.
\<close>

locale keyed_store =
  fixes put :: "'k \<Rightarrow> 'v \<Rightarrow> 's \<Rightarrow> unit res \<times> 's"
    and get :: "'k \<Rightarrow> 's \<Rightarrow> 'v res \<times> 's"
    and del :: "'k \<Rightarrow> 's \<Rightarrow> unit res \<times> 's"
    and look :: "'s \<Rightarrow> 'k \<Rightarrow> 'v option"
    and okv :: "'v \<Rightarrow> bool"
  assumes put_ok: "okv v \<Longrightarrow> \<exists>t. put k v s = (Ok (), t) \<and> look t = (look s)(k \<mapsto> v)"
    and get_some: "look s k = Some v \<Longrightarrow> \<exists>t. get k s = (Ok v, t) \<and> look t = look s"
    and del_ok: "\<exists>t. del k s = (Ok (), t) \<and> look t = (look s)(k := None)"
begin

lemma get_after_put:
  assumes "okv v" and "put k v s = (r, t)"
  shows "\<exists>u. get k t = (Ok v, u) \<and> look u k = Some v"
proof -
  from put_ok [OF assms(1), of k s] assms(2) have l: "look t = (look s)(k \<mapsto> v)" by auto
  then have "look t k = Some v" by simp
  from get_some [OF this] l show ?thesis by auto
qed

lemma del_after_put:
  assumes "okv v" and "put k v s = (r, t)" and "del k t = (r', u)"
  shows "look u = (look s)(k := None)"
proof -
  from put_ok [OF assms(1), of k s] assms(2) have "look t = (look s)(k \<mapsto> v)" by auto
  moreover from del_ok [of k t] assms(3) have "look u = (look t)(k := None)" by auto
  ultimately show ?thesis by simp
qed

lemma put_put_other:
  assumes "okv v" "okv v'" "k \<noteq> k'" "put k v s = (r, t)" "put k' v' t = (r', u)"
  shows "\<exists>x. get k u = (Ok v, x)"
proof -
  from put_ok [OF assms(1), of k s] assms(4) have "look t = (look s)(k \<mapsto> v)" by auto
  moreover from put_ok [OF assms(2), of k' t] assms(5) have "look u = (look t)(k' \<mapsto> v')" by auto
  ultimately have "look u k = Some v" using assms(3) by simp
  from get_some [OF this] show ?thesis by blast
qed

end

text \<open>An environment whose file system calls all succeed, whatever else it does.\<close>

definition with_good_fs :: "'w env \<Rightarrow> 'w env" where
  "with_good_fs E = E\<lparr>e_MkdirAll := \<lambda>_ w. (None, w), e_Create := \<lambda>_ w. (None, w),
     e_Write := \<lambda>_ _ w. (None, w), e_Open := \<lambda>_ w. (None, w), e_Remove := \<lambda>_ w. (None, w)\<rparr>"

text \<open>The records a state holds: the files that decode.\<close>

definition stored :: "'w sys \<Rightarrow> string \<Rightarrow> waitingInvoice option" where
  "stored s p = Option.bind (files s p) decodeWaitingInvoice"

lemma stored_upd: "wf_winv v \<Longrightarrow> files t = (files s)(p \<mapsto> encodeWaitingInvoice v) \<Longrightarrow> stored t = (stored s)(p \<mapsto> v)"
  by (auto simp: stored_def fun_eq_iff decode_encode_winv)

lemma stored_del: "files t = (files s)(p := None) \<Longrightarrow> stored t = (stored s)(p := None)"
  by (auto simp: stored_def fun_eq_iff)

interpretation invoice_store: keyed_store
  "writeJsonFile (with_good_fs E)" "readJsonFile (with_good_fs E)" "removeFile (with_good_fs E)"
  stored wf_winv
  for E :: "'w env"
proof
  fix v k and s :: "'w sys"
  show "wf_winv v \<Longrightarrow> \<exists>t. writeJsonFile (with_good_fs E) k v s = (Ok (), t) \<and> stored t = (stored s)(k \<mapsto> v)"
    by (auto simp: writeJsonFile_def with_good_fs_def ask_def emit_def intro!: stored_upd)
  show "\<exists>t. removeFile (with_good_fs E) k s = (Ok (), t) \<and> stored t = (stored s)(k := None)"
    by (auto simp: removeFile_def with_good_fs_def ask_def intro!: stored_del)
  show "stored s k = Some v \<Longrightarrow> \<exists>t. readJsonFile (with_good_fs E) k s = (Ok v, t) \<and> stored t = stored s"
    by (auto simp: readJsonFile_def with_good_fs_def ask_def stored_def fun_eq_iff split: option.splits bind_splits)
qed

section \<open>Different invoices, different files\<close>

lemma hexEncode_plain_elem: "plain_elem (hexEncode r)"
proof -
  have "c \<noteq> CHR ''/'' \<and> c \<noteq> CHR ''.''" if "c \<in> set (hexEncode r)" for c
    using hexEncode_chars [OF that] by (auto simp: hex_char_def hextable_def)
  then show ?thesis unfolding plain_elem_def by (metis list.set_intros(1))
qed

lemma invoicePath_inject [simp]: "invoicePath cfg r = invoicePath cfg r' \<longleftrightarrow> r = r'"
  unfolding invoicePath_def
  by (subst path_Join_inject)
    (simp_all add: hexEncode_plain_elem hex.enc_inject invoicesDir_def plain_elem_def [of "''invoices''"])

section \<open>Properties\<close>

text \<open>
  C25. The record written for an invoice decodes to the record, and whatever a file holds, a decoded
  record has a node id of the right length.
\<close>

theorem record_roundtrip:
  assumes "wf_winv w"
  shows "decodeWaitingInvoice (encodeWaitingInvoice w) = Some w \<and>
    (\<forall>v. decodeWaitingInvoice s = Some v \<longrightarrow> wf_winv v)"
  using decode_encode_winv [OF assms] decode_wf by simp

theorem record_roundtrip_witness:
  "decodeWaitingInvoice (encodeWaitingInvoice \<lparr>TargetNode = zeroNodeID, ChannelSize = 7\<rparr>) =
     Some \<lparr>TargetNode = zeroNodeID, ChannelSize = 7\<rparr>"
  using record_roundtrip [of "\<lparr>TargetNode = zeroNodeID, ChannelSize = 7\<rparr>" "[]"] by (simp add: wf_winv_def)

text \<open>
  On a file system that works, records of different invoices do not disturb each other: after
  storing two records under different payment hashes and removing the second, the first is read
  back unchanged and the second does not exist.
\<close>

lemma records_independent:
  assumes "wf_winv v" "wf_winv v'" "h \<noteq> h'" and E: "E = with_good_fs E'"
    and w: "writeJsonFile E (invoicePath cfg h) v s = (r, s1)"
      "writeJsonFile E (invoicePath cfg h') v' s1 = (r', s2)"
      "removeFile E (invoicePath cfg h') s2 = (r'', s3)"
  shows "fst (readJsonFile E (invoicePath cfg h) s3) = Ok v \<and>
     fst (readJsonFile E (invoicePath cfg h') s3) = Err ErrNotExists"
proof -
  from invoice_store.put_ok [OF assms(1), of E' "invoicePath cfg h" s] w(1) E
  have l1: "stored s1 = (stored s)(invoicePath cfg h \<mapsto> v)" by auto
  from invoice_store.del_after_put [OF assms(2) w(2,3) [unfolded E]]
  have l3: "stored s3 = (stored s1)(invoicePath cfg h' := None)" .
  have "stored s3 (invoicePath cfg h) = Some v" using l1 l3 assms(3) by simp
  from invoice_store.get_some [OF this, of E'] E have "fst (readJsonFile E (invoicePath cfg h) s3) = Ok v"
    by auto
  moreover have "files s3 (invoicePath cfg h') = None"
    using w(3) by (auto simp: E removeFile_def with_good_fs_def ask_def)
  then have "fst (readJsonFile E (invoicePath cfg h') s3) = Err ErrNotExists"
    by (simp add: readJsonFile_def E with_good_fs_def ask_def)
  ultimately show ?thesis ..
qed

lemma records_independent_witness:
  "\<exists>s1 s2 s3. writeJsonFile (with_good_fs sampleEnv) (invoicePath sampleCfg [1]) sampleInvoice sampleState = (Ok (), s1) \<and>
     writeJsonFile (with_good_fs sampleEnv) (invoicePath sampleCfg [2]) sampleInvoice s1 = (Ok (), s2) \<and>
     removeFile (with_good_fs sampleEnv) (invoicePath sampleCfg [2]) s2 = (Ok (), s3) \<and>
     fst (readJsonFile (with_good_fs sampleEnv) (invoicePath sampleCfg [1]) s3) = Ok sampleInvoice"
proof -
  have wf: "wf_winv sampleInvoice" by (simp add: wf_winv_def)
  obtain s1 where 1: "writeJsonFile (with_good_fs sampleEnv) (invoicePath sampleCfg [1]) sampleInvoice sampleState = (Ok (), s1)"
    using invoice_store.put_ok [OF wf] by blast
  obtain s2 where 2: "writeJsonFile (with_good_fs sampleEnv) (invoicePath sampleCfg [2]) sampleInvoice s1 = (Ok (), s2)"
    using invoice_store.put_ok [OF wf] by blast
  obtain s3 where 3: "removeFile (with_good_fs sampleEnv) (invoicePath sampleCfg [2]) s2 = (Ok (), s3)"
    using invoice_store.del_ok by blast
  show ?thesis using records_independent [OF wf wf _ refl 1 2 3] 1 2 3 by auto
qed

end
