(* ===== verification/Pending_Table.thy ===== *)
theory Pending_Table
  imports Sample_World
begin

text \<open>
  \<open>Server.pendingChans\<close> in \<open>server/server.go\<close>: the table of nodes that have asked for a channel
  lately. Three goroutines touch it, each under the mutex, so each access below is one atomic
  step: a request (\<open>hasPendingCreateChanReqs\<close>), the removal when a channel has opened
  (\<open>openChannel\<close>), and the sweep of stale entries (\<open>Run\<close>). \<open>lease_table\<close> is the contract they
  share, and \<open>pend_run\<close> is any interleaving of the steps on a clock that does not go back.
\<close>

section \<open>The code\<close>

text \<open>\<open>!t.Before(now.Add(-expiration))\<close>\<close>

definition pendingLive :: "duration \<Rightarrow> int \<Rightarrow> int \<Rightarrow> bool" where
  "pendingLive expiration now t \<longleftrightarrow> \<not> t < now + sint (- expiration)"

definition trackPending :: "'w env \<Rightarrow> nodeID \<Rightarrow> 'w sys \<Rightarrow> bool \<times> 'w sys" where
  "trackPending E node s = (case ask (e_Now E) s of
     (now, s1) \<Rightarrow> (False, s1\<lparr>pendingChans := (pendingChans s1)(node \<mapsto> now)\<rparr>))"

definition hasPendingCreateChanReqs ::
  "'w env \<Rightarrow> config \<Rightarrow> nodeID \<Rightarrow> 'w sys \<Rightarrow> bool \<times> 'w sys" where
  "hasPendingCreateChanReqs E cfg node s = (case pendingChans s node of
      Some t \<Rightarrow>
        (case ask (e_Now E) s of
           (now, s1) \<Rightarrow> if pendingLive (InvoiceExpiration cfg) now t then (True, s1)
                        else trackPending E node s1)
    | None \<Rightarrow> trackPending E node s)"

text \<open>\<open>delete(s.pendingChans, node)\<close>\<close>

definition dropPending :: "nodeID \<Rightarrow> 'w sys \<Rightarrow> 'w sys" where
  "dropPending node s = s\<lparr>pendingChans := (pendingChans s)(node := None)\<rparr>"

text \<open>One round of the cleanup goroutine of \<open>Run\<close>.\<close>

definition sweepTable :: "int \<Rightarrow> pendingTable \<Rightarrow> pendingTable" where
  "sweepTable limit T = (\<lambda>k. case T k of None \<Rightarrow> None | Some v \<Rightarrow> if v < limit then None else Some v)"

definition sweepPending :: "'w env \<Rightarrow> config \<Rightarrow> 'w sys \<Rightarrow> 'w sys" where
  "sweepPending E cfg s = (case ask (e_Now E) s of
     (now, s1) \<Rightarrow>
       s1\<lparr>pendingChans := sweepTable (now + sint (- InvoiceExpiration cfg)) (pendingChans s1)\<rparr>)"

section \<open>The table alone\<close>

text \<open>
  The effect of a request on the table, given its two readings of the clock: \<open>n1\<close> for the check
  and \<open>n2\<close> for the new entry. The result is true when the request is refused.
\<close>

definition pendRequest :: "duration \<Rightarrow> int \<Rightarrow> int \<Rightarrow> nodeID \<Rightarrow> pendingTable \<Rightarrow> bool \<times> pendingTable" where
  "pendRequest expiration n1 n2 node T = (case T node of
      Some t \<Rightarrow> if pendingLive expiration n1 t then (True, T) else (False, T(node \<mapsto> n2))
    | None \<Rightarrow> (False, T(node \<mapsto> n2)))"

lemma hasPending_table:
  assumes "hasPendingCreateChanReqs E cfg node s = (b, t)"
  shows "\<exists>n1 n2. pendRequest (InvoiceExpiration cfg) n1 n2 node (pendingChans s) = (b, pendingChans t)"
proof (cases "pendingChans s node")
  case None
  with assms show ?thesis
    by (auto simp: hasPendingCreateChanReqs_def trackPending_def pendRequest_def ask_def split: prod.splits)
next
  case (Some v)
  with assms show ?thesis
    by (fastforce simp: hasPendingCreateChanReqs_def trackPending_def pendRequest_def ask_def
        split: prod.splits if_splits)
qed

lemma hasPending_frame:
  "hasPendingCreateChanReqs E cfg node s = (b, t) \<Longrightarrow>
     files t = files s \<and> tasks t = tasks s \<and> events t = events s"
  by (auto simp: hasPendingCreateChanReqs_def trackPending_def ask_def split: prod.splits option.splits if_splits)

lemma hasPending_refused_quiet:
  "hasPendingCreateChanReqs E cfg node s = (True, t) \<Longrightarrow> quiet s t"
  by (auto simp: hasPendingCreateChanReqs_def trackPending_def ask_def quiet_def
      split: prod.splits option.splits if_splits)

lemma sweepPending_table:
  "\<exists>n. pendingChans (sweepPending E cfg s) = sweepTable (n + sint (- InvoiceExpiration cfg)) (pendingChans s)"
  by (auto simp: sweepPending_def ask_def split: prod.splits)

section \<open>The contract of a lease table\<close>

text \<open>
  A table of leases that expire \<open>ttl\<close> after they are granted: a live lease refuses, anything else
  is granted at the second reading of the clock; a release forgets the lease; a sweep forgets
  exactly the expired ones.
\<close>

locale lease_table =
  fixes ttl :: int
    and acquire :: "int \<Rightarrow> int \<Rightarrow> 'k \<Rightarrow> 't \<Rightarrow> bool \<times> 't"
    and release :: "'k \<Rightarrow> 't \<Rightarrow> 't"
    and sweep :: "int \<Rightarrow> 't \<Rightarrow> 't"
    and holds :: "'t \<Rightarrow> 'k \<Rightarrow> int option"
  assumes acquire_live: "holds T k = Some t \<Longrightarrow> n1 \<le> t + ttl \<Longrightarrow> acquire n1 n2 k T = (True, T)"
    and acquire_free: "(\<And>t. holds T k = Some t \<Longrightarrow> t + ttl < n1) \<Longrightarrow>
      \<exists>T'. acquire n1 n2 k T = (False, T') \<and> holds T' = (holds T)(k \<mapsto> n2)"
    and release_holds: "holds (release k T) = (holds T)(k := None)"
    and sweep_holds: "holds (sweep n T) k =
      (case holds T k of None \<Rightarrow> None | Some t \<Rightarrow> if t + ttl < n then None else Some t)"
begin

text \<open>
  \<open>tracked G c T\<close>: the ghost map \<open>G\<close> says when each lease was last granted and not released, and at
  clock \<open>c\<close> the table still holds every one of them that has not expired.
\<close>

definition tracked :: "('k \<Rightarrow> int option) \<Rightarrow> int \<Rightarrow> 't \<Rightarrow> bool" where
  "tracked G c T \<longleftrightarrow> (\<forall>k t. G k = Some t \<longrightarrow> holds T k = Some t \<or> t + ttl < c)"

lemma acquire_cases:
  assumes "acquire n1 n2 k T = (b, T')"
  shows "b \<and> T' = T \<and> (\<exists>t. holds T k = Some t \<and> n1 \<le> t + ttl) \<or>
    \<not> b \<and> holds T' = (holds T)(k \<mapsto> n2) \<and> (\<forall>t. holds T k = Some t \<longrightarrow> t + ttl < n1)"
proof (cases "\<exists>t. holds T k = Some t \<and> n1 \<le> t + ttl")
  case True
  with acquire_live assms show ?thesis by fastforce
next
  case False
  then have free: "\<And>t. holds T k = Some t \<Longrightarrow> t + ttl < n1" by force
  with acquire_free [of T k n1 n2] assms show ?thesis by auto
qed

lemma acquire_gap:
  assumes "tracked G c T" and "G k = Some t" and "c \<le> n1"
    and "acquire n1 n2 k T = (False, T')"
  shows "t + ttl < n1"
  using acquire_cases [OF assms(4)] assms(1-3) by (fastforce simp: tracked_def)

lemma tracked_acquire:
  assumes "tracked G c T" and "c \<le> n1" and "n1 \<le> n2" and "acquire n1 n2 k T = (b, T')"
  shows "tracked (if b then G else G(k \<mapsto> n2)) n2 T'"
  using acquire_cases [OF assms(4)] assms(1-3) by (fastforce simp: tracked_def)

lemma tracked_release: "tracked G c T \<Longrightarrow> tracked (G(k := None)) c (release k T)"
  by (simp add: tracked_def release_holds)

lemma tracked_sweep: "tracked G c T \<Longrightarrow> c \<le> n \<Longrightarrow> tracked G n (sweep n T)"
  by (fastforce simp: tracked_def sweep_holds)

text \<open>A sweep changes no answer: it only forgets leases that no longer refuse anything.\<close>

lemma acquire_after_sweep:
  assumes "n \<le> n1" and "acquire n1 n2 k T = (b, T')" and "acquire n1 n2 k (sweep n T) = (b', T'')"
  shows "b' = b \<and> holds T'' k = holds T' k"
  using acquire_cases [OF assms(2)] acquire_cases [OF assms(3)] assms(1)
  by (auto simp: sweep_holds split: option.splits if_splits)

end

text \<open>\<open>-d\<close> is the negation of \<open>d\<close> except for the most negative duration.\<close>

lemma sint_minus_pos: "0 \<le> sint (d :: duration) \<Longrightarrow> sint (- d) = - sint d"
proof -
  assume "0 \<le> sint d"
  then have "- (2 ^ 63) \<le> - sint d" "- sint d < 2 ^ 63" using i64_bounds [of d] by auto
  then have "sint (word_of_int (- sint d) :: i64) = - sint d" by (rule sint_of_int_small)
  then show ?thesis by simp
qed

lemma pendingLive_iff:
  "0 \<le> sint expiration \<Longrightarrow> pendingLive expiration now t \<longleftrightarrow> now \<le> t + sint expiration"
  by (auto simp: pendingLive_def sint_minus_pos)

definition pendSweep :: "duration \<Rightarrow> int \<Rightarrow> pendingTable \<Rightarrow> pendingTable" where
  "pendSweep expiration now T = sweepTable (now + sint (- expiration)) T"

definition pendDrop :: "nodeID \<Rightarrow> pendingTable \<Rightarrow> pendingTable" where
  "pendDrop node T = T(node := None)"

text \<open>The expiration as the code uses it: \<open>-d\<close> computed on 64 bits.\<close>

definition leaseTime :: "duration \<Rightarrow> int" where
  "leaseTime d = - sint (- d)"

lemma leaseTime_pos: "0 \<le> sint d \<Longrightarrow> leaseTime d = sint d"
  by (simp add: leaseTime_def sint_minus_pos)

interpretation pending: lease_table "leaseTime d" "pendRequest d" pendDrop "pendSweep d" "\<lambda>T. T"
  for d :: duration
  by unfold_locales
    (auto simp: pendRequest_def pendingLive_def pendDrop_def pendSweep_def sweepTable_def leaseTime_def
      split: option.splits)

section \<open>Interleavings\<close>

text \<open>
  The atomic steps, newest first: a request with its answer and its two clock readings, a channel
  opening, a sweep. \<open>pend_run d h c T\<close>: after the history \<open>h\<close> the clock has reached \<open>c\<close> and the table
  is \<open>T\<close>.
\<close>

datatype pendOp = PendRequest nodeID bool int int | PendOpened nodeID | PendSwept int

inductive pend_run :: "duration \<Rightarrow> pendOp list \<Rightarrow> int \<Rightarrow> pendingTable \<Rightarrow> bool" for d where
  pend_init: "pend_run d [] c Map.empty"
| pend_request: "pend_run d h c T \<Longrightarrow> c \<le> n1 \<Longrightarrow> n1 \<le> n2 \<Longrightarrow>
    pendRequest d n1 n2 node T = (refused, T') \<Longrightarrow>
    pend_run d (PendRequest node (\<not> refused) n1 n2 # h) n2 T'"
| pend_opened: "pend_run d h c T \<Longrightarrow> pend_run d (PendOpened node # h) c (pendDrop node T)"
| pend_swept: "pend_run d h c T \<Longrightarrow> c \<le> n \<Longrightarrow> pend_run d (PendSwept n # h) n (pendSweep d n T)"

inductive_cases pend_run_requestE: "pend_run d (PendRequest node g n1 n2 # h) c T"
inductive_cases pend_run_ConsE: "pend_run d (x # h) c T"

text \<open>The time of the last granted request of a node that no opening has ended.\<close>

fun lastGrant :: "nodeID \<Rightarrow> pendOp list \<Rightarrow> int option" where
  "lastGrant k [] = None"
| "lastGrant k (PendRequest k' g n1 n2 # h) = (if k' = k \<and> g then Some n2 else lastGrant k h)"
| "lastGrant k (PendOpened k' # h) = (if k' = k then None else lastGrant k h)"
| "lastGrant k (PendSwept n # h) = lastGrant k h"

lemma pend_run_tracked: "pend_run d h c T \<Longrightarrow> pending.tracked d (\<lambda>k. lastGrant k h) c T"
proof (induction rule: pend_run.induct)
  case (pend_init c)
  show ?case by (simp add: pending.tracked_def)
next
  case (pend_request h c T n1 n2 node refused T')
  have "(\<lambda>k. lastGrant k (PendRequest node (\<not> refused) n1 n2 # h)) =
      (if refused then (\<lambda>k. lastGrant k h) else (\<lambda>k. lastGrant k h)(node \<mapsto> n2))"
    by (auto simp: fun_eq_iff)
  with pending.tracked_acquire [OF pend_request.IH pend_request.hyps(2-4)] show ?case by simp
next
  case (pend_opened h c T node)
  have "(\<lambda>k. lastGrant k (PendOpened node # h)) = (\<lambda>k. lastGrant k h)(node := None)"
    by (auto simp: fun_eq_iff)
  with pending.tracked_release [OF pend_opened.IH] show ?case by simp
next
  case (pend_swept h c T n)
  with pending.tracked_sweep show ?case by simp
qed

lemma lastGrant_after:
  assumes "pend_run d (h @ PendRequest k True m1 m2 # h') c T" and "PendOpened k \<notin> set h"
  shows "\<exists>t. lastGrant k (h @ PendRequest k True m1 m2 # h') = Some t \<and> m2 \<le> t \<and> t \<le> c"
  using assms
proof (induction h arbitrary: c T)
  case Nil
  then show ?case by (auto elim: pend_run_requestE)
next
  case (Cons x h)
  from Cons.prems(1) obtain c1 T1 where r: "pend_run d (h @ PendRequest k True m1 m2 # h') c1 T1"
    and c1: "c1 \<le> c" and x: "\<And>g n1 n2. x = PendRequest k g n1 n2 \<Longrightarrow> c1 \<le> n2 \<and> n2 = c"
    by (auto elim!: pend_run_ConsE)
  from Cons.IH [OF r] Cons.prems(2) obtain t where
    "lastGrant k (h @ PendRequest k True m1 m2 # h') = Some t" "m2 \<le> t" "t \<le> c1" by auto
  with c1 x Cons.prems(2) show ?case by (cases x) auto
qed

section \<open>The code runs these steps\<close>

text \<open>A clock whose readings do not go back (Go's monotonic clock).\<close>

definition steadyClock :: "'w env \<Rightarrow> bool" where
  "steadyClock E \<longleftrightarrow> (\<forall>w. fst (e_Now E w) \<le> fst (e_Now E (snd (e_Now E w))))"

text \<open>
  C17. A request is one step of the interleaving: whatever requests, openings and sweeps came
  before, \<open>hasPendingCreateChanReqs\<close> extends the run by its own answer, at the time it reads.
\<close>

theorem hasPending_refines:
  assumes "pend_run (InvoiceExpiration cfg) h c (pendingChans s)"
    and "c \<le> fst (e_Now E (world s))" and "steadyClock E"
    and "hasPendingCreateChanReqs E cfg node s = (b, t)"
  shows "\<exists>n1 n2. pend_run (InvoiceExpiration cfg) (PendRequest node (\<not> b) n1 n2 # h) n2 (pendingChans t) \<and>
     n1 = fst (e_Now E (world s)) \<and> n1 \<le> n2"
proof -
  let ?n1 = "fst (e_Now E (world s))"
  let ?n2 = "fst (e_Now E (snd (e_Now E (world s))))"
  have "?n1 \<le> ?n2" using assms(3) by (simp add: steadyClock_def)
  moreover have "pendRequest (InvoiceExpiration cfg) ?n1 ?n1 node (pendingChans s) = (b, pendingChans t) \<or>
      pendRequest (InvoiceExpiration cfg) ?n1 ?n2 node (pendingChans s) = (b, pendingChans t)"
    using assms(4)
    by (auto simp: hasPendingCreateChanReqs_def trackPending_def pendRequest_def ask_def
        split: prod.splits if_splits option.splits)
  ultimately show ?thesis using pend_run.pend_request [OF assms(1,2)] by (metis order_refl)
qed

theorem hasPending_refines_witness:
  "\<exists>n1 n2. pend_run (InvoiceExpiration sampleCfg) [PendRequest sampleNode True n1 n2] n2
     (pendingChans (snd (hasPendingCreateChanReqs sampleEnv sampleCfg sampleNode sampleState)))"
proof -
  have run: "pend_run (InvoiceExpiration sampleCfg) [] 0 (pendingChans sampleState)"
    using pend_run.pend_init by (simp add: sampleState_def)
  have now: "(0 :: int) \<le> fst (e_Now sampleEnv (world sampleState))" by (simp add: sample_defs)
  have clk: "steadyClock sampleEnv" by (simp add: steadyClock_def sampleEnv_def)
  obtain b t where r: "hasPendingCreateChanReqs sampleEnv sampleCfg sampleNode sampleState = (b, t)" by force
  then have "\<not> b" by (simp add: hasPendingCreateChanReqs_def trackPending_def ask_def sample_defs)
  with hasPending_refines [OF run now clk r] r show ?thesis by auto
qed

text \<open>
  C16. Two admitted requests for the same node are more than the invoice expiration apart, unless a
  channel to the node opened in between: no node can hold two unexpired invoices.
\<close>

theorem grants_apart:
  assumes "pend_run d (PendRequest k True n1 n2 # h @ PendRequest k True m1 m2 # h') c T"
    and "PendOpened k \<notin> set h" and "0 \<le> sint d"
  shows "m2 + sint d < n1"
proof -
  from assms(1) obtain c1 T1 T2 where r: "pend_run d (h @ PendRequest k True m1 m2 # h') c1 T1"
    and c1: "c1 \<le> n1" and g: "pendRequest d n1 n2 k T1 = (False, T2)"
    by (auto elim: pend_run_requestE)
  from lastGrant_after [OF r assms(2)] obtain t where
    t: "lastGrant k (h @ PendRequest k True m1 m2 # h') = Some t" "m2 \<le> t" by blast
  from pending.acquire_gap [OF pend_run_tracked [OF r] t(1) c1 g] t(2) assms(3)
  show ?thesis by (simp add: leaseTime_pos)
qed

theorem grants_apart_witness: "(0 :: int) + sint (10 :: duration) < 20"
proof -
  let ?k = "[1] :: nodeID"
  have a: "pend_run 10 ([] @ PendRequest ?k True 0 0 # []) 0 [?k \<mapsto> 0]"
    using pend_run.pend_request [OF pend_run.pend_init, of 0 0 0 10 ?k False] by (simp add: pendRequest_def)
  have "pendRequest 10 20 20 ?k [?k \<mapsto> 0] = (False, [?k \<mapsto> 20])"
    by (simp add: pendRequest_def pendingLive_def)
  with pend_run.pend_request [OF a, of 20 20 ?k False]
  have "pend_run 10 (PendRequest ?k True 20 20 # [] @ PendRequest ?k True 0 0 # []) 20 [?k \<mapsto> 20]" by simp
  from grants_apart [OF this] show ?thesis by simp
qed

text \<open>
  The cleanup goroutine cannot be observed: a sweep at or before a request changes neither its
  answer nor the entry it leaves.
\<close>

lemma sweep_invisible:
  assumes "n \<le> n1"
  shows "fst (pendRequest d n1 n2 k (pendSweep d n T)) = fst (pendRequest d n1 n2 k T) \<and>
     snd (pendRequest d n1 n2 k (pendSweep d n T)) k = snd (pendRequest d n1 n2 k T) k"
  by (rule pending.acquire_after_sweep [OF assms surjective_pairing surjective_pairing])

lemma sweep_invisible_witness:
  "fst (pendRequest 10 25 26 [1] (pendSweep 10 20 [[1] \<mapsto> 5])) = fst (pendRequest 10 25 26 [1] [[1] \<mapsto> 5])"
  using sweep_invisible [of 20 25 10 26 "[1]" "[[1] \<mapsto> 5]"] by simp

end
