(* ===== verification/Create_Invoice.thy ===== *)
theory Create_Invoice
  imports Invoice_Store Pending_Table Sample_World
begin

text \<open>
  The request side of the server: the channel creation policy and \<open>CreateInvoice\<close> of
  \<open>server/server.go\<close>, with the three queries of \<open>server/dcrlnd.go\<close> they use. Each function
  threads the state through its calls in the order of the code, and every early return is a branch.
\<close>

section \<open>Queries\<close>

text \<open>The peers are matched by the hexadecimal form of the node id; a failed call counts as "no".\<close>

definition isConnectedToNode :: "'w env \<Rightarrow> nodeID \<Rightarrow> 'w sys \<Rightarrow> bool \<times> 'w sys" where
  "isConnectedToNode E node s = (case rpc (e_ListPeers E) s of
      (Ok peers, s1) \<Rightarrow> (nodeString node \<in> set peers, s1)
    | (_, s1) \<Rightarrow> (False, s1))"

definition hasMaxPendingChannels :: "'w env \<Rightarrow> config \<Rightarrow> 'w sys \<Rightarrow> bool \<times> 'w sys" where
  "hasMaxPendingChannels E cfg s = (case rpc (e_PendingChannels E) s of
      (Ok chans, s1) \<Rightarrow> (MaxPendingChans cfg \<le> of_nat (length (PendingOpenChannels chans)), s1)
    | (_, s1) \<Rightarrow> (True, s1))"

text \<open>The summation loop, with its early exit and its 64-bit sum.\<close>

fun sumExceeds :: "u64 \<Rightarrow> u64 \<Rightarrow> i64 list \<Rightarrow> bool" where
  "sumExceeds acc chanSize [] = False"
| "sumExceeds acc chanSize (amt # utxos) =
     (let acc' = acc + amt in if chanSize < acc' then True else sumExceeds acc' chanSize utxos)"

definition hasUnspentForNewChannel :: "'w env \<Rightarrow> u64 \<Rightarrow> 'w sys \<Rightarrow> bool \<times> 'w sys" where
  "hasUnspentForNewChannel E chanSize s = (case rpc (e_ListUnspent E) s of
      (Ok utxos, s1) \<Rightarrow> (sumExceeds 0 chanSize utxos, s1)
    | (_, s1) \<Rightarrow> (False, s1))"

lemma query_quiet:
  "isConnectedToNode E node s = (b, t) \<Longrightarrow> quiet s t"
  "hasMaxPendingChannels E cfg s = (b, t) \<Longrightarrow> quiet s t"
  "hasUnspentForNewChannel E n s = (b, t) \<Longrightarrow> quiet s t"
  by (auto simp: isConnectedToNode_def hasMaxPendingChannels_def hasUnspentForNewChannel_def
      split: prod.splits res.splits dest: quiet_rpc)

subsection \<open>The loop over the outputs\<close>

text \<open>
  With a total below \<open>2^64\<close> (amounts read unsigned, as the conversion does) the loop compares the
  total: stopping early and skipping outputs never change the answer.
\<close>

lemma sumExceeds_total:
  assumes "unat s + sum_list (map unat us) < 2 ^ 64"
    and "s \<le> c"
  shows "sumExceeds s c us \<longleftrightarrow> unat c < unat s + sum_list (map unat us)"
  using assms
proof (induction us arbitrary: s)
  case Nil
  then show ?case by (simp add: word_le_nat_alt)
next
  case (Cons a us)
  have sum: "unat (s + a) = unat s + unat a"
    using Cons.prems(1) by (simp add: unat_word_ariths)
  show ?case
  proof (cases "c < s + a")
    case True
    then show ?thesis using sum by (simp add: word_less_nat_alt)
  next
    case False
    have "sumExceeds (s + a) c us \<longleftrightarrow> unat c < unat (s + a) + sum_list (map unat us)"
      by (rule Cons.IH) (use False Cons.prems sum in \<open>auto simp: not_less\<close>)
    with False show ?thesis unfolding sum by (simp add: Let_def add.assoc)
  qed
qed

section \<open>The price\<close>

definition amountForNewChan :: "'w env \<Rightarrow> config \<Rightarrow> u64 \<Rightarrow> u64" where
  "amountForNewChan E cfg chanSize =
     f64_to_u64 (e_u64_oor E) (f64_mul (f64_of_u64 chanSize) (ChanInvoiceFeeRate cfg))"

section \<open>The policy\<close>

definition canCreateChannel :: "'w env \<Rightarrow> config \<Rightarrow> waitingInvoice \<Rightarrow> 'w sys \<Rightarrow> unit res \<times> 'w sys" where
  "canCreateChannel E cfg wv s =
     (if ChannelSize wv < MinChanSize cfg then (Err ErrTooSmallChan, s)
      else if MaxChanSize cfg < ChannelSize wv then (Err ErrTooLargeChan, s)
      else if nodeString (TargetNode wv) \<in> IgnoreNodes cfg then (Err ErrIgnoredNode, s)
      else bindR (rpc (e_ListChannels E (Some (TargetNode wv))) s) (\<lambda>chans s1.
        if MaxNbChannels cfg \<le> of_nat (length chans) then (Err ErrTooManyOpenChans, s1)
        else (Ok (), s1)))"

text \<open>The checks of \<open>CreateInvoice\<close>, up to and including the reservation of the node.\<close>

definition admit :: "'w env \<Rightarrow> config \<Rightarrow> waitingInvoice \<Rightarrow> 'w sys \<Rightarrow> unit res \<times> 'w sys" where
  "admit E cfg winv s =
     bindR (canCreateChannel E cfg winv s) (\<lambda>_ s1.
       requireR ErrPeerUnconnected (isConnectedToNode E (TargetNode winv) s1) (\<lambda>s2.
       requireR ErrNotEnoughUtxos (hasUnspentForNewChannel E (ChannelSize winv) s2) (\<lambda>s3.
       refuseR ErrTooManyPendingChans (hasMaxPendingChannels E cfg s3) (\<lambda>s4.
       refuseR ErrHasPendingOpenChan (hasPendingCreateChanReqs E cfg (TargetNode winv) s4) (\<lambda>s5.
       (Ok (), s5))))))"

definition invoiceMemo :: "nodeID \<Rightarrow> u64 \<Rightarrow> string" where
  "invoiceMemo node chanSize = ''LP of '' @ fmt_u64 chanSize @ '' for '' @ nodeString node"

definition invoiceExpiry :: "'w env \<Rightarrow> config \<Rightarrow> i64" where
  "invoiceExpiry E cfg = f64_to_i64 (e_i64_oor E) (duration_Seconds (InvoiceExpiration cfg))"

text \<open>The rest of \<open>CreateInvoice\<close>: the invoice and the file, for an admitted request.\<close>

definition issueInvoice :: "'w env \<Rightarrow> config \<Rightarrow> waitingInvoice \<Rightarrow> 'w sys \<Rightarrow> string res \<times> 'w sys" where
  "issueInvoice E cfg invRecord s =
     (let memo = invoiceMemo (TargetNode invRecord) (ChannelSize invRecord);
          amount = amountForNewChan E cfg (ChannelSize invRecord);
          expiry = invoiceExpiry E cfg
      in bindR (rpc (e_AddInvoice E memo amount expiry) (emit (EvAddInvoice memo amount expiry) s))
           (\<lambda>(rhash, payreq) s1.
              bindR (writeJsonFile E (invoicePath cfg rhash) invRecord s1) (\<lambda>_ s2. (Ok payreq, s2))))"

definition CreateInvoice :: "'w env \<Rightarrow> config \<Rightarrow> nodeID \<Rightarrow> u64 \<Rightarrow> 'w sys \<Rightarrow> string res \<times> 'w sys" where
  "CreateInvoice E cfg node chanSize s =
     (let invRecord = \<lparr>TargetNode = node, ChannelSize = chanSize\<rparr> in
      bindR (admit E cfg invRecord s) (\<lambda>_ s1. issueInvoice E cfg invRecord s1))"

section \<open>The policy on every branch\<close>

lemma canCreateChannel_quiet: "canCreateChannel E cfg wv s = (r, t) \<Longrightarrow> quiet s t"
  by (cases "rpc (e_ListChannels E (Some (TargetNode wv))) s" rule: prod.exhaust)
    (rename_tac r' s', case_tac r',
     auto simp: canCreateChannel_def split: if_splits dest: quiet_rpc)

lemma canCreateChannel_not_Panic: "canCreateChannel E cfg wv s \<noteq> (Panic m, t)"
  by (auto simp: canCreateChannel_def bindR_iffs split: if_splits dest: rpc_not_Panic)

text \<open>What an admitted channel satisfies, at the time of the check.\<close>

lemma canCreateChannel_Ok:
  "canCreateChannel E cfg wv s = (Ok (), t) \<longleftrightarrow>
     MinChanSize cfg \<le> ChannelSize wv \<and> ChannelSize wv \<le> MaxChanSize cfg \<and>
     nodeString (TargetNode wv) \<notin> IgnoreNodes cfg \<and>
     (\<exists>chans. rpc (e_ListChannels E (Some (TargetNode wv))) s = (Ok chans, t) \<and>
        of_nat (length chans) < MaxNbChannels cfg)"
  by (auto simp: canCreateChannel_def bindR_iffs not_le not_less split: if_splits)

lemma canCreateChannel_Err:
  "canCreateChannel E cfg wv s = (Err e, t) \<Longrightarrow>
     e \<in> {ErrTooSmallChan, ErrTooLargeChan, ErrIgnoredNode, ErrTooManyOpenChans} \<or> (\<exists>m. e = ErrRpc m)"
  by (auto simp: canCreateChannel_def bindR_iffs split: if_splits dest: rpc_Err)

section \<open>Admission\<close>

text \<open>The state after each of the checks, for a request that passes all of them.\<close>

lemma admit_Ok:
  "admit E cfg winv s = (Ok (), t) \<longleftrightarrow>
     (\<exists>s1 s2 s3 s4. canCreateChannel E cfg winv s = (Ok (), s1) \<and>
        isConnectedToNode E (TargetNode winv) s1 = (True, s2) \<and>
        hasUnspentForNewChannel E (ChannelSize winv) s2 = (True, s3) \<and>
        hasMaxPendingChannels E cfg s3 = (False, s4) \<and>
        hasPendingCreateChanReqs E cfg (TargetNode winv) s4 = (False, t))"
  by (auto simp: admit_def bindR_iffs)

lemma admit_not_Panic: "admit E cfg winv s \<noteq> (Panic m, t)"
  by (auto simp: admit_def bindR_iffs canCreateChannel_not_Panic split: prod.splits if_splits)

text \<open>A rejected request changes nothing.\<close>

lemmas check_quiet = canCreateChannel_quiet query_quiet hasPending_refused_quiet

lemma admit_Err_quiet: "admit E cfg winv s = (Err e, t) \<Longrightarrow> quiet s t"
  unfolding admit_def bindR_iffs
  by (elim disjE exE conjE; simp add: quiet_def) (auto dest!: check_quiet simp: quiet_def)

lemma admit_frame: "admit E cfg winv s = (r, t) \<Longrightarrow>
    files t = files s \<and> tasks t = tasks s \<and> events t = events s"
proof (cases r)
  case (Ok u)
  assume "admit E cfg winv s = (r, t)"
  with Ok obtain s1 s2 s3 s4 where
    *: "canCreateChannel E cfg winv s = (Ok (), s1)"
    "isConnectedToNode E (TargetNode winv) s1 = (True, s2)"
    "hasUnspentForNewChannel E (ChannelSize winv) s2 = (True, s3)"
    "hasMaxPendingChannels E cfg s3 = (False, s4)"
    "hasPendingCreateChanReqs E cfg (TargetNode winv) s4 = (False, t)"
    by (auto simp: admit_Ok)
  from canCreateChannel_quiet [OF *(1)] query_quiet(1) [OF *(2)] query_quiet(3) [OF *(3)]
    query_quiet(2) [OF *(4)] hasPending_frame [OF *(5)]
  show ?thesis by (simp add: quiet_def)
qed (auto dest: admit_Err_quiet simp: admit_not_Panic quiet_def)

text \<open>An admitted node is in the table afterwards.\<close>

lemma hasPending_granted:
  "hasPendingCreateChanReqs E cfg node s = (False, t) \<Longrightarrow>
     \<exists>now. pendingChans t = (pendingChans s)(node \<mapsto> now)"
  by (auto simp: hasPendingCreateChanReqs_def trackPending_def ask_def split: option.splits prod.splits if_splits)

lemma admit_Ok_reserves:
  assumes "admit E cfg winv s = (Ok (), t)"
  shows "\<exists>now. pendingChans t = (pendingChans s)(TargetNode winv \<mapsto> now)"
proof -
  from assms obtain s1 s2 s3 s4 where
    *: "canCreateChannel E cfg winv s = (Ok (), s1)"
    "isConnectedToNode E (TargetNode winv) s1 = (True, s2)"
    "hasUnspentForNewChannel E (ChannelSize winv) s2 = (True, s3)"
    "hasMaxPendingChannels E cfg s3 = (False, s4)"
    "hasPendingCreateChanReqs E cfg (TargetNode winv) s4 = (False, t)"
    by (auto simp: admit_Ok)
  from canCreateChannel_quiet [OF *(1)] query_quiet(1) [OF *(2)] query_quiet(3) [OF *(3)]
    query_quiet(2) [OF *(4)]
  have "pendingChans s4 = pendingChans s" by (simp add: quiet_def)
  with hasPending_granted [OF *(5)] show ?thesis by simp
qed

section \<open>Issuing the invoice\<close>

text \<open>The event of the invoice that a record asks for.\<close>

definition addInvoiceEv :: "'w env \<Rightarrow> config \<Rightarrow> waitingInvoice \<Rightarrow> event" where
  "addInvoiceEv E cfg w = EvAddInvoice (invoiceMemo (TargetNode w) (ChannelSize w))
     (amountForNewChan E cfg (ChannelSize w)) (invoiceExpiry E cfg)"

lemma issueInvoice_cases:
  assumes "issueInvoice E cfg w s = (r, t)"
  obtains (issued) p rhash where "r = Ok p" "files t = (files s)(invoicePath cfg rhash \<mapsto> encodeWaitingInvoice w)"
      "events t = events s @ [addInvoiceEv E cfg w, EvStored (invoicePath cfg rhash) w]"
      "pendingChans t = pendingChans s" "tasks t = tasks s"
  | (failed) e where "r = Err e" "files t = files s"
      "events t = events s @ [addInvoiceEv E cfg w]" "pendingChans t = pendingChans s" "tasks t = tasks s"
  | (partial) e rhash part where "r = Err e" "files t = (files s)(invoicePath cfg rhash \<mapsto> part)"
      "events t = events s @ [addInvoiceEv E cfg w, EvPartial (invoicePath cfg rhash)]"
      "pendingChans t = pendingChans s" "tasks t = tasks s"
      "\<exists>m w0 w1. e_Write E (invoicePath cfg rhash) (encodeWaitingInvoice w) w0 = (Some (m, part), w1)"
proof -
  let ?f = "e_AddInvoice E (invoiceMemo (TargetNode w) (ChannelSize w))
     (amountForNewChan E cfg (ChannelSize w)) (invoiceExpiry E cfg)"
  let ?s0 = "emit (addInvoiceEv E cfg w) s"
  obtain r1 s1 where call: "rpc ?f ?s0 = (r1, s1)" by force
  then have q: "quiet ?s0 s1" by (rule quiet_rpc)
  show thesis
  proof (cases r1)
    case (Ok x)
    obtain rhash payreq where x: "x = (rhash, payreq)" by force
    obtain r2 s2 where wr: "writeJsonFile E (invoicePath cfg rhash) w s1 = (r2, s2)" by force
    have rt: "(r, t) = bindR (r2, s2) (\<lambda>_ s. (Ok payreq, s))"
      using assms call wr by (simp add: issueInvoice_def addInvoiceEv_def Let_def Ok x)
    from wr show thesis
    proof (cases rule: writeJsonFile_cases)
      case stored
      with rt q show thesis by (intro issued) (auto simp: quiet_def emit_def)
    next
      case (untouched e)
      with rt q show thesis by (intro failed) (auto simp: quiet_def emit_def)
    next
      case (partial e part)
      with rt q show thesis by (intro that(3)) (auto simp: quiet_def emit_def)
    qed
  next
    case (Err e)
    with assms call q show thesis
      by (intro failed) (auto simp: issueInvoice_def addInvoiceEv_def Let_def quiet_def emit_def)
  next
    case (Panic m)
    with call rpc_not_Panic show thesis by blast
  qed
qed

text \<open>What stage a failed request failed at.\<close>

lemma CreateInvoice_Ok_iff:
  "CreateInvoice E cfg node n s = (Ok p, t) \<longleftrightarrow>
    (\<exists>s1. admit E cfg \<lparr>TargetNode = node, ChannelSize = n\<rparr> s = (Ok (), s1) \<and>
      issueInvoice E cfg \<lparr>TargetNode = node, ChannelSize = n\<rparr> s1 = (Ok p, t))"
  by (auto simp: CreateInvoice_def Let_def bindR_iffs)

lemma CreateInvoice_Err_iff:
  "CreateInvoice E cfg node n s = (Err e, t) \<longleftrightarrow>
    admit E cfg \<lparr>TargetNode = node, ChannelSize = n\<rparr> s = (Err e, t) \<or>
    (\<exists>s1. admit E cfg \<lparr>TargetNode = node, ChannelSize = n\<rparr> s = (Ok (), s1) \<and>
      issueInvoice E cfg \<lparr>TargetNode = node, ChannelSize = n\<rparr> s1 = (Err e, t))"
  by (auto simp: CreateInvoice_def Let_def bindR_iffs)

lemma writeJsonFile_Err_other: "writeJsonFile E p d s = (Err e, t) \<Longrightarrow> \<exists>m. e = ErrOther m"
  by (auto simp: writeJsonFile_def ask_def split: prod.splits option.splits)

lemma writeJsonFile_not_Panic: "writeJsonFile E p d s \<noteq> (Panic m, t)"
  by (auto simp: writeJsonFile_def ask_def split: prod.splits option.splits)

lemma issueInvoice_not_Panic: "issueInvoice E cfg w s \<noteq> (Panic m, t)"
  by (auto simp: issueInvoice_def Let_def bindR_iffs writeJsonFile_not_Panic dest: rpc_not_Panic)

lemma CreateInvoice_not_Panic: "CreateInvoice E cfg node n s \<noteq> (Panic m, t)"
  by (auto simp: CreateInvoice_def Let_def bindR_iffs admit_not_Panic issueInvoice_not_Panic)

text \<open>A size is refused for itself exactly when it is out of bounds; this check comes first.\<close>

lemma CreateInvoice_size_refused:
  "fst (CreateInvoice E cfg node n s) \<in> {Err ErrTooSmallChan, Err ErrTooLargeChan} \<longleftrightarrow>
     n < MinChanSize cfg \<or> MaxChanSize cfg < n"
proof -
  let ?w = "\<lparr>TargetNode = node, ChannelSize = n\<rparr>"
  have no: "e \<noteq> ErrTooSmallChan \<and> e \<noteq> ErrTooLargeChan"
    if "CreateInvoice E cfg node n s = (Err e, t)" "\<not> (n < MinChanSize cfg \<or> MaxChanSize cfg < n)" for e t
    using that
    by (auto simp: CreateInvoice_Err_iff admit_def canCreateChannel_def bindR_iffs issueInvoice_def Let_def
        split: if_splits dest!: rpc_Err writeJsonFile_Err_other)
  obtain r t where c: "CreateInvoice E cfg node n s = (r, t)" by force
  have "n < MinChanSize cfg \<or> MaxChanSize cfg < n \<Longrightarrow> r = Err ErrTooSmallChan \<or> r = Err ErrTooLargeChan"
    using c by (auto simp: CreateInvoice_def Let_def admit_def canCreateChannel_def split: if_splits)
  with no c show ?thesis by (cases r) auto
qed

section \<open>The price of a channel\<close>

lemma f64_trunc_nonneg: "0 \<le> r \<Longrightarrow> f64_trunc r = \<lfloor>r\<rfloor>"
  by (simp add: f64_trunc_def)

lemma u64_of_floor:
  assumes "0 \<le> r" and "r < 2 ^ 64"
  shows "uint (f64_to_u64 oor (Fin r)) = \<lfloor>r\<rfloor>"
proof -
  have "0 \<le> \<lfloor>r\<rfloor>" "\<lfloor>r\<rfloor> < 2 ^ 64" using assms by (simp_all add: floor_less_iff)
  then show ?thesis using assms
    by (simp add: f64_to_u64_def f64_trunc_nonneg uint_word_of_int)
qed

text \<open>Sizes up to \<open>2^53\<close> atoms (the whole supply of the coin is below \<open>2^51\<close>) convert exactly.\<close>

lemma amount_value_at:
  assumes "ChanInvoiceFeeRate cfg = Fin r" and "0 \<le> r" and "uint n \<le> 2 ^ 53" and "of_int (uint n) * r \<le> 2 ^ 63"
  shows "uint (amountForNewChan E cfg n) = \<lfloor>rnd_rat (of_int (uint n) * r)\<rfloor>"
    and "rnd_rat (of_int (uint n) * r) \<le> 2 ^ 63"
proof -
  have n: "f64_of_u64 n = Fin (of_int (uint n))"
    using assms(3) by (simp add: f64_of_u64_def f64_of_int_exact)
  have lo: "0 \<le> of_int (uint n) * r" using assms by (intro mult_nonneg_nonneg) auto
  with assms(4) have ab: "\<bar>of_int (uint n) * r\<bar> \<le> 2 ^ 63" by simp
  have R: "\<bar>rnd_rat (of_int (uint n) * r)\<bar> \<le> 2 ^ 63" using ab by (rule rnd_rat_abs_le)
  then show "rnd_rat (of_int (uint n) * r) \<le> 2 ^ 63" by simp
  have "(2 :: rat) ^ 63 \<le> 2 ^ 1023" by simp
  with ab have "f64_mul (f64_of_u64 n) (ChanInvoiceFeeRate cfg) = Fin (rnd_rat (of_int (uint n) * r))"
    using n assms(1) by (simp add: rnd_bounded)
  moreover have "rnd_rat (of_int (uint n) * r) < 2 ^ 64" using R by simp
  ultimately show "uint (amountForNewChan E cfg n) = \<lfloor>rnd_rat (of_int (uint n) * r)\<rfloor>"
    unfolding amountForNewChan_def
    using u64_of_floor [OF rnd_rat_nonneg [OF lo], of "e_u64_oor E"] by simp
qed

lemma amount_mono:
  assumes "ChanInvoiceFeeRate cfg = Fin r" "0 \<le> r" "uint n' \<le> 2 ^ 53" "of_int (uint n') * r \<le> 2 ^ 63" "n \<le> n'"
  shows "amountForNewChan E cfg n \<le> amountForNewChan E cfg n'"
proof -
  have u: "uint n \<le> uint n'" using assms(5) by (simp add: word_le_def)
  then have le: "of_int (uint n) * r \<le> of_int (uint n') * r" using assms(2) by (simp add: mult_right_mono)
  then have "\<lfloor>rnd_rat (of_int (uint n) * r)\<rfloor> \<le> \<lfloor>rnd_rat (of_int (uint n') * r)\<rfloor>"
    by (intro floor_mono rnd_rat_mono)
  then show ?thesis using u le assms by (simp add: word_le_def amount_value_at(1))
qed

text \<open>The price is the exact product up to rounding of the product and truncation to atoms.\<close>

lemma amount_accuracy:
  assumes "ChanInvoiceFeeRate cfg = Fin r" "0 \<le> r" "uint n \<le> 2 ^ 53" "of_int (uint n) * r \<le> 2 ^ 52"
  shows "\<bar>of_int (uint (amountForNewChan E cfg n)) - of_int (uint n) * r\<bar> < 2"
    and "r \<le> 1 \<Longrightarrow> uint (amountForNewChan E cfg n) \<le> uint n"
proof -
  let ?x = "of_int (uint n) * r" and ?y = "rnd_rat (of_int (uint n) * r)"
  have v: "uint (amountForNewChan E cfg n) = \<lfloor>?y\<rfloor>"
    using assms by (intro amount_value_at(1)) auto
  have x0: "0 \<le> ?x" using assms by (intro mult_nonneg_nonneg) auto
  show "uint (amountForNewChan E cfg n) \<le> uint n" if "r \<le> 1"
  proof -
    have xn: "?x \<le> of_int (uint n)" using that mult_left_mono [of r 1 "of_int (uint n)"] by simp
    have "?y \<le> rnd_rat (of_int (uint n))" using xn by (rule rnd_rat_mono)
    then have yn: "?y \<le> of_int (uint n)" using assms(3) by (simp add: rnd_rat_int)
    then show ?thesis unfolding v by (simp add: floor_le_iff)
  qed
  have "\<bar>?y - ?x\<bar> \<le> 1 / 2"
  proof (cases "pow2 (- 1022) \<le> \<bar>?x\<bar>")
    case True
    from rnd_rat_rel_error [OF this] assms(4) x0 show ?thesis by simp
  next
    case False
    have "pow2 (- 1022) \<le> 1 / 2" by (simp add: power_int_minus)
    with False x0 have "?x \<le> 1 / 2" by simp
    moreover have "?y \<le> 1 / 2"
      using rnd_rat_mono [OF \<open>?x \<le> 1 / 2\<close>] rnd_rat_dyadic [of 1 "- 1" "1 / 2"] by (simp add: power_int_minus)
    ultimately show ?thesis using x0 rnd_rat_nonneg [OF x0] by linarith
  qed
  moreover have "of_int \<lfloor>?y\<rfloor> \<le> ?y" "?y < of_int \<lfloor>?y\<rfloor> + 1" by linarith+
  ultimately show "\<bar>of_int (uint (amountForNewChan E cfg n)) - ?x\<bar> < 2" unfolding v by linarith
qed

section \<open>A concrete request\<close>

lemma sample_price: "amountForNewChan E sampleCfg 1048576 = 65536"
proof -
  have r: "ChanInvoiceFeeRate sampleCfg = Fin (1 / 16)" by (simp add: sampleCfg_def)
  have "rnd_rat 65536 = (65536 :: rat)" using rnd_rat_int [of 65536] by simp
  then have "uint (amountForNewChan E sampleCfg 1048576) = uint (65536 :: u64)"
    using amount_value_at(1) [OF r, of 1048576 E] by simp
  then show ?thesis by (simp only: word_uint_eq_iff)
qed

lemma sample_admit:
  "admit sampleEnv sampleCfg sampleInvoice sampleState =
     (Ok (), sampleState\<lparr>world := 1, pendingChans := [sampleNode \<mapsto> 0]\<rparr>)"
  by (simp add: admit_def canCreateChannel_def isConnectedToNode_def hasUnspentForNewChannel_def
      hasMaxPendingChannels_def hasPendingCreateChanReqs_def trackPending_def rpc_def ask_def
      requireR_def refuseR_def sample_defs)

lemma sample_issue:
  "issueInvoice sampleEnv sampleCfg sampleInvoice s =
     (Ok ''payreq'', s\<lparr>files := (files s)(invoicePath sampleCfg [1, 2, 3] \<mapsto> encodeWaitingInvoice sampleInvoice),
        events := events s @ [addInvoiceEv sampleEnv sampleCfg sampleInvoice,
          EvStored (invoicePath sampleCfg [1, 2, 3]) sampleInvoice]\<rparr>)"
  by (simp add: issueInvoice_def addInvoiceEv_def rpc_def ask_def writeJsonFile_def emit_def Let_def sampleEnv_def)

lemma sample_CreateInvoice:
  "CreateInvoice sampleEnv sampleCfg sampleNode 1048576 sampleState =
     (Ok ''payreq'', sampleState\<lparr>world := 1, pendingChans := [sampleNode \<mapsto> 0],
        files := [invoicePath sampleCfg [1, 2, 3] \<mapsto> encodeWaitingInvoice sampleInvoice],
        events := [addInvoiceEv sampleEnv sampleCfg sampleInvoice,
          EvStored (invoicePath sampleCfg [1, 2, 3]) sampleInvoice]\<rparr>)"
  using sample_admit sample_issue
  by (simp add: CreateInvoice_def Let_def sampleInvoice_def sampleState_def)

section \<open>Properties\<close>

text \<open>The checks of an admitted request, one after the other, each with the answer it was decided by.\<close>

lemma admit_Ok_checks:
  assumes "admit E cfg \<lparr>TargetNode = node, ChannelSize = n\<rparr> s = (Ok (), t)"
  shows "MinChanSize cfg \<le> n \<and> n \<le> MaxChanSize cfg \<and> nodeString node \<notin> IgnoreNodes cfg \<and>
    (\<exists>chans s1 peers s2 utxos s3 pend s4.
       rpc (e_ListChannels E (Some node)) s = (Ok chans, s1) \<and> of_nat (length chans) < MaxNbChannels cfg \<and>
       rpc (e_ListPeers E) s1 = (Ok peers, s2) \<and> nodeString node \<in> set peers \<and>
       rpc (e_ListUnspent E) s2 = (Ok utxos, s3) \<and>
       (sum_list (map unat utxos) < 2 ^ 64 \<longrightarrow> unat n < sum_list (map unat utxos)) \<and>
       rpc (e_PendingChannels E) s3 = (Ok pend, s4) \<and>
       of_nat (length (PendingOpenChannels pend)) < MaxPendingChans cfg \<and>
       (\<forall>t0. pendingChans s node = Some t0 \<longrightarrow>
          t0 < fst (ask (e_Now E) s4) + sint (- InvoiceExpiration cfg)))"
proof -
  from assms obtain s1 s2 s3 s4 where
    *: "canCreateChannel E cfg \<lparr>TargetNode = node, ChannelSize = n\<rparr> s = (Ok (), s1)"
    "isConnectedToNode E node s1 = (True, s2)" "hasUnspentForNewChannel E n s2 = (True, s3)"
    "hasMaxPendingChannels E cfg s3 = (False, s4)" "hasPendingCreateChanReqs E cfg node s4 = (False, t)"
    by (auto simp: admit_Ok)
  from *(1) obtain chans where c: "rpc (e_ListChannels E (Some node)) s = (Ok chans, s1)"
    "of_nat (length chans) < MaxNbChannels cfg" "MinChanSize cfg \<le> n" "n \<le> MaxChanSize cfg"
    "nodeString node \<notin> IgnoreNodes cfg"
    by (auto simp: canCreateChannel_Ok)
  from *(2) obtain peers where "rpc (e_ListPeers E) s1 = (Ok peers, s2)" "nodeString node \<in> set peers"
    by (auto simp: isConnectedToNode_def split: prod.splits res.splits)
  moreover from *(3) obtain utxos where "rpc (e_ListUnspent E) s2 = (Ok utxos, s3)" "sumExceeds 0 n utxos"
    by (auto simp: hasUnspentForNewChannel_def split: prod.splits res.splits)
  moreover from *(4) obtain pend where "rpc (e_PendingChannels E) s3 = (Ok pend, s4)"
    "of_nat (length (PendingOpenChannels pend)) < MaxPendingChans cfg"
    by (auto simp: hasMaxPendingChannels_def not_le split: prod.splits res.splits)
  moreover have "pendingChans s4 = pendingChans s"
    using canCreateChannel_quiet [OF *(1)] query_quiet(1) [OF *(2)] query_quiet(3) [OF *(3)] query_quiet(2) [OF *(4)]
    by (simp add: quiet_def)
  moreover have "pendingChans s4 node = Some t0 \<Longrightarrow> t0 < fst (ask (e_Now E) s4) + sint (- InvoiceExpiration cfg)" for t0
    using *(5) by (auto simp: hasPendingCreateChanReqs_def pendingLive_def split: prod.splits if_splits)
  ultimately show ?thesis using c sumExceeds_total [of 0 utxos n] by auto
qed

lemma issueInvoice_Ok:
  assumes "issueInvoice E cfg w s = (Ok payreq, t)"
  shows "\<exists>rhash s1. rpc (e_AddInvoice E (invoiceMemo (TargetNode w) (ChannelSize w))
        (amountForNewChan E cfg (ChannelSize w)) (invoiceExpiry E cfg)) (emit (addInvoiceEv E cfg w) s) = (Ok (rhash, payreq), s1) \<and>
      events t = events s @ [addInvoiceEv E cfg w, EvStored (invoicePath cfg rhash) w] \<and>
      files t = (files s)(invoicePath cfg rhash \<mapsto> encodeWaitingInvoice w)"
proof -
  from assms obtain rhash s1 s2 where call: "rpc (e_AddInvoice E (invoiceMemo (TargetNode w) (ChannelSize w))
        (amountForNewChan E cfg (ChannelSize w)) (invoiceExpiry E cfg)) (emit (addInvoiceEv E cfg w) s) = (Ok (rhash, payreq), s1)"
    and wr: "writeJsonFile E (invoicePath cfg rhash) w s1 = (Ok (), t)"
    by (auto simp: issueInvoice_def addInvoiceEv_def Let_def bindR_iffs)
  from quiet_rpc [OF call] have q: "events s1 = events s @ [addInvoiceEv E cfg w]" "files s1 = files s"
    by (simp_all add: quiet_def emit_def)
  from wr have "events t = events s1 @ [EvStored (invoicePath cfg rhash) w]"
    "files t = (files s1)(invoicePath cfg rhash \<mapsto> encodeWaitingInvoice w)"
    by (cases rule: writeJsonFile_cases; simp)+
  with q have "events t = events s @ [addInvoiceEv E cfg w, EvStored (invoicePath cfg rhash) w]"
    "files t = (files s)(invoicePath cfg rhash \<mapsto> encodeWaitingInvoice w)" by simp_all
  with call show ?thesis by blast
qed

text \<open>
  C14. A request that is answered with an invoice has passed every check, each on the answer dcrlnd gave when it
  was made: the size is within the bounds and the node not ignored; the node has fewer than the allowed number of
  channels, is connected as a peer; the unspent outputs together are worth more than the channel (where their sum
  fits in 64 bits); fewer channels than allowed are pending; and no earlier request of the node is still live by
  the clock. It has asked dcrlnd for one invoice over the price, has stored the record under the payment
  hash of that invoice, whose payment request is the answer, has reserved the node, and has done nothing else.
\<close>

theorem invoice_created:
  assumes "CreateInvoice E cfg node n s = (Ok payreq, t)"
  shows "(MinChanSize cfg \<le> n \<and> n \<le> MaxChanSize cfg \<and> nodeString node \<notin> IgnoreNodes cfg \<and>
     (\<exists>chans s1 peers s2 utxos s3 pend s4.
        rpc (e_ListChannels E (Some node)) s = (Ok chans, s1) \<and> of_nat (length chans) < MaxNbChannels cfg \<and>
        rpc (e_ListPeers E) s1 = (Ok peers, s2) \<and> nodeString node \<in> set peers \<and>
        rpc (e_ListUnspent E) s2 = (Ok utxos, s3) \<and>
        (sum_list (map unat utxos) < 2 ^ 64 \<longrightarrow> unat n < sum_list (map unat utxos)) \<and>
        rpc (e_PendingChannels E) s3 = (Ok pend, s4) \<and>
        of_nat (length (PendingOpenChannels pend)) < MaxPendingChans cfg \<and>
        (\<forall>t0. pendingChans s node = Some t0 \<longrightarrow>
           t0 < fst (ask (e_Now E) s4) + sint (- InvoiceExpiration cfg)))) \<and>
    (\<exists>now. pendingChans t = (pendingChans s)(node \<mapsto> now)) \<and> tasks t = tasks s \<and>
    (\<exists>rhash s5 s6. rpc (e_AddInvoice E (invoiceMemo node n) (amountForNewChan E cfg n) (invoiceExpiry E cfg)) s5 =
        (Ok (rhash, payreq), s6) \<and>
      events t = events s @
        [EvAddInvoice (invoiceMemo node n) (amountForNewChan E cfg n) (invoiceExpiry E cfg),
         EvStored (invoicePath cfg rhash) \<lparr>TargetNode = node, ChannelSize = n\<rparr>] \<and>
      files t = (files s)(invoicePath cfg rhash \<mapsto> encodeWaitingInvoice \<lparr>TargetNode = node, ChannelSize = n\<rparr>))"
    (is "?checks \<and> ?rest")
proof
  let ?w = "\<lparr>TargetNode = node, ChannelSize = n\<rparr>"
  from assms obtain s1 where a: "admit E cfg ?w s = (Ok (), s1)" and i: "issueInvoice E cfg ?w s1 = (Ok payreq, t)"
    by (auto simp: CreateInvoice_Ok_iff)
  from a show ?checks by (rule admit_Ok_checks)
  have "pendingChans t = pendingChans s1 \<and> tasks t = tasks s1" using i by (cases rule: issueInvoice_cases) auto
  with issueInvoice_Ok [OF i] admit_Ok_reserves [OF a] admit_frame [OF a] show ?rest
    by (auto simp: addInvoiceEv_def)
qed

theorem invoice_created_witness:
  "\<exists>rhash. files (snd (CreateInvoice sampleEnv sampleCfg sampleNode 1048576 sampleState)) =
     [invoicePath sampleCfg rhash \<mapsto> encodeWaitingInvoice sampleInvoice]"
  using invoice_created [OF sample_CreateInvoice]
  unfolding sample_CreateInvoice by (auto simp: sampleInvoice_def sampleState_def)

text \<open>
  C15. A request that fails either was refused by a check and has changed nothing at all, or failed
  after its admission: then its error is not a policy error, an invoice was asked for, and the
  node stays reserved although it has no invoice.
\<close>

theorem invoice_refused:
  assumes "CreateInvoice E cfg node n s = (Err e, t)"
  shows "quiet s t \<or>
    \<not> isErrPolicy e \<and> (\<exists>now. pendingChans t = (pendingChans s)(node \<mapsto> now)) \<and>
    (\<exists>evs. events t = events s @
       EvAddInvoice (invoiceMemo node n) (amountForNewChan E cfg n) (invoiceExpiry E cfg) # evs)"
proof -
  let ?w = "\<lparr>TargetNode = node, ChannelSize = n\<rparr>"
  consider "admit E cfg ?w s = (Err e, t)"
    | s1 where "admit E cfg ?w s = (Ok (), s1)" "issueInvoice E cfg ?w s1 = (Err e, t)"
    using assms by (auto simp: CreateInvoice_Err_iff)
  then show ?thesis
  proof cases
    case 1
    then show ?thesis by (simp add: admit_Err_quiet)
  next
    case (2 s1)
    have "\<not> isErrPolicy e" using 2(2)
      by (auto simp: issueInvoice_def Let_def bindR_iffs dest!: rpc_Err writeJsonFile_Err_other)
    moreover from 2(2) have "pendingChans t = pendingChans s1 \<and> (\<exists>evs. events t = events s1 @
       EvAddInvoice (invoiceMemo node n) (amountForNewChan E cfg n) (invoiceExpiry E cfg) # evs)"
      by (cases rule: issueInvoice_cases) (auto simp: addInvoiceEv_def)
    ultimately show ?thesis using admit_Ok_reserves [OF 2(1)] admit_frame [OF 2(1)] by auto
  qed
qed

definition sampleEnvNoInvoice :: "int env" where
  "sampleEnvNoInvoice = sampleEnv\<lparr>e_AddInvoice := \<lambda>_ _ _ w. (Inl ''wallet locked'', w)\<rparr>"

lemma sample_invoice_failed:
  "CreateInvoice sampleEnvNoInvoice sampleCfg sampleNode 1048576 sampleState =
     (Err (ErrRpc ''wallet locked''), sampleState\<lparr>world := 1, pendingChans := [sampleNode \<mapsto> 0],
        events := [addInvoiceEv sampleEnvNoInvoice sampleCfg sampleInvoice]\<rparr>)"
  by (simp add: CreateInvoice_def issueInvoice_def addInvoiceEv_def emit_def Let_def sampleInvoice_def
      admit_def canCreateChannel_def isConnectedToNode_def hasUnspentForNewChannel_def
      hasMaxPendingChannels_def hasPendingCreateChanReqs_def trackPending_def rpc_def ask_def
      requireR_def refuseR_def sample_defs sampleEnvNoInvoice_def)

theorem invoice_refused_witness:
  "\<exists>now. pendingChans (snd (CreateInvoice sampleEnvNoInvoice sampleCfg sampleNode 1048576 sampleState)) =
     [sampleNode \<mapsto> now]"
  using invoice_refused [OF sample_invoice_failed]
  unfolding sample_invoice_failed by (auto simp: sampleState_def)

text \<open>
  When dcrlnd cannot make the invoice of an admitted request, the same request made again right
  away is refused with "already has pending open channel request": the reservation outlives the
  failed request.
\<close>

lemma failed_invoice_blocks_retry:
  "fst (CreateInvoice sampleEnv sampleCfg sampleNode 1048576
     (snd (CreateInvoice sampleEnvNoInvoice sampleCfg sampleNode 1048576 sampleState))) =
   Err ErrHasPendingOpenChan"
  unfolding sample_invoice_failed
  by (simp add: CreateInvoice_def admit_def canCreateChannel_def isConnectedToNode_def
      hasUnspentForNewChannel_def hasMaxPendingChannels_def hasPendingCreateChanReqs_def pendingLive_def
      rpc_def ask_def requireR_def refuseR_def sample_defs)

text \<open>
  C26. The price of a channel of up to \<open>2^53\<close> atoms (the whole supply of the coin is below \<open>2^51\<close>), at any fee rate
  that is not negative and does not make it more than \<open>2^52\<close> atoms, is within two atoms of the exact product of size and
  rate; a larger channel never costs less; and at rates up to one the price is at most the channel itself. At a rate
  above one, which the configuration accepts, it is not.
\<close>

theorem price_accurate:
  assumes "ChanInvoiceFeeRate cfg = Fin r" "0 \<le> r" "uint n \<le> 2 ^ 53" "of_int (uint n) * r \<le> 2 ^ 52" "m \<le> n"
  shows "\<bar>of_int (uint (amountForNewChan E cfg n)) - of_int (uint n) * r\<bar> < 2 \<and>
    amountForNewChan E cfg m \<le> amountForNewChan E cfg n \<and> (r \<le> 1 \<longrightarrow> amountForNewChan E cfg n \<le> n) \<and>
    (1 < r \<and> 2 \<le> of_int (uint n) * (r - 1) \<longrightarrow> n < amountForNewChan E cfg n)"
proof -
  note acc = amount_accuracy [OF assms(1-4), of E]
  have "amountForNewChan E cfg m \<le> amountForNewChan E cfg n"
    by (rule amount_mono [OF assms(1,2)]) (use assms in auto)
  moreover have "n < amountForNewChan E cfg n" if "2 \<le> of_int (uint n) * (r - 1)"
  proof -
    have "of_int (uint n) + 2 \<le> of_int (uint n) * r" using that by (simp add: algebra_simps)
    with acc(1) have "(of_int (uint n) :: rat) < of_int (uint (amountForNewChan E cfg n))" by linarith
    then show ?thesis by (simp add: word_less_def)
  qed
  ultimately show ?thesis using acc by (simp add: word_le_def)
qed

theorem price_accurate_witness:
  "amountForNewChan sampleEnv sampleCfg 1000 \<le> amountForNewChan sampleEnv sampleCfg 1048576"
  using price_accurate [of sampleCfg "1 / 16" 1048576 1000 sampleEnv] by (simp add: sampleCfg_def)

text \<open>
  The loop over the unspent outputs, with its early exit, answers whether their total is more
  than the channel size, as long as the total fits in 64 bits.
\<close>

lemma unspent_total:
  assumes "sum_list (map unat us) < 2 ^ 64"
  shows "sumExceeds 0 c us \<longleftrightarrow> unat c < sum_list (map unat us)"
  using sumExceeds_total [of 0 us c] assms by simp

lemma unspent_total_witness: "sumExceeds 0 1048576 [700000, 800000] \<longleftrightarrow> unat (1048576 :: u64) < 1500000"
  using unspent_total [of "[700000, 800000]" 1048576] by simp

end
