(* ===== verification/Chan_Point.thy ===== *)
theory Chan_Point
  imports Sample_World
begin

text \<open>
  Channel points, \<open>txid:index\<close>: the parser and printer of \<open>server/util.go\<close> and the transaction id
  lookup of \<open>rpc/util.go\<close>. Hashes are the third-party package \<open>chainhash\<close>: \<open>e_NewHashFromStr\<close>,
  \<open>e_NewHash\<close> (errors as the left summand) and \<open>e_HashString\<close> of the environment.
\<close>

definition parseStrChannelPoint :: "string \<Rightarrow> channelPoint res" where
  "parseStrChannelPoint s =
     (if CHR '':'' \<notin> set s then Err (ErrOther ''channel point does not have a colon'')
      else let txid = takeWhile (\<lambda>c. c \<noteq> CHR '':'') s;
               rest = drop (length txid + 1) s
           in (case atoi rest of
                 (Some _, _) \<Rightarrow> Err (ErrOther ''strconv.Atoi'')
               | (None, idx) \<Rightarrow> Ok \<lparr>FundingTxid = FundingTxidStr txid, OutputIndex = ucast idx\<rparr>))"

text \<open>\<open>rpc.GetChanPointFundingTxid\<close>; an unset transaction id is the empty byte slice.\<close>

definition GetChanPointFundingTxid :: "'w env \<Rightarrow> channelPoint \<Rightarrow> u8 list res" where
  "GetChanPointFundingTxid E cp =
     (let newHash = (\<lambda>txid. case e_NewHash E txid of Inl m \<Rightarrow> Err (ErrOther m) | Inr h \<Rightarrow> Ok h)
      in case FundingTxid cp of
           FundingTxidBytes txid \<Rightarrow> newHash txid
         | FundingTxidStr s \<Rightarrow> (case e_NewHashFromStr E s of Inl m \<Rightarrow> Err (ErrOther m) | Inr h \<Rightarrow> newHash h)
         | FundingTxidNone \<Rightarrow> newHash [])"

definition fmtChannelPoint :: "'w env \<Rightarrow> channelPoint \<Rightarrow> string res" where
  "fmtChannelPoint E cp =
     (let withHash = (\<lambda>txid. case e_NewHash E txid of
             Inl m \<Rightarrow> Err (ErrOther m)
           | Inr ch \<Rightarrow> Ok (e_HashString E ch @ '':'' @ fmt_u32 (OutputIndex cp)))
      in case FundingTxid cp of
           FundingTxidBytes txid \<Rightarrow> withHash txid
         | FundingTxidStr s \<Rightarrow> (case e_NewHashFromStr E s of Inl m \<Rightarrow> Err (ErrOther m) | Inr h \<Rightarrow> withHash h)
         | FundingTxidNone \<Rightarrow> withHash [])"

definition mustFmtChannelPoint :: "'w env \<Rightarrow> channelPoint \<Rightarrow> string res" where
  "mustFmtChannelPoint E cp = (case fmtChannelPoint E cp of Ok s \<Rightarrow> Ok s | _ \<Rightarrow> Panic ''mustFmtChannelPoint'')"

section \<open>Laws\<close>

lemma takeWhile_colon: "CHR '':'' \<notin> set t \<Longrightarrow> takeWhile (\<lambda>c. c \<noteq> CHR '':'') (t @ '':'' @ r) = t"
  by (induction t) auto

lemma parseStrChannelPoint_split:
  assumes "CHR '':'' \<notin> set t"
  shows "parseStrChannelPoint (t @ '':'' @ r) =
     (case atoi r of (Some _, _) \<Rightarrow> Err (ErrOther ''strconv.Atoi'')
      | (None, idx) \<Rightarrow> Ok \<lparr>FundingTxid = FundingTxidStr t, OutputIndex = ucast idx\<rparr>)"
  using takeWhile_colon [OF assms, of r] by (simp add: parseStrChannelPoint_def Let_def)

lemma parseStrChannelPoint_fmt:
  assumes "CHR '':'' \<notin> set t"
  shows "parseStrChannelPoint (t @ '':'' @ fmt_u32 i) = Ok \<lparr>FundingTxid = FundingTxidStr t, OutputIndex = i\<rparr>"
proof -
  have "unat i < 2 ^ 63" using unat_u32_lt [of i] by simp
  then have "atoi (fmt_u32 i) = (None, of_nat (unat i))" by (simp add: fmt_u32_def atoi_fmt_nat)
  moreover have "ucast (of_nat (unat i) :: i64) = i" proof -
    have "ucast (ucast i :: i64) = i" by (rule bit_word_eqI) (auto simp: bit_simps dest: bit_imp_le_length)
    then show ?thesis by simp
  qed
  ultimately show ?thesis by (simp only: parseStrChannelPoint_split [OF assms] prod.case option.case)
qed

lemma parseStrChannelPoint_not_Panic: "parseStrChannelPoint s \<noteq> Panic m"
  by (auto simp: parseStrChannelPoint_def Let_def split: prod.split option.split)

lemma GetChanPointFundingTxid_not_Panic: "GetChanPointFundingTxid E cp \<noteq> Panic m"
  by (simp add: GetChanPointFundingTxid_def Let_def split: fundingTxid.split sum.split)

section \<open>Properties\<close>

text \<open>
  A channel point that \<open>fmtChannelPoint\<close> prints parses back to the same transaction id (as the
  text of its hash) and the same output index, provided the hash's text has no colon; parsing never
  panics.
\<close>

lemma channel_point_roundtrip:
  assumes "fmtChannelPoint E cp = Ok s" and "\<And>h. CHR '':'' \<notin> set (e_HashString E h)"
  shows "\<exists>h. parseStrChannelPoint s = Ok \<lparr>FundingTxid = FundingTxidStr (e_HashString E h), OutputIndex = OutputIndex cp\<rparr>"
proof -
  from assms(1) obtain h where "s = e_HashString E h @ '':'' @ fmt_u32 (OutputIndex cp)"
    by (auto simp: fmtChannelPoint_def Let_def split: fundingTxid.splits sum.splits)
  with parseStrChannelPoint_fmt [OF assms(2)] show ?thesis by blast
qed

lemma channel_point_roundtrip_witness:
  "\<exists>h. parseStrChannelPoint (hexEncode (replicate 32 0) @ '':'' @ fmt_u32 7) =
     Ok \<lparr>FundingTxid = FundingTxidStr (e_HashString sampleEnv h), OutputIndex = 7\<rparr>"
proof -
  let ?cp = "\<lparr>FundingTxid = FundingTxidBytes (replicate 32 0), OutputIndex = 7\<rparr>"
  have f: "fmtChannelPoint sampleEnv ?cp = Ok (hexEncode (replicate 32 0) @ '':'' @ fmt_u32 7)"
    by (simp add: fmtChannelPoint_def Let_def sampleEnv_def)
  have c: "CHR '':'' \<notin> set (e_HashString sampleEnv h)" for h
    using hexEncode_chars [of "CHR '':''" h] by (auto simp: sampleEnv_def hex_char_def hextable_def)
  from channel_point_roundtrip [OF f c] show ?thesis by simp
qed

text \<open>
  The parser takes any 64-bit index: a negative one is accepted and becomes an output index near
  \<open>2^32\<close>.
\<close>

lemma channel_point_negative_index:
  "parseStrChannelPoint ''ab:-1'' = Ok \<lparr>FundingTxid = FundingTxidStr ''ab'', OutputIndex = 0xFFFFFFFF\<rparr>"
proof -
  have "(ucast (- 1 :: i64) :: u32) = 0xFFFFFFFF" by code_simp
  then show ?thesis using parseStrChannelPoint_split [of "''ab''" "''-1''"]
    by (simp add: atoi_def parseUint_def is_digit_def digit_val_def)
qed

end
