(* ===== verification/Open_Channel.thy ===== *)
theory Open_Channel
  imports Create_Invoice Chan_Point
begin

text \<open>
  \<open>openChannel\<close> of \<open>server/server.go\<close>, the goroutine started for a paid invoice: the policy check, at
  most three attempts with growing delays, then the updates of the accepted request. The updates
  \<open>ch.Recv()\<close> returns are a list, an error as the left summand; a list that ends without an error
  stands for a goroutine that is still waiting. \<open>openStep\<close> and \<open>openRecv\<close> are the same code cut at
  the points where other goroutines can run in between.
\<close>

section \<open>The code\<close>

definition attemptOpen :: "'w env \<Rightarrow> waitingInvoice \<Rightarrow> 'w sys \<Rightarrow> unit res \<times> 'w sys" where
  "attemptOpen E winv s =
     requireR ErrPeerUnconnected (isConnectedToNode E (TargetNode winv) s) (\<lambda>s1.
     requireR ErrNotEnoughUtxos (hasUnspentForNewChannel E (ChannelSize winv) s1) (\<lambda>s2.
     bindR (rpc (e_OpenChannel E (TargetNode winv) (ChannelSize winv))
         (emit (EvOpenChannel (TargetNode winv) (ChannelSize winv)) s2))
       (\<lambda>_ s3. (Ok (), emit (EvAccepted (TargetNode winv) (ChannelSize winv)) s3))))"

definition maxAttempts :: nat where
  "maxAttempts = 3"

definition delayAmount :: "nat \<Rightarrow> duration" where
  "delayAmount attempt = 30 * second * of_nat (attempt + 1)"

text \<open>True when a request was accepted.\<close>

function openAttempts :: "'w env \<Rightarrow> waitingInvoice \<Rightarrow> nat \<Rightarrow> 'w sys \<Rightarrow> bool \<times> 'w sys" where
  "openAttempts E winv attempt s =
     (if maxAttempts \<le> attempt then (True, s)
      else case attemptOpen E winv s of
        (Ok _, s1) \<Rightarrow> (True, s1)
      | (_, s1) \<Rightarrow>
          if attempt = maxAttempts - 1 then (False, s1)
          else (case ask (e_Delay E (delayAmount attempt)) (emit (EvDelay (delayAmount attempt)) s1) of
                  (True, s2) \<Rightarrow> (False, s2)
                | (False, s2) \<Rightarrow> openAttempts E winv (attempt + 1) s2))"
  by pat_completeness auto
termination
  by (relation "measure (\<lambda>(E, winv, attempt, s). maxAttempts - attempt)") auto

declare openAttempts.simps [simp del]

fun openRecv :: "'w env \<Rightarrow> waitingInvoice \<Rightarrow> err + openUpdate \<Rightarrow> 'w sys \<Rightarrow> stream \<times> 'w sys" where
  "openRecv E winv (Inl e) s = (recvError e, s)"
| "openRecv E winv (Inr (ChanPending txid idx)) s = (Reading, s)"
| "openRecv E winv (Inr OpenOther) s = (Reading, s)"
| "openRecv E winv (Inr (ChanOpen cp)) s =
     (case GetChanPointFundingTxid E cp of
        Ok txid \<Rightarrow> (Reading, dropPending (TargetNode winv) s)
      | Err e \<Rightarrow> (Failed e, s)
      | Panic m \<Rightarrow> (Ended, s))"

fun watchOpen :: "'w env \<Rightarrow> waitingInvoice \<Rightarrow> (err + openUpdate) list \<Rightarrow> 'w sys \<Rightarrow> stream \<times> 'w sys" where
  "watchOpen E winv [] s = (Reading, s)"
| "watchOpen E winv (u # us) s = (case openRecv E winv u s of
      (Reading, s1) \<Rightarrow> watchOpen E winv us s1
    | (st, s1) \<Rightarrow> (st, s1))"

definition openChannel ::
  "'w env \<Rightarrow> config \<Rightarrow> waitingInvoice \<Rightarrow> (err + openUpdate) list \<Rightarrow> 'w sys \<Rightarrow> stream \<times> 'w sys" where
  "openChannel E cfg winv us s = (case canCreateChannel E cfg winv s of
      (Ok _, s1) \<Rightarrow> (case openAttempts E winv 0 s1 of
          (True, s2) \<Rightarrow> watchOpen E winv us s2
        | (False, s2) \<Rightarrow> (Ended, s2))
    | (_, s1) \<Rightarrow> (Ended, s1))"

text \<open>One step of the goroutine up to the stream; \<open>None\<close> when it returns.\<close>

fun openStep :: "'w env \<Rightarrow> config \<Rightarrow> waitingInvoice \<Rightarrow> openPhase \<Rightarrow> 'w sys \<Rightarrow> openPhase option \<times> 'w sys" where
  "openStep E cfg winv OpenCheck s = (case canCreateChannel E cfg winv s of
      (Ok _, s1) \<Rightarrow> (Some (OpenAttempt 0), s1)
    | (_, s1) \<Rightarrow> (None, s1))"
| "openStep E cfg winv (OpenAttempt attempt) s =
     (if maxAttempts \<le> attempt then (Some OpenWatch, s)
      else case attemptOpen E winv s of
        (Ok _, s1) \<Rightarrow> (Some OpenWatch, s1)
      | (_, s1) \<Rightarrow>
          if attempt = maxAttempts - 1 then (None, s1)
          else (case ask (e_Delay E (delayAmount attempt)) (emit (EvDelay (delayAmount attempt)) s1) of
                  (True, s2) \<Rightarrow> (None, s2)
                | (False, s2) \<Rightarrow> (Some (OpenAttempt (attempt + 1)), s2)))"
| "openStep E cfg winv OpenWatch s = (Some OpenWatch, s)"

section \<open>One attempt\<close>

text \<open>Two states that differ in the outside world and in what was appended to the trace.\<close>

definition traced :: "event list \<Rightarrow> 'w sys \<Rightarrow> 'w sys \<Rightarrow> bool" where
  "traced evs s t \<longleftrightarrow> pendingChans t = pendingChans s \<and> files t = files s \<and> tasks t = tasks s \<and>
     events t = events s @ evs"

lemma traced_quiet: "traced [] s t \<longleftrightarrow> quiet s t"
  by (simp add: traced_def quiet_def)

lemma traced_trans: "traced xs s t \<Longrightarrow> traced ys t u \<Longrightarrow> traced (xs @ ys) s u"
  by (simp add: traced_def)

lemma traced_emit [simp]: "traced [e] s (emit e s)"
  by (simp add: traced_def emit_def)

lemma rpc_Ok_not_Err: "rpc f s = (Ok x, t) \<Longrightarrow> quiet s t" "rpc f s = (Err e, t) \<Longrightarrow> quiet s t"
  by (auto dest: quiet_rpc)

text \<open>
  An attempt is refused by the daemon before a request is sent, refused by dcrlnd, or accepted.
\<close>

lemma attemptOpen_cases:
  assumes "attemptOpen E winv s = (r, t)"
  obtains (accepted) "r = Ok ()" "traced [EvOpenChannel (TargetNode winv) (ChannelSize winv),
      EvAccepted (TargetNode winv) (ChannelSize winv)] s t"
  | (refused) m where "r = Err (ErrRpc m)" "traced [EvOpenChannel (TargetNode winv) (ChannelSize winv)] s t"
  | (not_sent) e where "r = Err e" "quiet s t" "e \<in> {ErrPeerUnconnected, ErrNotEnoughUtxos}"
proof -
  obtain b1 s1 where c1: "isConnectedToNode E (TargetNode winv) s = (b1, s1)" by force
  obtain b2 s2 where c2: "hasUnspentForNewChannel E (ChannelSize winv) s1 = (b2, s2)" by force
  let ?e = "EvOpenChannel (TargetNode winv) (ChannelSize winv)"
  obtain r3 s3 where c3: "rpc (e_OpenChannel E (TargetNode winv) (ChannelSize winv)) (emit ?e s2) = (r3, s3)"
    by force
  have q: "quiet s s1" "quiet s1 s2" "quiet (emit ?e s2) s3"
    using query_quiet(1) [OF c1] query_quiet(3) [OF c2] quiet_rpc [OF c3] .
  show thesis
  proof (cases "b1 \<and> b2")
    case False
    with assms c1 c2 q that(3) show thesis
      by (cases b1; cases b2) (auto simp: attemptOpen_def requireR_def intro: quiet_trans)
  next
    case True
    with assms c1 c2 c3 have eq: "(r, t) = bindR (r3, s3)
        (\<lambda>_ s. (Ok (), emit (EvAccepted (TargetNode winv) (ChannelSize winv)) s))"
      by (simp add: attemptOpen_def requireR_def)
    show thesis
    proof (cases r3)
      case (Ok u)
      with eq q show thesis by (intro that(1)) (auto simp: traced_def quiet_def emit_def)
    next
      case (Err e)
      with rpc_Err c3 obtain m where "e = ErrRpc m" by blast
      with Err eq q show thesis by (intro that(2)) (auto simp: traced_def quiet_def emit_def)
    next
      case (Panic m)
      with c3 rpc_not_Panic show thesis by blast
    qed
  qed
qed

section \<open>The attempts\<close>

text \<open>
  What the attempts from number \<open>k\<close> can leave in the trace: each refused one adds at most a request
  and then the delay before the next; an accepted one ends the trace.
\<close>

inductive attemptTrace :: "nodeID \<Rightarrow> i64 \<Rightarrow> nat \<Rightarrow> bool \<Rightarrow> event list \<Rightarrow> bool" for node amt where
  accepted: "k < maxAttempts \<Longrightarrow> attemptTrace node amt k True [EvOpenChannel node amt, EvAccepted node amt]"
| gave_up: "k + 1 = maxAttempts \<Longrightarrow> evs \<in> {[], [EvOpenChannel node amt]} \<Longrightarrow> attemptTrace node amt k False evs"
| stopped: "k + 1 < maxAttempts \<Longrightarrow> evs \<in> {[], [EvOpenChannel node amt]} \<Longrightarrow>
    attemptTrace node amt k False (evs @ [EvDelay (delayAmount k)])"
| retried: "k + 1 < maxAttempts \<Longrightarrow> evs \<in> {[], [EvOpenChannel node amt]} \<Longrightarrow>
    attemptTrace node amt (k + 1) b tr \<Longrightarrow>
    attemptTrace node amt k b (evs @ EvDelay (delayAmount k) # tr)"

text \<open>The four ways an attempt can go on.\<close>

lemma openAttempts_accepted:
  "k < maxAttempts \<Longrightarrow> attemptOpen E winv s = (Ok (), s1) \<Longrightarrow> openAttempts E winv k s = (True, s1)"
  by (subst openAttempts.simps) simp

lemma openAttempts_last:
  "k + 1 = maxAttempts \<Longrightarrow> attemptOpen E winv s = (Err e, s1) \<Longrightarrow> openAttempts E winv k s = (False, s1)"
  by (subst openAttempts.simps) auto

lemma openAttempts_delayed:
  assumes "k + 1 < maxAttempts" and "attemptOpen E winv s = (Err e, s1)"
    and "ask (e_Delay E (delayAmount k)) (emit (EvDelay (delayAmount k)) s1) = (c, s2)"
  shows "openAttempts E winv k s = (if c then (False, s2) else openAttempts E winv (k + 1) s2)"
  using assms by (subst openAttempts.simps) auto

lemma openAttempts_trace:
  assumes "openAttempts E winv k s = (b, t)" and "k < maxAttempts"
  shows "\<exists>tr. traced tr s t \<and> attemptTrace (TargetNode winv) (ChannelSize winv) k b tr"
  using assms
proof (induction "maxAttempts - k" arbitrary: k s rule: less_induct)
  case less
  let ?node = "TargetNode winv" and ?amt = "ChannelSize winv" and ?d = "delayAmount k"
  obtain r s1 where a: "attemptOpen E winv s = (r, s1)" by force
  show ?case
  proof (cases "\<exists>e. r = Err e")
    case False
    with a have r: "r = Ok ()" and tr: "traced [EvOpenChannel ?node ?amt, EvAccepted ?node ?amt] s s1"
      by (cases rule: attemptOpen_cases; simp)+
    from r a less.prems have "b" "t = s1" by (simp_all add: openAttempts_accepted)
    with tr attemptTrace.accepted [OF less.prems(2), of ?node ?amt] show ?thesis by auto
  next
    case True
    then obtain e where r: "r = Err e" by blast
    with a obtain evs where evs: "evs \<in> {[], [EvOpenChannel ?node ?amt]}" "traced evs s s1"
      by (cases rule: attemptOpen_cases) (auto simp flip: traced_quiet)
    obtain c s2 where d: "ask (e_Delay E ?d) (emit (EvDelay ?d) s1) = (c, s2)" by force
    from quiet_ask [OF this] have "traced [EvDelay ?d] s1 s2"
      by (simp add: traced_def quiet_def emit_def)
    with evs have tr: "traced (evs @ [EvDelay ?d]) s s2" by (auto intro: traced_trans)
    consider "k + 1 = maxAttempts" | "k + 1 < maxAttempts" using less.prems(2) by linarith
    then show ?thesis
    proof cases
      case 1
      from openAttempts_last [OF 1 a [unfolded r]] less.prems(1) have "\<not> b" "t = s1" by simp_all
      with evs(2) attemptTrace.gave_up [OF 1 evs(1)] show ?thesis by auto
    next
      case k: 2
      with less.prems(1) openAttempts_delayed [OF k a [unfolded r] d]
      have o: "(b, t) = (if c then (False, s2) else openAttempts E winv (k + 1) s2)" by simp
      show ?thesis
      proof (cases c)
        case True
        with o tr attemptTrace.stopped [OF k evs(1)] show ?thesis by auto
      next
        case False
        with o have "openAttempts E winv (k + 1) s2 = (b, t)" by simp
        moreover have "maxAttempts - (k + 1) < maxAttempts - k" using k by linarith
        ultimately obtain tr' where "traced tr' s2 t" "attemptTrace ?node ?amt (k + 1) b tr'"
          using less.hyps [of "k + 1" s2] k by auto
        from traced_trans [OF tr this(1)] have "traced (evs @ EvDelay ?d # tr') s t" by simp
        with attemptTrace.retried [OF k evs(1) \<open>attemptTrace ?node ?amt (k + 1) b tr'\<close>]
        show ?thesis by auto
      qed
    qed
  qed
qed

subsection \<open>What such a trace says\<close>

fun isOpenEv :: "event \<Rightarrow> bool" where
  "isOpenEv (EvOpenChannel n a) = True"
| "isOpenEv _ = False"

fun isAcceptedEv :: "event \<Rightarrow> bool" where
  "isAcceptedEv (EvAccepted n a) = True"
| "isAcceptedEv _ = False"

fun delayOf :: "event \<Rightarrow> duration option" where
  "delayOf (EvDelay d) = Some d"
| "delayOf _ = None"

lemma attemptTrace_open:
  "attemptTrace node amt k b tr \<Longrightarrow>
     length (filter isOpenEv tr) \<le> maxAttempts - k \<and>
     set (filter isOpenEv tr) \<subseteq> {EvOpenChannel node amt}"
  by (induction rule: attemptTrace.induct) auto

lemma attemptTrace_accepted:
  "attemptTrace node amt k b tr \<Longrightarrow>
     (if b then \<exists>us. tr = us @ [EvOpenChannel node amt, EvAccepted node amt] \<and> filter isAcceptedEv us = []
      else filter isAcceptedEv tr = [])"
  by (induction rule: attemptTrace.induct) (auto simp flip: append_assoc append_Cons split: if_splits)

lemma attemptTrace_delays:
  "attemptTrace node amt k b tr \<Longrightarrow>
     \<exists>n. List.map_filter delayOf tr = map delayAmount [k..<n] \<and> k \<le> n \<and> n < maxAttempts"
proof (induction rule: attemptTrace.induct)
  case (accepted k)
  then show ?case by (auto simp: map_filter_simps intro!: exI [of _ k])
next
  case (gave_up k evs)
  then show ?case by (auto simp: map_filter_simps intro!: exI [of _ k])
next
  case (stopped k evs)
  then show ?case by (auto simp: map_filter_simps intro!: exI [of _ "Suc k"])
next
  case (retried k evs b tr)
  then obtain n where "List.map_filter delayOf tr = map delayAmount [k + 1..<n]" "k + 1 \<le> n" "n < maxAttempts"
    by blast
  with retried show ?case by (auto simp: map_filter_simps upt_conv_Cons intro!: exI [of _ n])
qed

section \<open>The updates\<close>

text \<open>Reading the stream changes the table at the target node only, and only by forgetting it.\<close>

lemma openRecv_frame:
  "openRecv E winv u s = (st, t) \<Longrightarrow>
     t = s \<or> t = dropPending (TargetNode winv) s \<and> st = Reading \<and> (\<exists>cp. u = Inr (ChanOpen cp))"
  by (cases "(E, winv, u, s)" rule: openRecv.cases) (auto split: res.splits)

lemma dropPending_twice [simp]: "dropPending n (dropPending n s) = dropPending n s"
  by (simp add: dropPending_def)

lemma watchOpen_frame:
  "watchOpen E winv us s = (st, t) \<Longrightarrow> t = s \<or> t = dropPending (TargetNode winv) s"
proof (induction us arbitrary: s)
  case (Cons u us)
  obtain st1 s1 where u: "openRecv E winv u s = (st1, s1)" by force
  from openRecv_frame [OF this] have s1: "s1 = s \<or> s1 = dropPending (TargetNode winv) s" by blast
  show ?case
  proof (cases st1)
    case Reading
    with u Cons.prems Cons.IH have "t = s1 \<or> t = dropPending (TargetNode winv) s1" by simp
    with s1 show ?thesis by auto
  qed (use u s1 Cons.prems in auto)
qed simp

text \<open>The entry of the node is dropped exactly when a decodable "open" update is read.\<close>

fun opensChannel :: "'w env \<Rightarrow> (err + openUpdate) list \<Rightarrow> bool" where
  "opensChannel E [] = False"
| "opensChannel E (Inl e # us) = False"
| "opensChannel E (Inr (ChanOpen cp) # us) = (\<exists>h. GetChanPointFundingTxid E cp = Ok h)"
| "opensChannel E (Inr u # us) = opensChannel E us"

lemma watchOpen_opened:
  "opensChannel E us \<Longrightarrow> snd (watchOpen E winv us s) = dropPending (TargetNode winv) s"
proof (induction E us rule: opensChannel.induct)
  case (3 E cp us)
  then obtain h where "GetChanPointFundingTxid E cp = Ok h" by auto
  then show ?case
    using watchOpen_frame [of E winv us "dropPending (TargetNode winv) s"]
    by (cases "watchOpen E winv us (dropPending (TargetNode winv) s)") auto
qed auto

lemma watchOpen_not_opened: "\<not> opensChannel E us \<Longrightarrow> snd (watchOpen E winv us s) = s"
  by (induction E us rule: opensChannel.induct)
    (auto simp: recvError_def GetChanPointFundingTxid_not_Panic split: res.splits)

section \<open>The whole goroutine\<close>

lemma openChannel_trace:
  assumes "openChannel E cfg winv us s = (st, t)"
  obtains (rejected) "st = Ended" "quiet s t"
  | (given_up) tr where "st = Ended" "traced tr s t"
      "attemptTrace (TargetNode winv) (ChannelSize winv) 0 False tr"
  | (watched) tr u where "traced tr s u"
      "attemptTrace (TargetNode winv) (ChannelSize winv) 0 True tr" "watchOpen E winv us u = (st, t)"
proof -
  obtain r s1 where c: "canCreateChannel E cfg winv s = (r, s1)" by force
  then have q: "quiet s s1" by (rule canCreateChannel_quiet)
  obtain b s2 where a: "openAttempts E winv 0 s1 = (b, s2)" by force
  have "0 < maxAttempts" by (simp add: maxAttempts_def)
  from openAttempts_trace [OF a this] obtain tr where
    tr: "traced tr s1 s2" "attemptTrace (TargetNode winv) (ChannelSize winv) 0 b tr" by blast
  have tr': "traced tr s s2" using q tr(1) by (auto simp: traced_def quiet_def)
  show thesis
  proof (cases "r = Ok ()")
    case True
    with c a assms have "(st, t) = (if b then watchOpen E winv us s2 else (Ended, s2))"
      by (cases b) (simp_all add: openChannel_def)
    with tr(2) tr' that(2) [of tr] that(3) [of tr s2] show thesis by (cases b) simp_all
  next
    case False
    with c assms q canCreateChannel_not_Panic that(1) show thesis
      by (cases r) (auto simp: openChannel_def)
  qed
qed

text \<open>The cut into steps is the same code.\<close>

fun openSteps :: "nat \<Rightarrow> 'w env \<Rightarrow> config \<Rightarrow> waitingInvoice \<Rightarrow> openPhase \<Rightarrow> 'w sys \<Rightarrow> openPhase option \<times> 'w sys" where
  "openSteps 0 E cfg winv ph s = (Some ph, s)"
| "openSteps (Suc n) E cfg winv ph s = (case openStep E cfg winv ph s of
      (None, t) \<Rightarrow> (None, t)
    | (Some ph', t) \<Rightarrow> openSteps n E cfg winv ph' t)"

lemma openSteps_watch [simp]: "openSteps n E cfg winv OpenWatch s = (Some OpenWatch, s)"
  by (induction n) auto

lemma openSteps_attempts:
  "maxAttempts - k < n \<Longrightarrow> openSteps n E cfg winv (OpenAttempt k) s =
     (case openAttempts E winv k s of (b, t) \<Rightarrow> (if b then Some OpenWatch else None, t))"
proof (induction "maxAttempts - k" arbitrary: k s n rule: less_induct)
  case less
  then obtain m where n: "n = Suc m" and m: "maxAttempts - k \<le> m" by (cases n) auto
  obtain r s1 where a: "attemptOpen E winv s = (r, s1)" by force
  obtain c s2 where d: "ask (e_Delay E (delayAmount k)) (emit (EvDelay (delayAmount k)) s1) = (c, s2)" by force
  have np: "r \<noteq> Panic p" for p using a by (cases rule: attemptOpen_cases) auto
  show ?case
  proof (cases "maxAttempts \<le> k")
    case True
    then show ?thesis using n by (subst openAttempts.simps) simp
  next
    case lt: False
    show ?thesis
    proof (cases r)
      case (Ok u)
      then show ?thesis using lt n a openAttempts_accepted [of k E winv s s1] by simp
    next
      case e: (Err e)
      show ?thesis
      proof (cases "k + 1 = maxAttempts")
        case True
        then show ?thesis using lt n a e openAttempts_last [of k E winv s e s1] by auto
      next
        case False
        with lt have k: "k + 1 < maxAttempts" by simp
        have "openSteps m E cfg winv (OpenAttempt (k + 1)) s2 =
            (case openAttempts E winv (k + 1) s2 of (b, t) \<Rightarrow> (if b then Some OpenWatch else None, t))" if "\<not> c"
          by (rule less.hyps) (use k m in auto)
        then show ?thesis using openAttempts_delayed [OF k a [unfolded e] d] lt k n a d e by auto
      qed
    qed (use np in blast)
  qed
qed

lemma openChannel_steps:
  "openChannel E cfg winv us s = (case openSteps 5 E cfg winv OpenCheck s of
      (None, t) \<Rightarrow> (Ended, t)
    | (Some ph, t) \<Rightarrow> watchOpen E winv us t)"
proof -
  obtain r s1 where c: "canCreateChannel E cfg winv s = (r, s1)" by force
  then have np: "r \<noteq> Panic m" for m using canCreateChannel_not_Panic by blast
  have five: "(5::nat) = Suc 4" by simp
  have four: "openSteps 4 E cfg winv (OpenAttempt 0) s1 =
     (case openAttempts E winv 0 s1 of (b, t) \<Rightarrow> (if b then Some OpenWatch else None, t))"
    by (rule openSteps_attempts) (simp add: maxAttempts_def)
  show ?thesis unfolding openChannel_def five openSteps.simps openStep.simps c
    using np four by (cases r) (auto split: prod.split)
qed


section \<open>One step\<close>

text \<open>The requests and the acceptance a goroutine can still add to the trace.\<close>

fun opensLeft :: "openPhase option \<Rightarrow> nat" where
  "opensLeft (Some OpenCheck) = maxAttempts"
| "opensLeft (Some (OpenAttempt k)) = maxAttempts - k"
| "opensLeft _ = 0"

fun acceptsLeft :: "openPhase option \<Rightarrow> nat" where
  "acceptsLeft (Some OpenCheck) = 1"
| "acceptsLeft (Some (OpenAttempt k)) = 1"
| "acceptsLeft _ = 0"

definition openEvents :: "waitingInvoice \<Rightarrow> event list set" where
  "openEvents w =
     {a @ map EvDelay ds | a ds. a \<in> {[], [EvOpenChannel (TargetNode w) (ChannelSize w)],
        [EvOpenChannel (TargetNode w) (ChannelSize w), EvAccepted (TargetNode w) (ChannelSize w)]}}"

lemma filter_delays [simp]: "filter isOpenEv (map EvDelay ds) = []" "filter isAcceptedEv (map EvDelay ds) = []"
  by (induction ds) auto

lemma openStep_effect:
  assumes "openStep E cfg w ph s = (nxt, t)"
  shows "\<exists>evs \<in> openEvents w. traced evs s t \<and>
     length (filter isOpenEv evs) + opensLeft nxt \<le> opensLeft (Some ph) \<and>
     length (filter isAcceptedEv evs) + acceptsLeft nxt \<le> acceptsLeft (Some ph)"
proof (cases ph)
  case OpenCheck
  obtain r s1 where c: "canCreateChannel E cfg w s = (r, s1)" by force
  from canCreateChannel_quiet [OF c] have "traced [] s s1" by (simp add: traced_quiet)
  moreover have "[] \<in> openEvents w" by (simp add: openEvents_def)
  ultimately show ?thesis using assms c canCreateChannel_not_Panic OpenCheck
    by (cases r) (auto intro!: bexI [of _ "[]"])
next
  case OpenWatch
  moreover have "[] \<in> openEvents w" by (simp add: openEvents_def)
  ultimately show ?thesis using assms by (auto simp: traced_quiet intro!: bexI [of _ "[]"])
next
  case ph: (OpenAttempt k)
  let ?req = "EvOpenChannel (TargetNode w) (ChannelSize w)" and ?d = "delayAmount k"
  obtain r s1 where a: "attemptOpen E w s = (r, s1)" by force
  obtain c s2 where d: "ask (e_Delay E ?d) (emit (EvDelay ?d) s1) = (c, s2)" by force
  from quiet_ask [OF this] have td: "traced [EvDelay ?d] s1 s2"
    by (simp add: traced_def quiet_def emit_def)
  have mem: "a @ map EvDelay ds \<in> openEvents w"
    if "a \<in> {[], [?req], [?req, EvAccepted (TargetNode w) (ChannelSize w)]}" for a ds
    using that by (auto simp: openEvents_def)
  show ?thesis
  proof (cases "maxAttempts \<le> k")
    case True
    with assms ph have "nxt = Some OpenWatch" "t = s" by auto
    with mem [of "[]" "[]"] show ?thesis by (auto simp: traced_quiet intro!: bexI [of _ "[]"])
  next
    case k: False
    consider (ok) "r = Ok ()" "traced [?req, EvAccepted (TargetNode w) (ChannelSize w)] s s1"
      | (err) evs e where "r = Err e" "evs \<in> {[], [?req]}" "traced evs s s1"
      using a by (cases rule: attemptOpen_cases) (auto simp flip: traced_quiet)
    then show ?thesis
    proof cases
      case ok
      with assms ph k a have "nxt = Some OpenWatch" "t = s1" by auto
      moreover have "[?req, EvAccepted (TargetNode w) (ChannelSize w)] \<in> openEvents w"
        using mem [of "[?req, EvAccepted (TargetNode w) (ChannelSize w)]" "[]"] by simp
      ultimately show ?thesis using ok(2) k ph
        by (intro bexI [of _ "[?req, EvAccepted (TargetNode w) (ChannelSize w)]"]) simp_all
    next
      case err
      have "evs \<in> openEvents w" "evs @ [EvDelay ?d] \<in> openEvents w"
        using mem [of evs "[]"] mem [of evs "[?d]"] err(2) by auto
      moreover from err(1) assms ph k a d have "nxt = None \<and> t = s1 \<or>
          k + 1 < maxAttempts \<and> t = s2 \<and> nxt \<in> {None, Some (OpenAttempt (k + 1))}"
        by (auto split: if_splits bool.splits)
      moreover note err(3) traced_trans [OF err(3) td]
      ultimately show ?thesis using err(2) k ph
        by (elim disjE conjE; intro bexI [of _ "if t = s1 \<and> nxt = None then evs else evs @ [EvDelay ?d]"])
          (auto split: if_splits)
    qed
  qed
qed

section \<open>A concrete opening\<close>

lemma sample_attemptOpen:
  "attemptOpen sampleEnv sampleInvoice s = (Ok (), s\<lparr>events := events s @
     [EvOpenChannel sampleNode 1048576, EvAccepted sampleNode 1048576]\<rparr>)"
  by (simp add: attemptOpen_def isConnectedToNode_def hasUnspentForNewChannel_def rpc_def requireR_def
      emit_def sampleEnv_def)

lemma sample_canCreate:
  "canCreateChannel sampleEnv sampleCfg sampleInvoice s = (Ok (), s)"
  by (simp add: canCreateChannel_def rpc_def sampleEnv_def sampleCfg_def)

lemma sample_openChannel:
  "openChannel sampleEnv sampleCfg sampleInvoice [] s = (Reading, s\<lparr>events := events s @
     [EvOpenChannel sampleNode 1048576, EvAccepted sampleNode 1048576]\<rparr>)"
  using openAttempts_accepted [OF _ sample_attemptOpen, of 0 s]
  by (simp add: openChannel_def sample_canCreate maxAttempts_def)

section \<open>Properties\<close>

text \<open>
  C13. The goroutine of a paid invoice sends at most three requests, all for the invoice's node and
  size, and none after one has been accepted. The pauses it starts are the first of 30 and 60
  seconds. It touches no file and starts no goroutine, and in the table it can only forget its own
  node.
\<close>

theorem opening_bounded:
  assumes "openChannel E cfg winv us s = (st, t)"
  shows "files t = files s \<and> tasks t = tasks s \<and>
    (pendingChans t = pendingChans s \<or> pendingChans t = (pendingChans s)(TargetNode winv := None)) \<and>
    (\<exists>tr. events t = events s @ tr \<and>
       length (filter isOpenEv tr) \<le> 3 \<and>
       set (filter isOpenEv tr) \<subseteq> {EvOpenChannel (TargetNode winv) (ChannelSize winv)} \<and>
       (filter isAcceptedEv tr = [] \<or>
        (\<exists>tr'. tr = tr' @ [EvOpenChannel (TargetNode winv) (ChannelSize winv),
             EvAccepted (TargetNode winv) (ChannelSize winv)] \<and> filter isAcceptedEv tr' = [])) \<and>
       (\<exists>n \<le> 2. List.map_filter delayOf tr = take n [30 * second, 60 * second]))"
proof -
  have d: "\<exists>n \<le> 2. List.map_filter delayOf tr = take n [30 * second, 60 * second]"
    if "attemptTrace (TargetNode winv) (ChannelSize winv) 0 b tr" for b tr
  proof -
    from attemptTrace_delays [OF that] obtain n where
      n: "List.map_filter delayOf tr = map delayAmount [0..<n]" "n < 3" by (auto simp: maxAttempts_def)
    then consider "n = 0" | "n = 1" | "n = 2" by linarith
    then have "map delayAmount [0..<n] = take n [30 * second, 60 * second]"
      by cases (simp_all add: delayAmount_def upt_conv_Cons)
    with n show ?thesis by (intro exI [of _ n]) simp
  qed
  from assms show ?thesis
  proof (cases rule: openChannel_trace)
    case rejected
    then show ?thesis by (auto simp: quiet_def map_filter_simps intro: exI [of _ 0])
  next
    case (given_up tr)
    with attemptTrace_open [OF given_up(3)] attemptTrace_accepted [OF given_up(3)] d [OF given_up(3)]
    show ?thesis by (auto simp: traced_def maxAttempts_def)
  next
    case (watched tr u)
    from watchOpen_frame [OF watched(3)] have "files t = files u \<and> tasks t = tasks u \<and> events t = events u \<and>
      (pendingChans t = pendingChans u \<or> pendingChans t = (pendingChans u)(TargetNode winv := None))"
      by (auto simp: dropPending_def)
    with watched attemptTrace_open [OF watched(2)] attemptTrace_accepted [OF watched(2)] d [OF watched(2)]
    show ?thesis by (auto simp: traced_def maxAttempts_def)
  qed
qed

theorem opening_bounded_witness:
  "\<exists>tr. events (snd (openChannel sampleEnv sampleCfg sampleInvoice [] sampleState)) = tr \<and>
     length (filter isOpenEv tr) \<le> 3"
  using opening_bounded [OF sample_openChannel [of sampleState]]
  unfolding sample_openChannel by (auto simp: sampleState_def)

text \<open>
  Cutting the goroutine at its delays and reads loses nothing: five steps of \<open>openStep\<close> and then
  the updates are \<open>openChannel\<close>.
\<close>

lemma opening_in_steps:
  "openChannel E cfg winv us s = (case openSteps 5 E cfg winv OpenCheck s of
      (None, t) \<Rightarrow> (Ended, t)
    | (Some ph, t) \<Rightarrow> watchOpen E winv us t)"
  by (rule openChannel_steps)

text \<open>
  C36. The opening goroutine always gets through: whatever dcrlnd, the timers and the context answer,
  after five steps it has ended or is reading the updates of an accepted request, and more steps
  change nothing.
\<close>

theorem opening_terminates:
  "fst (openSteps (5 + n) E cfg winv OpenCheck s) \<in> {None, Some OpenWatch} \<and>
   openSteps (5 + n) E cfg winv OpenCheck s = openSteps 5 E cfg winv OpenCheck s"
proof -
  have a: "openSteps (4 + n) E cfg winv (OpenAttempt 0) t =
      (case openAttempts E winv 0 t of (b, u) \<Rightarrow> (if b then Some OpenWatch else None, u))" for n t
    by (rule openSteps_attempts) (simp add: maxAttempts_def)
  have e: "openSteps (5 + n) E cfg winv OpenCheck s = (case canCreateChannel E cfg winv s of
      (Ok _, t) \<Rightarrow> openSteps (4 + n) E cfg winv (OpenAttempt 0) t | (_, t) \<Rightarrow> (None, t))" for n
    by (simp add: eval_nat_numeral split: prod.split res.split)
  have "openSteps (5 + n) E cfg winv OpenCheck s = openSteps (5 + 0) E cfg winv OpenCheck s"
    unfolding e a ..
  moreover have "fst (openSteps (5 + n) E cfg winv OpenCheck s) \<in> {None, Some OpenWatch}"
    unfolding e a by (simp split: prod.split res.split)
  ultimately show ?thesis by simp
qed

text \<open>
  Reading the updates drops the node's reservation exactly when a "channel open" update with a
  decodable transaction id arrives before the stream ends, and changes nothing else.
\<close>

lemma reservation_dropped_on_open:
  "snd (watchOpen E winv us s) = (if opensChannel E us then dropPending (TargetNode winv) s else s)"
  using watchOpen_opened [of E us winv s] watchOpen_not_opened [of E us winv s] by simp

end
