(* ===== verification/Invoice_Listener.thy ===== *)
theory Invoice_Listener
  imports Create_Invoice
begin

text \<open>
  \<open>listenToInvoices\<close> of \<open>server/server.go\<close>: the goroutine that turns invoice updates of dcrlnd into
  channel openings. \<open>handleInvoiceUpdate\<close> is the body of the inner loop; the subscriptions and the
  updates they deliver are the input. The listener is the only code that removes invoice files.
\<close>

section \<open>The code\<close>

definition handleInvoiceUpdate :: "'w env \<Rightarrow> config \<Rightarrow> invoice \<Rightarrow> 'w sys \<Rightarrow> unit res \<times> 'w sys" where
  "handleInvoiceUpdate E cfg i s =
     (let fpath = invoicePath cfg (inv_RHash i) in
      case inv_State i of
        InvCanceled \<Rightarrow> removeFile E fpath s
      | InvSettled \<Rightarrow>
          (case readJsonFile E fpath s of
             (Err ErrNotExists, s1) \<Rightarrow> (Ok (), s1)
           | (Err e, s1) \<Rightarrow> (Err e, s1)
           | (Panic m, s1) \<Rightarrow> (Panic m, s1)
           | (Ok winv, s1) \<Rightarrow>
               (let wantAtoms = amountForNewChan E cfg (ChannelSize winv) in
                if i64_lt (inv_AmtPaidAtoms i) wantAtoms then (Ok (), s1)
                else bindR (removeFile E fpath s1) (\<lambda>_ s2.
                  (Ok (), spawn (OpenTask winv OpenCheck)
                    (emit (EvSpawnOpen fpath winv (inv_AmtPaidAtoms i)) s2)))))
      | _ \<Rightarrow> (Ok (), s))"

fun handleInvoices :: "'w env \<Rightarrow> config \<Rightarrow> invoice list \<Rightarrow> 'w sys \<Rightarrow> unit res \<times> 'w sys" where
  "handleInvoices E cfg [] s = (Ok (), s)"
| "handleInvoices E cfg (i # is) s =
     bindR (handleInvoiceUpdate E cfg i s) (\<lambda>_ s1. handleInvoices E cfg is s1)"

text \<open>
  One iteration of the outer loop: the subscription fails, or it delivers updates; then the stream
  breaks (true) or the goroutine is still waiting for the next update (false).
\<close>

datatype session = SubFailed | Session "invoice list" bool

definition listenDelay :: "'w env \<Rightarrow> 'w sys \<Rightarrow> 'w sys" where
  "listenDelay E s = snd (ask (e_Delay E second) (emit (EvDelay second) s))"

text \<open>The error the goroutine returns with, \<open>None\<close> while it is still running.\<close>

fun listenToInvoices :: "'w env \<Rightarrow> config \<Rightarrow> session list \<Rightarrow> 'w sys \<Rightarrow> err option \<times> 'w sys" where
  "listenToInvoices E cfg [] s = (None, s)"
| "listenToInvoices E cfg (x # xs) s = (case ask (e_CtxDone E) s of
      (True, s1) \<Rightarrow> (Some ErrCanceled, s1)
    | (False, s1) \<Rightarrow> (case x of
          SubFailed \<Rightarrow> listenToInvoices E cfg xs (listenDelay E s1)
        | Session is broken \<Rightarrow> (case handleInvoices E cfg is s1 of
              (Ok _, s2) \<Rightarrow> if broken then listenToInvoices E cfg xs (listenDelay E s2) else (None, s2)
            | (Err e, s2) \<Rightarrow> (Some e, s2)
            | (Panic m, s2) \<Rightarrow> (Some (ErrOther m), s2))))"

section \<open>One update\<close>

lemma handleInvoiceUpdate_cases:
  assumes "handleInvoiceUpdate E cfg i s = (r, t)"
  obtains (ignored) "r = Ok ()" "quiet s t"
  | (fatal) e where "r = Err e" "quiet s t"
  | (canceled) "r = Ok ()" "inv_State i = InvCanceled"
      "files t = (files s)(invoicePath cfg (inv_RHash i) := None)" "events t = events s"
      "pendingChans t = pendingChans s" "tasks t = tasks s"
  | (paid) winv c where "r = Ok ()" "inv_State i = InvSettled"
      "files s (invoicePath cfg (inv_RHash i)) = Some c" "decodeWaitingInvoice c = Some winv"
      "sint (amountForNewChan E cfg (ChannelSize winv)) \<le> sint (inv_AmtPaidAtoms i)"
      "files t = (files s)(invoicePath cfg (inv_RHash i) := None)"
      "events t = events s @ [EvSpawnOpen (invoicePath cfg (inv_RHash i)) winv (inv_AmtPaidAtoms i)]"
      "pendingChans t = pendingChans s" "tasks t = tasks s @ [OpenTask winv OpenCheck]"
proof (cases "inv_State i")
  case InvCanceled
  with assms have "removeFile E (invoicePath cfg (inv_RHash i)) s = (r, t)"
    by (simp add: handleInvoiceUpdate_def Let_def)
  then show thesis by (cases rule: removeFile_cases) (use InvCanceled that in auto)
next
  case settled: InvSettled
  let ?p = "invoicePath cfg (inv_RHash i)"
  obtain r1 s1 where rd: "readJsonFile E ?p s = (r1, s1)" by force
  then have q: "quiet s s1" by (rule readJsonFile_quiet)
  show thesis
  proof (cases r1)
    case (Err e)
    with assms rd settled q that(1,2) show thesis
      by (cases e) (auto simp: handleInvoiceUpdate_def Let_def)
  next
    case (Panic m)
    with rd readJsonFile_not_Panic show thesis by blast
  next
    case (Ok winv)
    with readJsonFile_Ok rd obtain c where c: "files s ?p = Some c" "decodeWaitingInvoice c = Some winv" by blast
    show thesis
    proof (cases "i64_lt (inv_AmtPaidAtoms i) (amountForNewChan E cfg (ChannelSize winv))")
      case True
      with assms rd settled Ok q that(1) show thesis by (simp add: handleInvoiceUpdate_def Let_def)
    next
      case False
      obtain r2 s2 where rm: "removeFile E ?p s1 = (r2, s2)" by force
      with assms rd settled Ok False have eq: "(r, t) = bindR (r2, s2) (\<lambda>_ s2.
          (Ok (), spawn (OpenTask winv OpenCheck) (emit (EvSpawnOpen ?p winv (inv_AmtPaidAtoms i)) s2)))"
        by (simp add: handleInvoiceUpdate_def Let_def)
      from rm show thesis
      proof (cases rule: removeFile_cases)
        case removed
        with eq q c settled False show thesis
          by (intro that(4)) (auto simp: quiet_def emit_def spawn_def i64_lt_def)
      next
        case (failed e)
        with eq q show thesis by (intro that(2)) (auto intro: quiet_trans)
      qed
    qed
  qed
qed (use assms that(1) in \<open>auto simp: handleInvoiceUpdate_def Let_def\<close>)

lemma spawn_emit_simps [simp]:
  "stored (spawn x (emit e s)) = stored s"
  "tasks (spawn x (emit e s)) = tasks s @ [x]"
  by (simp_all add: stored_def spawn_def emit_def fun_eq_iff)

section \<open>At most one channel per record\<close>

text \<open>
  A file that is there can start one opening. \<open>credit\<close> counts the openings started at a path and
  the one its file still allows; handling updates never raises it.
\<close>

fun isSpawnAt :: "string \<Rightarrow> event \<Rightarrow> bool" where
  "isSpawnAt p (EvSpawnOpen q w a) = (q = p)"
| "isSpawnAt p _ = False"

definition spawnCount :: "string \<Rightarrow> event list \<Rightarrow> nat" where
  "spawnCount p evs = length (filter (isSpawnAt p) evs)"

definition present :: "string \<Rightarrow> 'w sys \<Rightarrow> nat" where
  "present p s = (if files s p = None then 0 else 1)"

definition credit :: "string \<Rightarrow> 'w sys \<Rightarrow> nat" where
  "credit p s = spawnCount p (events s) + present p s"

lemma spawnCount_append [simp]: "spawnCount p (xs @ ys) = spawnCount p xs + spawnCount p ys"
  by (simp add: spawnCount_def)

lemma spawnCount_simps [simp]:
  "spawnCount p [] = 0"
  "spawnCount p (e # evs) = (if isSpawnAt p e then 1 else 0) + spawnCount p evs"
  by (simp_all add: spawnCount_def)

lemma credit_quiet: "quiet s t \<Longrightarrow> credit p t = credit p s"
  by (simp add: credit_def present_def quiet_def)

lemma handleInvoiceUpdate_credit: "handleInvoiceUpdate E cfg i s = (r, t) \<Longrightarrow> credit p t \<le> credit p s"
  by (erule handleInvoiceUpdate_cases) (auto simp: credit_quiet, auto simp: credit_def present_def)

lemma handleInvoices_credit: "handleInvoices E cfg is s = (r, t) \<Longrightarrow> credit p t \<le> credit p s"
proof (induction "is" arbitrary: s)
  case (Cons i "is")
  obtain r1 s1 where h: "handleInvoiceUpdate E cfg i s = (r1, s1)" by force
  from handleInvoiceUpdate_credit [OF h] have le: "credit p s1 \<le> credit p s" .
  show ?case
  proof (cases r1)
    case (Ok u)
    with h Cons.prems Cons.IH le show ?thesis by fastforce
  qed (use h Cons.prems le in auto)
qed simp

lemma credit_listenDelay [simp]: "credit p (listenDelay E s) = credit p s"
  by (auto simp: listenDelay_def ask_def emit_def credit_def present_def split: prod.split)

lemma listenToInvoices_credit: "listenToInvoices E cfg xs s = (r, t) \<Longrightarrow> credit p t \<le> credit p s"
proof (induction xs arbitrary: s)
  case (Cons x xs)
  obtain stop s1 where d: "ask (e_CtxDone E) s = (stop, s1)" by force
  from credit_quiet [OF quiet_ask [OF d]] have c1: "credit p s1 = credit p s" .
  show ?case
  proof (cases "stop \<or> x = SubFailed")
    case True
    with d c1 Cons.prems Cons.IH [of "listenDelay E s1"] show ?thesis by (cases stop) auto
  next
    case False
    then obtain "is" broken where x: "x = Session is broken" "\<not> stop" by (cases x) auto
    obtain r2 s2 where h: "handleInvoices E cfg is s1 = (r2, s2)" by force
    from handleInvoices_credit [OF h, of p] c1 have c2: "credit p s2 \<le> credit p s" by simp
    show ?thesis
    proof (cases r2)
      case (Ok u)
      with d x h Cons.prems Cons.IH [of "listenDelay E s2"] c2 show ?thesis by (cases broken) auto
    qed (use d x h Cons.prems c2 in auto)
  qed
qed simp

lemma settled_record_opens:
  assumes "inv_State i = InvSettled"
    and "stored s (invoicePath cfg (inv_RHash i)) = Some winv"
    and "sint (amountForNewChan E cfg (ChannelSize winv)) \<le> sint (inv_AmtPaidAtoms i)"
    and E: "E = with_good_fs E'"
  shows "\<exists>t. handleInvoiceUpdate E cfg i s = (Ok (), t) \<and>
     tasks t = tasks s @ [OpenTask winv OpenCheck] \<and>
     stored t = (stored s)(invoicePath cfg (inv_RHash i) := None)"
proof -
  let ?p = "invoicePath cfg (inv_RHash i)"
  from invoice_store.get_some [OF assms(2), of E'] obtain s1 where
    rd: "readJsonFile E ?p s = (Ok winv, s1)" and l: "stored s1 = stored s" unfolding E by blast
  from invoice_store.del_ok [of E' ?p s1] obtain s2 where
    rm: "removeFile E ?p s1 = (Ok (), s2)" and l2: "stored s2 = (stored s1)(?p := None)" unfolding E by blast
  have "tasks s2 = tasks s" using readJsonFile_quiet [OF rd] rm
    by (cases rule: removeFile_cases [OF rm]) (auto simp: quiet_def)
  then show ?thesis using assms(1,3) rd rm l l2
    by (simp add: handleInvoiceUpdate_def Let_def i64_lt_def)
qed

section \<open>Properties\<close>

text \<open>
  C24. A payment in full is never swallowed: when an invoice is settled for at least the price of its stored record, then the
  opening of the recorded channel is started and the record used up, or the file system failed to open or to remove
  the file; then everything is as before, so that the update can be handled again, and the error ends the listener.
\<close>

theorem paid_invoice_opens:
  assumes "handleInvoiceUpdate E cfg i s = (r, t)" and "inv_State i = InvSettled"
    and "files s (invoicePath cfg (inv_RHash i)) = Some c" and "decodeWaitingInvoice c = Some w"
    and "sint (amountForNewChan E cfg (ChannelSize w)) \<le> sint (inv_AmtPaidAtoms i)"
  shows "let p = invoicePath cfg (inv_RHash i) in
    r = Ok () \<and> files t = (files s)(p := None) \<and> tasks t = tasks s @ [OpenTask w OpenCheck] \<and>
      events t = events s @ [EvSpawnOpen p w (inv_AmtPaidAtoms i)] \<and> pendingChans t = pendingChans s \<or>
    (\<exists>m u u'. (e_Open E p u = (Some m, u') \<or> e_Remove E p u = (Some m, u')) \<and> r = Err (ErrOther m) \<and> quiet s t)"
proof -
  let ?p = "invoicePath cfg (inv_RHash i)"
  have "\<not> i64_lt (inv_AmtPaidAtoms i) (amountForNewChan E cfg (ChannelSize w))"
    using assms(5) by (simp add: i64_lt_def)
  with assms show ?thesis
    by (auto simp: handleInvoiceUpdate_def readJsonFile_def removeFile_def ask_def Let_def quiet_def spawn_def emit_def
        split: prod.splits option.splits)
qed

theorem paid_invoice_opens_witness:
  "\<exists>t. tasks t = [OpenTask sampleInvoice OpenCheck] \<and>
     handleInvoiceUpdate sampleEnv sampleCfg
       \<lparr>inv_State = InvSettled, inv_RHash = [1, 2, 3], inv_AmtPaidAtoms = 65536\<rparr>
       (sampleState\<lparr>files := [invoicePath sampleCfg [1, 2, 3] \<mapsto> encodeWaitingInvoice sampleInvoice]\<rparr>) = (Ok (), t)"
proof -
  let ?i = "\<lparr>inv_State = InvSettled, inv_RHash = [1, 2, 3], inv_AmtPaidAtoms = 65536\<rparr>"
  let ?s = "sampleState\<lparr>files := [invoicePath sampleCfg [1, 2, 3] \<mapsto> encodeWaitingInvoice sampleInvoice]\<rparr>"
  obtain r t where h: "handleInvoiceUpdate sampleEnv sampleCfg ?i ?s = (r, t)" by force
  have d: "decodeWaitingInvoice (encodeWaitingInvoice sampleInvoice) = Some sampleInvoice"
    by (simp add: decode_encode_winv wf_winv_def)
  have "e_Open sampleEnv p u \<noteq> (Some m, u')" "e_Remove sampleEnv p u \<noteq> (Some m, u')" for p m u u'
    by (simp_all add: sampleEnv_def)
  with paid_invoice_opens [OF h _ _ d] h show ?thesis by (auto simp: sample_price sampleState_def Let_def)
qed

text \<open>
  C22. An update starts an opening only when the invoice is settled, a record of it is stored, and at
  least the price was paid; the record is removed first. Any other update starts nothing, and only
  a cancellation removes a file.
\<close>

theorem opening_needs_payment:
  assumes "handleInvoiceUpdate E cfg i s = (r, t)"
  shows "events t = events s \<and> tasks t = tasks s \<and>
      (files t = files s \<or> inv_State i = InvCanceled \<and> files t = (files s)(invoicePath cfg (inv_RHash i) := None)) \<or>
    (\<exists>w c. inv_State i = InvSettled \<and> files s (invoicePath cfg (inv_RHash i)) = Some c \<and>
       decodeWaitingInvoice c = Some w \<and>
       sint (amountForNewChan E cfg (ChannelSize w)) \<le> sint (inv_AmtPaidAtoms i) \<and>
       files t = (files s)(invoicePath cfg (inv_RHash i) := None) \<and>
       tasks t = tasks s @ [OpenTask w OpenCheck])"
  using assms by (cases rule: handleInvoiceUpdate_cases) (auto simp: quiet_def)

theorem opening_needs_payment_witness:
  "tasks (snd (handleInvoiceUpdate sampleEnv sampleCfg
     \<lparr>inv_State = InvSettled, inv_RHash = [9], inv_AmtPaidAtoms = 65536\<rparr> sampleState)) = []"
proof -
  let ?i = "\<lparr>inv_State = InvSettled, inv_RHash = [9], inv_AmtPaidAtoms = 65536\<rparr>"
  obtain r t where h: "handleInvoiceUpdate sampleEnv sampleCfg ?i sampleState = (r, t)" by force
  from opening_needs_payment [OF h] h show ?thesis by (auto simp: sampleState_def)
qed

text \<open>
  C23. However often dcrlnd repeats an update, and whatever subscriptions come and go, the listener
  starts at most one opening for a record that is stored and none for a path without a file.
\<close>

theorem one_opening_per_record:
  assumes "listenToInvoices E cfg xs s = (r, t)"
  shows "spawnCount p (events t) \<le> spawnCount p (events s) + (if files s p = None then 0 else 1)"
  using listenToInvoices_credit [OF assms, of p] by (simp add: credit_def present_def split: if_splits)

theorem one_opening_per_record_witness:
  "spawnCount (invoicePath sampleCfg [1]) (events (snd (listenToInvoices sampleEnv sampleCfg
     [SubFailed, Session (replicate 3 \<lparr>inv_State = InvSettled, inv_RHash = [1], inv_AmtPaidAtoms = 65536\<rparr>) True]
     (sampleState\<lparr>files := [invoicePath sampleCfg [1] \<mapsto> encodeWaitingInvoice sampleInvoice]\<rparr>)))) \<le> 1"
proof -
  let ?xs = "[SubFailed, Session (replicate 3 \<lparr>inv_State = InvSettled, inv_RHash = [1], inv_AmtPaidAtoms = 65536\<rparr>) True]"
  let ?s = "sampleState\<lparr>files := [invoicePath sampleCfg [1] \<mapsto> encodeWaitingInvoice sampleInvoice]\<rparr>"
  obtain r t where h: "listenToInvoices sampleEnv sampleCfg ?xs ?s = (r, t)" by (meson surj_pair)
  from one_opening_per_record [OF h, of "invoicePath sampleCfg [1]"] h show ?thesis
    by (simp add: sampleState_def del: listenToInvoices.simps)
qed

end
