(* ===== verification/Chan_Score.thy ===== *)
theory Chan_Score
  imports Go_Float64
begin

text \<open>
  \<open>server/chanscore.go\<close>: the activity score of a channel, atoms sent per atom of capacity and hour
  of lifetime. The lemmas give the score as a value (no NaN, no infinity, no overflow), its
  monotonicity, which is what makes sorting by it meaningful, and its distance from the exact
  quotient. The two panics of the code are the \<open>Panic\<close> outcomes.
\<close>

type_synonym chanActivityScore = f64

definition toPercent :: "chanActivityScore \<Rightarrow> f64" where
  "toPercent s = f64_mul s (Fin 100)"

definition channelActivity :: "i64 \<Rightarrow> i64 \<Rightarrow> duration \<Rightarrow> chanActivityScore res" where
  "channelActivity totalSentAtoms channelSizeAtoms lifetime =
     (if i64_le lifetime 0 then Panic ''lifetime cannot be <= 0''
      else if i64_le channelSizeAtoms 0 then Panic ''channel size cannot be <= 0''
      else let hours0 = f64_of_i64 (i64_div lifetime hour);
               hours = (if f64_le hours0 (Fin 0) then Fin 1 else hours0)
           in Ok (f64_div (f64_div (f64_of_i64 totalSentAtoms) (f64_of_i64 channelSizeAtoms)) hours))"

section \<open>The score as a value\<close>

text \<open>Whole hours of lifetime, at least one.\<close>

definition life_hours :: "duration \<Rightarrow> int" where
  "life_hours l = max 1 (sint l div 3600000000000)"

definition score_of :: "int \<Rightarrow> int \<Rightarrow> int \<Rightarrow> rat" where
  "score_of sent cap h = rnd_rat (rnd_rat (rnd_rat (of_int sent) / rnd_rat (of_int cap)) / of_int h)"

lemma rnd_rat_ge_1: "1 \<le> n \<Longrightarrow> 1 \<le> rnd_rat (of_int n)"
  using rnd_rat_mono [of 1 "of_int n"] rnd_rat_pow2 [of 0] by simp

lemma abs_divide_ge_1:
  fixes x y b :: rat
  assumes "1 \<le> y" and "\<bar>x\<bar> \<le> b"
  shows "\<bar>x / y\<bar> \<le> b"
proof -
  have "\<bar>x / y\<bar> = \<bar>x\<bar> / y" using assms by simp
  also have "\<dots> \<le> \<bar>x\<bar> / 1" using assms by (intro divide_left_mono) auto
  finally show ?thesis using assms by simp
qed

lemma sint_abs_i64: "\<bar>sint (a :: i64)\<bar> \<le> 2 ^ 64"
  using i64_bounds [of a] by (simp add: abs_le_iff)

lemma life_hours_bounds: "1 \<le> life_hours l" "life_hours l \<le> 2 ^ 53"
  using i64_bounds [of l] by (auto simp: life_hours_def)

lemma hours_eq:
  assumes "0 < sint l"
  shows "(if f64_le (f64_of_i64 (i64_div l hour)) (Fin 0) then Fin 1 else f64_of_i64 (i64_div l hour))
         = Fin (of_int (life_hours l))"
proof -
  have s: "sint (i64_div l hour) = sint l div 3600000000000"
    using assms by (subst sint_i64_div_pos) auto
  have "0 \<le> sint l div 3600000000000" "sint l div 3600000000000 \<le> 2 ^ 53"
    using assms i64_bounds [of l] by (auto simp: pos_imp_zdiv_nonneg_iff)
  then have "f64_of_i64 (i64_div l hour) = Fin (of_int (sint l div 3600000000000))"
    by (simp add: f64_of_i64_def s f64_of_int_exact)
  moreover have "sint l div 3600000000000 \<le> 0 \<longleftrightarrow> life_hours l \<noteq> sint l div 3600000000000"
    by (auto simp: life_hours_def max_def)
  ultimately show ?thesis using life_hours_bounds(1) [of l]
    by (auto simp: life_hours_def max_def simp del: of_int_div)
qed

lemma channelActivity_value:
  assumes "0 < sint l" and "0 < sint c"
  shows "channelActivity s c l = Ok (Fin (score_of (sint s) (sint c) (life_hours l)))"
proof -
  let ?a = "rnd_rat (of_int (sint s))" and ?b = "rnd_rat (of_int (sint c))"
  have a: "f64_of_i64 s = Fin ?a" and al: "\<bar>?a\<bar> \<le> 2 ^ 64"
    using f64_of_int_finite [OF sint_abs_i64] by (simp_all add: f64_of_i64_def)
  have b: "f64_of_i64 c = Fin ?b"
    using f64_of_int_finite [OF sint_abs_i64] by (simp add: f64_of_i64_def)
  have b1: "1 \<le> ?b" using assms by (intro rnd_rat_ge_1) simp
  have big: "(2 :: rat) ^ 64 \<le> 2 ^ 1023" by simp
  have q: "\<bar>?a / ?b\<bar> \<le> 2 ^ 64" using abs_divide_ge_1 [OF b1 al] .
  then have ql: "\<bar>rnd_rat (?a / ?b)\<bar> \<le> 2 ^ 64" by (rule rnd_rat_abs_le)
  have h1: "(1 :: rat) \<le> of_int (life_hours l)" using life_hours_bounds(1) by simp
  have "\<bar>rnd_rat (?a / ?b) / of_int (life_hours l)\<bar> \<le> 2 ^ 64" using abs_divide_ge_1 [OF h1 ql] .
  with q big b1 h1 show ?thesis
    using assms by (simp add: channelActivity_def i64_le_def hours_eq a b rnd_bounded score_of_def)
qed

lemma channelActivity_panics:
  "sint l \<le> 0 \<Longrightarrow> channelActivity s c l = Panic ''lifetime cannot be <= 0''"
  "0 < sint l \<Longrightarrow> sint c \<le> 0 \<Longrightarrow> channelActivity s c l = Panic ''channel size cannot be <= 0''"
  by (auto simp: channelActivity_def i64_le_def)

lemma channelActivity_Ok_iff:
  "(\<exists>x. channelActivity s c l = Ok x) \<longleftrightarrow> 0 < sint l \<and> 0 < sint c"
  using channelActivity_value [of l c s] channelActivity_panics [of l s c] channelActivity_panics [of l c s]
  by (cases "0 < sint l"; cases "0 < sint c") auto

lemma channelActivity_not_Err: "channelActivity s c l \<noteq> Err e"
  by (simp add: channelActivity_def Let_def)

text \<open>Every score is an ordinary number: sorting by \<open><\<close> never meets a NaN.\<close>

lemma channelActivity_not_NaN: "channelActivity s c l = Ok x \<Longrightarrow> x \<noteq> NaN"
  using channelActivity_Ok_iff [of s c l] channelActivity_value [of l c s] by auto

section \<open>Monotonicity and accuracy\<close>

lemma score_of_mono_sent:
  assumes "0 < c" and "0 < h" and "s \<le> s'"
  shows "score_of s c h \<le> score_of s' c h"
proof -
  have "rnd_rat (of_int s) \<le> rnd_rat (of_int s')" using assms by (intro rnd_rat_mono) simp
  moreover have "0 < rnd_rat (of_int c)" using rnd_rat_ge_1 [of c] assms by simp
  ultimately have "rnd_rat (of_int s) / rnd_rat (of_int c) \<le> rnd_rat (of_int s') / rnd_rat (of_int c)"
    by (simp add: divide_right_mono)
  then show ?thesis using assms
    by (auto simp: score_of_def intro!: rnd_rat_mono divide_right_mono)
qed

lemma score_of_nonneg: "0 \<le> s \<Longrightarrow> 0 < c \<Longrightarrow> 0 < h \<Longrightarrow> 0 \<le> score_of s c h"
  using score_of_mono_sent [of c h 0 s] by (simp add: score_of_def)

lemma score_of_antimono_hours:
  assumes "0 \<le> s" and "0 < c" and "0 < h" and "h \<le> h'"
  shows "score_of s c h' \<le> score_of s c h"
proof -
  let ?q = "rnd_rat (rnd_rat (of_int s) / rnd_rat (of_int c))"
  have "0 \<le> ?q" using assms rnd_rat_ge_1 [of c] by (intro rnd_rat_nonneg divide_nonneg_pos) auto
  then show ?thesis using assms unfolding score_of_def
    by (intro rnd_rat_mono divide_left_mono) auto
qed

lemma score_of_antimono_cap:
  assumes "0 \<le> s" and "0 < c" and "c \<le> c'" and "0 < h"
  shows "score_of s c' h \<le> score_of s c h"
proof -
  have "rnd_rat (of_int c) \<le> rnd_rat (of_int c')" using assms by (intro rnd_rat_mono) simp
  moreover have "0 < rnd_rat (of_int c)" using rnd_rat_ge_1 [of c] assms by simp
  moreover have "0 \<le> rnd_rat (of_int s)" using assms by (simp add: rnd_rat_nonneg)
  ultimately have "rnd_rat (of_int s) / rnd_rat (of_int c') \<le> rnd_rat (of_int s) / rnd_rat (of_int c)"
    by (intro divide_left_mono) auto
  then show ?thesis using assms
    by (auto simp: score_of_def intro!: rnd_rat_mono divide_right_mono)
qed

text \<open>
  Rounding of a quotient whose exact value is not tiny. The two divisions of the code each add a
  relative error of at most \<open>2^-53\<close>.
\<close>

lemma score_of_accuracy:
  assumes "0 < s" "s \<le> 2 ^ 53" "0 < c" "c \<le> 2 ^ 53" "1 \<le> h" "h \<le> 2 ^ 53"
  shows "\<bar>score_of s c h - of_int s / of_int c / of_int h\<bar> \<le> of_int s / of_int c / of_int h / 2 ^ 51"
proof -
  define q where "q = (of_int s / of_int c :: rat)"
  define p where "p = rnd_rat q"
  define H where "H = (of_int h :: rat)"
  have cr: "(1 :: rat) \<le> of_int c" "(of_int c :: rat) \<le> 2 ^ 53" and sr: "(1 :: rat) \<le> of_int s"
    and H: "1 \<le> H" "H \<le> 2 ^ 53"
    using assms of_int_le_iff [of c "2 ^ 53", where 'a = rat] of_int_le_iff [of h "2 ^ 53", where 'a = rat]
    by (auto simp: H_def)
  have so: "score_of s c h = rnd_rat (p / H)"
    using assms by (simp add: score_of_def rnd_rat_int q_def p_def H_def)
  have q: "1 / 2 ^ 53 \<le> q" unfolding q_def using cr sr by (intro frac_le) auto
  have e1: "\<bar>p - q\<bar> \<le> q / 2 ^ 53"
    using rnd_rat_rel_error [of q] q by (simp add: p_def power_int_minus field_simps)
  have "q / 2 ^ 53 \<le> q / 2" using q by (intro divide_left_mono) auto
  with e1 have "\<bar>p - q\<bar> \<le> q / 2" by (rule order_trans)
  moreover have "0 \<le> q" using q by (rule order_trans [rotated]) simp
  ultimately have "q / 2 \<le> p" and p2: "p \<le> 2 * q" by linarith+
  with q have p: "1 / 2 ^ 54 \<le> p" by simp
  have "1 / 2 ^ 54 / 2 ^ 53 \<le> p / H" using p H by (intro frac_le) auto
  moreover have "pow2 (- 1022) \<le> 1 / 2 ^ 54 / 2 ^ 53" by (simp add: power_int_minus)
  ultimately have "pow2 (- 1022) \<le> \<bar>p / H\<bar>" by linarith
  then have "\<bar>rnd_rat (p / H) - p / H\<bar> \<le> \<bar>p / H\<bar> / 2 ^ 53"
    by (rule rnd_rat_rel_error)
  moreover have "\<bar>p / H\<bar> / 2 ^ 53 \<le> 2 * (q / H) / 2 ^ 53"
  proof (rule divide_right_mono)
    have "0 \<le> p / H" using p H by (intro divide_nonneg_pos) auto
    moreover have "p / H \<le> (2 * q) / H" using p2 H by (intro divide_right_mono) auto
    ultimately show "\<bar>p / H\<bar> \<le> 2 * (q / H)" by simp
  qed simp
  ultimately have e2: "\<bar>rnd_rat (p / H) - p / H\<bar> \<le> 2 * (q / H) / 2 ^ 53" by (rule order_trans)
  have "\<bar>p / H - q / H\<bar> = \<bar>p - q\<bar> / H" using H by (simp add: diff_divide_distrib [symmetric])
  also have "\<dots> \<le> q / 2 ^ 53 / H" using e1 H by (intro divide_right_mono) auto
  finally have e3: "\<bar>p / H - q / H\<bar> \<le> (q / H) / 2 ^ 53" by simp
  have "0 \<le> q / H" using q H by (intro divide_nonneg_pos) auto
  then show ?thesis using e2 e3 unfolding so q_def [symmetric] H_def [symmetric] by simp
qed

section \<open>Properties\<close>

text \<open>
  \<open>channelActivity\<close> panics exactly on a lifetime or a capacity that is not positive; otherwise
  its score is an ordinary number.
\<close>

lemma score_defined:
  "(if 0 < sint l \<and> 0 < sint c then \<exists>q. channelActivity s c l = Ok (Fin q)
    else \<exists>m. channelActivity s c l = Panic m)"
  using channelActivity_value [of l c s] channelActivity_panics(1) [of l s c] channelActivity_panics(2) [of l c s]
  by (cases "0 < sint l"; cases "0 < sint c") auto

text \<open>
  C27. For amounts up to \<open>2^53\<close> atoms the score is the exact quotient of atoms sent, capacity and whole
  hours (at least one), up to a relative error of \<open>2^-51\<close>.
\<close>

theorem score_accurate:
  assumes "0 < sint s" "sint s \<le> 2 ^ 53" "0 < sint c" "sint c \<le> 2 ^ 53" "0 < sint l"
  shows "\<exists>q. channelActivity s c l = Ok (Fin q) \<and>
    (let x = of_int (sint s) / of_int (sint c) / of_int (max 1 (sint l div 3600000000000))
     in \<bar>q - x\<bar> \<le> x / 2 ^ 51)"
  using score_of_accuracy [OF assms(1-4) life_hours_bounds, of l] channelActivity_value [OF assms(5,3), of s]
  by (simp add: Let_def life_hours_def)

theorem score_accurate_witness:
  "\<exists>q. channelActivity 500000 1000000 7200000000000 = Ok (Fin q) \<and> \<bar>q - 1 / 4\<bar> \<le> 1 / 4 / 2 ^ 51"
  using score_accurate [of 500000 1000000 7200000000000] by (simp add: Let_def mult.commute)

text \<open>
  The order by score is the order by activity: more atoms sent over no more capacity in no more
  time never gives a lower score.
\<close>

lemma score_monotone:
  assumes "channelActivity s c l = Ok x" and "channelActivity s' c' l' = Ok y"
    and "sint s \<le> sint s'" and "0 \<le> sint s" and "sint c' \<le> sint c" and "sint l' \<le> sint l"
  shows "f64_le x y"
proof -
  have p: "0 < sint l" "0 < sint c" "0 < sint l'" "0 < sint c'"
    using assms(1,2) channelActivity_Ok_iff by blast+
  have h: "1 \<le> life_hours l'" "1 \<le> life_hours l" "life_hours l' \<le> life_hours l"
    using assms(6) life_hours_bounds(1) by (auto simp: life_hours_def zdiv_mono1 max.coboundedI2)
  have "score_of (sint s) (sint c) (life_hours l) \<le> score_of (sint s) (sint c') (life_hours l)"
    using assms p h by (intro score_of_antimono_cap) auto
  also have "\<dots> \<le> score_of (sint s) (sint c') (life_hours l')"
    using assms p h by (intro score_of_antimono_hours) auto
  also have "\<dots> \<le> score_of (sint s') (sint c') (life_hours l')"
    using assms p h by (intro score_of_mono_sent) auto
  finally show ?thesis
    using assms(1,2) channelActivity_value [OF p(1,2), of s] channelActivity_value [OF p(3,4), of s'] by auto
qed

lemma score_monotone_witness:
  "\<exists>x y. channelActivity 500000 1000000 7200000000000 = Ok x \<and>
     channelActivity 600000 900000 3600000000000 = Ok y \<and> f64_le x y"
proof -
  obtain x y where "channelActivity 500000 1000000 7200000000000 = Ok x"
      "channelActivity 600000 900000 3600000000000 = Ok y"
    using channelActivity_value [of 7200000000000 1000000 500000]
      channelActivity_value [of 3600000000000 900000 600000] by simp
  with score_monotone [OF this] show ?thesis by simp
qed

end
