(* ===== verification/Go_Sort.thy ===== *)
theory Go_Sort
  imports LP_Prelude
begin

text \<open>
  \<open>sort.Slice\<close> of Go's standard library. Its algorithm is unspecified and not stable, so the model
  of its caller takes the sorting function as an argument, and \<open>slice_sort\<close> is what its
  documentation promises. \<open>goInsertionSort\<close> is what the library runs on slices of at most twelve
  elements.
\<close>

section \<open>The contract\<close>

definition strict_weak_on :: "'a set \<Rightarrow> ('a \<Rightarrow> 'a \<Rightarrow> bool) \<Rightarrow> bool" where
  "strict_weak_on A lt \<longleftrightarrow>
     (\<forall>x \<in> A. \<not> lt x x) \<and>
     (\<forall>x \<in> A. \<forall>y \<in> A. \<forall>z \<in> A. lt x y \<longrightarrow> lt y z \<longrightarrow> lt x z) \<and>
     (\<forall>x \<in> A. \<forall>y \<in> A. \<forall>z \<in> A. \<not> lt x y \<longrightarrow> \<not> lt y z \<longrightarrow> \<not> lt x z)"

locale slice_sort =
  fixes srt :: "('a \<Rightarrow> 'a \<Rightarrow> bool) \<Rightarrow> 'a list \<Rightarrow> 'a list"
  assumes mset_srt: "mset (srt lt xs) = mset xs"
    and sorted_srt: "strict_weak_on (set xs) lt \<Longrightarrow> sorted_wrt (\<lambda>x y. \<not> lt y x) (srt lt xs)"
begin

lemma set_srt [simp]: "set (srt lt xs) = set xs"
  using mset_srt [of lt xs] by (metis set_mset_mset)

lemma length_srt [simp]: "length (srt lt xs) = length xs"
  using mset_srt [of lt xs] by (metis size_mset)

lemma srt_sum: "sum_list (map f (srt lt xs)) = (sum_list (map f xs) :: 'b :: comm_monoid_add)"
  using mset_srt [of lt xs] by (metis mset_map sum_mset_sum_list)

lemma srt_filter: "mset (filter P (srt lt xs)) = mset (filter P xs)"
  by (simp add: mset_srt)

end

section \<open>Insertion sort\<close>

text \<open>The sorted prefix is kept reversed: the new element sinks towards its front.\<close>

fun goInsert :: "('a \<Rightarrow> 'a \<Rightarrow> bool) \<Rightarrow> 'a \<Rightarrow> 'a list \<Rightarrow> 'a list" where
  "goInsert lt x [] = [x]"
| "goInsert lt x (y # ys) = (if lt x y then y # goInsert lt x ys else x # y # ys)"

definition goInsertionSort :: "('a \<Rightarrow> 'a \<Rightarrow> bool) \<Rightarrow> 'a list \<Rightarrow> 'a list" where
  "goInsertionSort lt xs = rev (foldl (\<lambda>acc x. goInsert lt x acc) [] xs)"

lemma mset_goInsert [simp]: "mset (goInsert lt x ys) = add_mset x (mset ys)"
  by (induction ys) auto

lemma set_goInsert [simp]: "set (goInsert lt x ys) = insert x (set ys)"
  using mset_goInsert [of lt x ys] by (metis set_mset_add_mset_insert set_mset_mset)

lemma mset_foldl_goInsert: "mset (foldl (\<lambda>acc x. goInsert lt x acc) acc xs) = mset acc + mset xs"
  by (induction xs arbitrary: acc) auto

lemma sorted_goInsert:
  assumes "strict_weak_on A lt" and "insert x (set ys) \<subseteq> A" and "sorted_wrt (\<lambda>x y. \<not> lt x y) ys"
  shows "sorted_wrt (\<lambda>x y. \<not> lt x y) (goInsert lt x ys)"
  using assms(2,3)
proof (induction ys)
  case (Cons y ys)
  show ?case
  proof (cases "lt x y")
    case True
    have "\<not> lt y x"
    proof
      assume "lt y x"
      with True assms(1) Cons.prems(1) have "lt x x" unfolding strict_weak_on_def by (meson insert_subset list.set_intros(1) subsetD)
      with assms(1) Cons.prems(1) show False by (auto simp: strict_weak_on_def)
    qed
    with True Cons show ?thesis by auto
  next
    case False
    have "\<not> lt x z" if z: "z \<in> set ys" for z
    proof -
      have "\<not> lt y z" using z Cons.prems(2) by simp
      moreover have "x \<in> A" "y \<in> A" "z \<in> A" using z Cons.prems(1) by auto
      ultimately show ?thesis using False assms(1) unfolding strict_weak_on_def by blast
    qed
    with False Cons.prems show ?thesis by simp
  qed
qed simp

lemma sorted_foldl_goInsert:
  assumes "strict_weak_on A lt"
  shows "set acc \<union> set xs \<subseteq> A \<Longrightarrow> sorted_wrt (\<lambda>x y. \<not> lt x y) acc \<Longrightarrow>
     sorted_wrt (\<lambda>x y. \<not> lt x y) (foldl (\<lambda>acc x. goInsert lt x acc) acc xs)"
  by (induction xs arbitrary: acc) (use sorted_goInsert [OF assms] in auto)

lemma goInsertionSort_slice_sort: "slice_sort goInsertionSort"
proof
  fix lt :: "'a \<Rightarrow> 'a \<Rightarrow> bool" and xs
  show "mset (goInsertionSort lt xs) = mset xs"
    by (simp add: goInsertionSort_def mset_foldl_goInsert)
  show "strict_weak_on (set xs) lt \<Longrightarrow> sorted_wrt (\<lambda>x y. \<not> lt y x) (goInsertionSort lt xs)"
    using sorted_foldl_goInsert [of "set xs" lt "[]" xs]
    by (simp add: goInsertionSort_def sorted_wrt_rev)
qed

interpretation insertion: slice_sort goInsertionSort
  by (rule goInsertionSort_slice_sort)

end
