(* ===== verification/Manage_Channels.thy ===== *)
theory Manage_Channels
  imports Create_Invoice Chan_Point Chan_Score Go_Sort
begin

text \<open>
  Closing low-activity channels: \<open>isChannelIgnored\<close>, \<open>FetchManagedChannels\<close>, \<open>manageChannels\<close> and
  \<open>closeChannel\<close> of \<open>server/server.go\<close>. The sorting function \<open>srt\<close> is an argument, see \<open>Go_Sort\<close>.
  The panics of \<open>channelActivity\<close> are outcomes of \<open>FetchManagedChannels\<close>.
\<close>

section \<open>Data\<close>

record managedChannel =
  mc_Lifetime :: duration
  mc_ChanPoint :: string
  mc_Sid :: shortChanID
  mc_RemotePubkey :: string
  mc_Capacity :: i64
  mc_LocalBalance :: i64
  mc_RemoteBalance :: i64
  mc_TotalAtomsSent :: i64
  mc_HasMinLifetime :: bool
  mc_Score :: chanActivityScore
  mc_WillClose :: bool

record unmanagedChannel =
  uc_ChanPoint :: string
  uc_Sid :: shortChanID
  uc_Capacity :: i64
  uc_LocalBalance :: i64
  uc_RemoteBalance :: i64

record managementInfo =
  mi_WalletBalance :: i64
  mi_LimboBalance :: i64
  mi_TotalBalance :: i64
  mi_MinWalletBalance :: i64
  mi_BlockHeight :: u32
  mi_Channels :: "managedChannel list"
  mi_UnmanagedChannels :: "unmanagedChannel list"
  mi_NeedsManagement :: bool
  mi_Reclaimed :: i64

section \<open>The code\<close>

definition isChannelIgnored :: "config \<Rightarrow> channel \<Rightarrow> bool" where
  "isChannelIgnored cfg c \<longleftrightarrow>
     \<not> ch_Initiator c \<or> ch_ChannelPoint c \<in> IgnoreChannels cfg \<or> ch_RemotePubkey c \<in> IgnoreNodes cfg"

text \<open>The subtraction of heights is on 32 bits, the product on 64.\<close>

definition channelLifetime :: "config \<Rightarrow> u32 \<Rightarrow> shortChanID \<Rightarrow> duration" where
  "channelLifetime cfg height cid =
     ucast (height - BlockHeight cid) * TargetTimePerBlock (ChainParams cfg)"

definition toUnmanaged :: "'w env \<Rightarrow> channel \<Rightarrow> unmanagedChannel" where
  "toUnmanaged E c = \<lparr>uc_ChanPoint = ch_ChannelPoint c, uc_Sid = e_NewShortChanIDFromInt E (ch_ChanId c),
     uc_Capacity = ch_Capacity c, uc_LocalBalance = ch_LocalBalance c, uc_RemoteBalance = ch_RemoteBalance c\<rparr>"

definition toManaged :: "'w env \<Rightarrow> config \<Rightarrow> u32 \<Rightarrow> channel \<Rightarrow> managedChannel res" where
  "toManaged E cfg height c =
     (let cid = e_NewShortChanIDFromInt E (ch_ChanId c);
          lifetime = channelLifetime cfg height cid
      in case channelActivity (ch_TotalAtomsSent c) (ch_Capacity c) lifetime of
           Ok score \<Rightarrow> Ok \<lparr>mc_Lifetime = lifetime, mc_ChanPoint = ch_ChannelPoint c, mc_Sid = cid,
             mc_RemotePubkey = ch_RemotePubkey c, mc_Capacity = ch_Capacity c,
             mc_LocalBalance = ch_LocalBalance c, mc_RemoteBalance = ch_RemoteBalance c,
             mc_TotalAtomsSent = ch_TotalAtomsSent c,
             mc_HasMinLifetime = i64_le (MinChanLifetime cfg) lifetime, mc_Score = score, mc_WillClose = False\<rparr>
         | Err e \<Rightarrow> Err e
         | Panic m \<Rightarrow> Panic m)"

text \<open>The loop over the channels, with the two lists built so far.\<close>

fun classifyChannels :: "'w env \<Rightarrow> config \<Rightarrow> u32 \<Rightarrow> managedChannel list \<Rightarrow> unmanagedChannel list \<Rightarrow>
    channel list \<Rightarrow> (managedChannel list \<times> unmanagedChannel list) res" where
  "classifyChannels E cfg height ms us [] = Ok (ms, us)"
| "classifyChannels E cfg height ms us (c # cs) =
     (if isChannelIgnored cfg c then classifyChannels E cfg height ms (us @ [toUnmanaged E c]) cs
      else (case toManaged E cfg height c of
              Ok m \<Rightarrow> classifyChannels E cfg height (ms @ [m]) us cs
            | Err e \<Rightarrow> Err e
            | Panic p \<Rightarrow> Panic p))"

definition scoreLess :: "managedChannel \<Rightarrow> managedChannel \<Rightarrow> bool" where
  "scoreLess x y \<longleftrightarrow> f64_lt (mc_Score x) (mc_Score y)"

text \<open>The closing loop: the channels after it and the amount reclaimed.\<close>

fun markClosing :: "i64 \<Rightarrow> i64 \<Rightarrow> i64 \<Rightarrow> managedChannel list \<Rightarrow> managedChannel list \<times> i64" where
  "markClosing minBal totalBal reclaimed [] = ([], reclaimed)"
| "markClosing minBal totalBal reclaimed (c # cs) =
     (if \<not> mc_HasMinLifetime c
      then (case markClosing minBal totalBal reclaimed cs of (cs', r) \<Rightarrow> (c # cs', r))
      else let c' = c\<lparr>mc_WillClose := True\<rparr>;
               reclaimed' = reclaimed + mc_LocalBalance c
           in if i64_le minBal (totalBal + reclaimed') then (c' # cs, reclaimed')
              else (case markClosing minBal totalBal reclaimed' cs of (cs', r) \<Rightarrow> (c' # cs', r)))"

text \<open>What \<open>FetchManagedChannels\<close> makes of the answers of its four calls.\<close>

definition managementReport ::
  "((managedChannel \<Rightarrow> managedChannel \<Rightarrow> bool) \<Rightarrow> managedChannel list \<Rightarrow> managedChannel list) \<Rightarrow>
   'w env \<Rightarrow> config \<Rightarrow> i64 \<Rightarrow> pendingChannels \<Rightarrow> channel list \<Rightarrow> getInfo \<Rightarrow> managementInfo res" where
  "managementReport srt E cfg walletBal pend chans info =
     (let limbo = sum_list (LimboBalances pend);
          totalBal = limbo + walletBal;
          needs = i64_lt totalBal (MinWalletBalance cfg)
      in case classifyChannels E cfg (gi_BlockHeight info) [] [] chans of
           Err e \<Rightarrow> Err e
         | Panic m \<Rightarrow> Panic m
         | Ok (ms, us) \<Rightarrow>
             (let sorted = srt scoreLess ms;
                  res = (if needs then markClosing (MinWalletBalance cfg) totalBal 0 sorted else (sorted, 0))
              in Ok \<lparr>mi_WalletBalance = walletBal, mi_LimboBalance = limbo, mi_TotalBalance = totalBal,
                   mi_MinWalletBalance = MinWalletBalance cfg, mi_BlockHeight = gi_BlockHeight info,
                   mi_Channels = fst res, mi_UnmanagedChannels = us, mi_NeedsManagement = needs,
                   mi_Reclaimed = snd res\<rparr>))"

definition FetchManagedChannels ::
  "((managedChannel \<Rightarrow> managedChannel \<Rightarrow> bool) \<Rightarrow> managedChannel list \<Rightarrow> managedChannel list) \<Rightarrow>
   'w env \<Rightarrow> config \<Rightarrow> 'w sys \<Rightarrow> managementInfo res \<times> 'w sys" where
  "FetchManagedChannels srt E cfg s =
     bindR (rpc (e_WalletBalance E) s) (\<lambda>walletBal s1.
     bindR (rpc (e_PendingChannels E) s1) (\<lambda>pend s2.
     bindR (rpc (e_ListChannels E None) s2) (\<lambda>chans s3.
     bindR (rpc (e_GetInfo E) s3) (\<lambda>info s4.
     (managementReport srt E cfg walletBal pend chans info, s4)))))"

text \<open>\<open>nodeID.FromString(c.RemotePubkey)\<close> with its error ignored: the zero id stays.\<close>

definition remoteNode :: "managedChannel \<Rightarrow> nodeID" where
  "remoteNode c = (case fromString (mc_RemotePubkey c) of Ok n \<Rightarrow> n | _ \<Rightarrow> zeroNodeID)"

definition startClosing :: "managedChannel \<Rightarrow> 'w sys \<Rightarrow> 'w sys" where
  "startClosing c s = spawn (CloseTask (remoteNode c) (mc_ChanPoint c))
     (emit (EvSpawnClose (remoteNode c) (mc_ChanPoint c)) s)"

fun closeMarked :: "managedChannel list \<Rightarrow> 'w sys \<Rightarrow> 'w sys" where
  "closeMarked [] s = s"
| "closeMarked (c # cs) s = closeMarked cs (if mc_WillClose c then startClosing c s else s)"

definition manageChannels ::
  "((managedChannel \<Rightarrow> managedChannel \<Rightarrow> bool) \<Rightarrow> managedChannel list \<Rightarrow> managedChannel list) \<Rightarrow>
   'w env \<Rightarrow> config \<Rightarrow> 'w sys \<Rightarrow> unit res \<times> 'w sys" where
  "manageChannels srt E cfg s =
     bindR (FetchManagedChannels srt E cfg s) (\<lambda>info s1.
       if \<not> mi_NeedsManagement info then (Ok (), s1) else (Ok (), closeMarked (mi_Channels info) s1))"

text \<open>
  \<open>closeChannel\<close> up to the accepted request; \<open>Ok ()\<close> when it goes on to read the updates. A channel
  whose peer is not connected is closed by force. \<open>watchClose\<close> only logs.
\<close>

definition closeChannel :: "'w env \<Rightarrow> nodeID \<Rightarrow> string \<Rightarrow> 'w sys \<Rightarrow> unit res \<times> 'w sys" where
  "closeChannel E node channelPoint s =
     (case parseStrChannelPoint channelPoint of
        Err e \<Rightarrow> (Err e, s)
      | Panic m \<Rightarrow> (Panic m, s)
      | Ok cp \<Rightarrow>
          (case isConnectedToNode E node s of
             (conn, s1) \<Rightarrow>
               rpc (e_CloseChannel E cp (\<not> conn)) (emit (EvCloseChannel cp (\<not> conn)) s1)))"

fun watchClose :: "(err + closeUpdate) list \<Rightarrow> stream" where
  "watchClose [] = Reading"
| "watchClose (Inl e # us) = recvError e"
| "watchClose (Inr u # us) = watchClose us"

section \<open>Which channels are managed\<close>

lemma toManaged_not_Err: "toManaged E cfg h c \<noteq> Err e"
  by (simp add: toManaged_def Let_def channelActivity_not_Err split: res.split)

lemma classify_not_Err: "classifyChannels E cfg h ms us cs \<noteq> Err e"
  by (induction cs arbitrary: ms us) (auto simp: toManaged_not_Err split: res.split)

definition managedOf :: "'w env \<Rightarrow> config \<Rightarrow> u32 \<Rightarrow> channel \<Rightarrow> managedChannel option" where
  "managedOf E cfg h c = (case toManaged E cfg h c of Ok m \<Rightarrow> Some m | _ \<Rightarrow> None)"

text \<open>
  The loop keeps the order: the ignored channels on one side, the others on the other. It panics
  exactly when the score of a channel that is not ignored does.
\<close>

lemma classify_Ok:
  "classifyChannels E cfg h ms us cs = Ok (ms', us') \<longleftrightarrow>
     (\<forall>c \<in> set cs. \<not> isChannelIgnored cfg c \<longrightarrow> (\<exists>m. toManaged E cfg h c = Ok m)) \<and>
     ms' = ms @ List.map_filter (managedOf E cfg h) (filter (\<lambda>c. \<not> isChannelIgnored cfg c) cs) \<and>
     us' = us @ map (toUnmanaged E) (filter (isChannelIgnored cfg) cs)"
proof (induction cs arbitrary: ms us)
  case (Cons c cs)
  show ?case
  proof (cases "toManaged E cfg h c")
    case (Ok m)
    then show ?thesis by (auto simp: Cons.IH managedOf_def map_filter_simps)
  qed (auto simp: Cons.IH)
qed (auto simp: map_filter_simps)

lemma toManaged_Ok_iff:
  "(\<exists>m. toManaged E cfg h c = Ok m) \<longleftrightarrow>
     0 < sint (channelLifetime cfg h (e_NewShortChanIDFromInt E (ch_ChanId c))) \<and> 0 < sint (ch_Capacity c)"
  unfolding channelActivity_Ok_iff [of "ch_TotalAtomsSent c", symmetric]
  by (cases "channelActivity (ch_TotalAtomsSent c) (ch_Capacity c)
      (channelLifetime cfg h (e_NewShortChanIDFromInt E (ch_ChanId c)))") (simp_all add: toManaged_def Let_def)

lemma toManaged_fields:
  assumes "toManaged E cfg h c = Ok m"
  shows "mc_ChanPoint m = ch_ChannelPoint c" "mc_RemotePubkey m = ch_RemotePubkey c"
    "mc_LocalBalance m = ch_LocalBalance c" "\<not> mc_WillClose m" "mc_Score m \<noteq> NaN"
    "mc_HasMinLifetime m \<longleftrightarrow> i64_le (MinChanLifetime cfg)
       (channelLifetime cfg h (e_NewShortChanIDFromInt E (ch_ChanId c)))"
    "mc_Lifetime m = channelLifetime cfg h (e_NewShortChanIDFromInt E (ch_ChanId c))"
  using assms by (auto simp: toManaged_def Let_def channelActivity_not_NaN split: res.splits)

lemma managed_in:
  assumes "classifyChannels E cfg h [] [] cs = Ok (ms, us)" and "m \<in> set ms"
  obtains c where "c \<in> set cs" "\<not> isChannelIgnored cfg c" "toManaged E cfg h c = Ok m"
  using assms by (auto simp: classify_Ok map_filter_def managedOf_def split: res.splits)

section \<open>Sorting by score\<close>

lemma scoreLess_strict_weak: "\<forall>m \<in> A. mc_Score m \<noteq> NaN \<Longrightarrow> strict_weak_on A scoreLess"
  unfolding strict_weak_on_def scoreLess_def
  by (auto intro: f64_lt_trans) (metis f64_not_lt f64_le_trans)

lemma sorted_scores:
  assumes "slice_sort srt" and "\<forall>m \<in> set ms. mc_Score m \<noteq> NaN"
  shows "sorted_wrt (\<lambda>x y. f64_le (mc_Score x) (mc_Score y)) (srt scoreLess ms)"
proof -
  have "sorted_wrt (\<lambda>x y. \<not> scoreLess y x) (srt scoreLess ms)"
    using slice_sort.sorted_srt [OF assms(1) scoreLess_strict_weak [OF assms(2)]] .
  then show ?thesis
    by (rule sorted_wrt_mono_rel [rotated])
      (use assms slice_sort.set_srt [OF assms(1)] in \<open>auto simp: scoreLess_def f64_not_lt\<close>)
qed

section \<open>Which channels are closed\<close>

text \<open>
  The specification of the loop: the first \<open>closeCount\<close> eligible channels, enough to bring the total
  to the minimum, and no more than needed.
\<close>

definition eligible :: "managedChannel list \<Rightarrow> managedChannel list" where
  "eligible = filter mc_HasMinLifetime"

definition reclaim :: "managedChannel list \<Rightarrow> i64" where
  "reclaim cs = sum_list (map mc_LocalBalance cs)"

definition marked :: "managedChannel list \<Rightarrow> managedChannel list" where
  "marked = filter mc_WillClose"

definition unmark :: "managedChannel \<Rightarrow> managedChannel" where
  "unmark c = c\<lparr>mc_WillClose := False\<rparr>"

lemma unmark_simps [simp]:
  "unmark (c\<lparr>mc_WillClose := b\<rparr>) = unmark c" "mc_LocalBalance (unmark c) = mc_LocalBalance c"
  "\<not> mc_WillClose c \<Longrightarrow> unmark c = c"
  by (simp_all add: unmark_def)

lemma unmark_id: "\<forall>c \<in> set cs. \<not> mc_WillClose c \<Longrightarrow> map unmark cs = cs"
  by (simp add: map_idI)

lemma marked_none: "\<forall>c \<in> set cs. \<not> mc_WillClose c \<Longrightarrow> marked cs = []"
  by (simp add: marked_def filter_empty_conv)

text \<open>
  After the loop the channels are the same but for the mark, and the marked ones are a shortest
  sufficient prefix of the eligible ones: the total falls short after every shorter prefix, and
  is sufficient after this one unless there are no eligible channels left.
\<close>

lemma markClosing_spec:
  assumes "markClosing m b r cs = (cs', r')" and "\<forall>c \<in> set cs. \<not> mc_WillClose c"
  shows "map unmark cs' = cs \<and>
    (\<exists>k \<le> length (eligible cs).
       map unmark (marked cs') = take k (eligible cs) \<and> r' = r + reclaim (take k (eligible cs)) \<and>
       (\<forall>j. 0 < j \<longrightarrow> j < k \<longrightarrow> \<not> i64_le m (b + (r + reclaim (take j (eligible cs))))) \<and>
       (k = length (eligible cs) \<or> 0 < k \<and> i64_le m (b + r')))"
  using assms
proof (induction cs arbitrary: r cs' r')
  case Nil
  then show ?case by (simp add: eligible_def marked_def reclaim_def)
next
  case (Cons c cs)
  obtain cs1 r1 where rec0: "markClosing m b r cs = (cs1, r1)" by force
  obtain cs2 r2 where rec1: "markClosing m b (r + mc_LocalBalance c) cs = (cs2, r2)" by force
  have nm: "\<not> mc_WillClose c" "\<forall>c \<in> set cs. \<not> mc_WillClose c" using Cons.prems(2) by auto
  show ?case
  proof (cases "mc_HasMinLifetime c")
    case False
    with Cons.prems(1) rec0 have "cs' = c # cs1" "r' = r1" by auto
    with Cons.IH [OF rec0 nm(2)] nm(1) False show ?thesis by (simp add: eligible_def marked_def)
  next
    case True
    have el: "eligible (c # cs) = c # eligible cs" using True by (simp add: eligible_def)
    show ?thesis
    proof (cases "i64_le m (b + (r + mc_LocalBalance c))")
      case enough: True
      with Cons.prems(1) True have "cs' = c\<lparr>mc_WillClose := True\<rparr> # cs" "r' = r + mc_LocalBalance c"
        by (auto simp: Let_def)
      with enough nm el show ?thesis
        by (intro conjI exI [of _ 1]) (auto simp: unmark_id marked_none [unfolded marked_def] marked_def reclaim_def)
    next
      case False
      with Cons.prems(1) True rec1 have c': "cs' = c\<lparr>mc_WillClose := True\<rparr> # cs2" "r' = r2"
        by (auto simp: Let_def)
      from Cons.IH [OF rec1 nm(2)] obtain k where k: "map unmark cs2 = cs" "k \<le> length (eligible cs)"
        "map unmark (marked cs2) = take k (eligible cs)"
        "r2 = r + mc_LocalBalance c + reclaim (take k (eligible cs))"
        "\<forall>j. 0 < j \<longrightarrow> j < k \<longrightarrow> \<not> i64_le m (b + (r + mc_LocalBalance c + reclaim (take j (eligible cs))))"
        "k = length (eligible cs) \<or> 0 < k \<and> i64_le m (b + r2)" by blast
      have "\<not> i64_le m (b + (r + reclaim (take j (eligible (c # cs)))))" if j: "0 < j" "j < Suc k" for j
      proof -
        obtain i where i: "j = Suc i" using j(1) by (cases j) auto
        show ?thesis
        proof (cases i)
          case 0
          with i False el show ?thesis by (simp add: reclaim_def)
        next
          case (Suc n)
          with i j k(5) have "\<not> i64_le m (b + (r + mc_LocalBalance c + reclaim (take i (eligible cs))))" by simp
          with i el show ?thesis by (simp add: reclaim_def add.assoc)
        qed
      qed
      with k c' nm el show ?thesis
        by (intro conjI exI [of _ "Suc k"]) (auto simp: marked_def reclaim_def add.assoc)
    qed
  qed
qed

lemma markClosing_marks:
  assumes "markClosing m b r cs = (cs', r')" and "\<forall>c \<in> set cs. \<not> mc_WillClose c"
    and "c \<in> set cs'" and "mc_WillClose c"
  shows "mc_HasMinLifetime c \<and> unmark c \<in> set cs"
proof -
  from markClosing_spec [OF assms(1,2)] obtain k where
    k: "map unmark cs' = cs" "map unmark (marked cs') = take k (eligible cs)" by blast
  have "unmark c \<in> set (map unmark (marked cs'))" using assms(3,4) by (auto simp: marked_def)
  then have "unmark c \<in> set (eligible cs)" unfolding k(2) by (rule in_set_takeD)
  then show ?thesis by (auto simp: eligible_def unmark_def)
qed

text \<open>On a list sorted by score, a channel that stays scores at least as much as one that goes.\<close>

lemma markClosing_prefix:
  assumes "markClosing m b r cs = (xs @ c # ys, r')" and "\<forall>c \<in> set cs. \<not> mc_WillClose c"
    and "mc_HasMinLifetime c" and "\<not> mc_WillClose c"
  shows "marked ys = []"
  using assms(1,2)
proof (induction m b r cs arbitrary: xs r' rule: markClosing.induct)
  case (2 m b r d ds)
  show ?case
  proof (cases xs)
    case Nil
    with 2 assms(3,4) show ?thesis by (auto simp: Let_def split: if_splits prod.splits)
  next
    case (Cons x xs')
    with 2 show ?thesis
      by (auto simp: Let_def marked_none split: if_splits prod.splits)
  qed
qed simp

lemma markClosing_lowest:
  assumes "markClosing m b r cs = (cs', r')" and "\<forall>c \<in> set cs. \<not> mc_WillClose c"
    and "sorted_wrt (\<lambda>x y. f64_le (mc_Score x) (mc_Score y)) cs"
    and "x \<in> set cs'" "mc_WillClose x" and "y \<in> set cs'" "mc_HasMinLifetime y" "\<not> mc_WillClose y"
  shows "f64_le (mc_Score x) (mc_Score y)"
proof -
  obtain us vs where cs': "cs' = us @ y # vs" using assms(6) by (meson split_list)
  have "x \<notin> set vs"
    using markClosing_prefix [OF assms(1) [unfolded cs'] assms(2,7,8)] assms(5)
    by (auto simp: marked_def filter_empty_conv)
  with assms(4,5,8) cs' have x: "x \<in> set us" by auto
  have "map unmark cs' = cs" using markClosing_spec [OF assms(1,2)] by blast
  then have "sorted_wrt (\<lambda>x y. f64_le (mc_Score (unmark x)) (mc_Score (unmark y))) cs'"
    using assms(3) by (auto simp: sorted_wrt_map)
  with x show ?thesis unfolding cs' by (auto simp: sorted_wrt_append unmark_def)
qed

section \<open>The report\<close>

text \<open>Every call of the report in order, and what it makes of the answers.\<close>

lemma FetchManagedChannels_Ok:
  "FetchManagedChannels srt E cfg s = (Ok info, t) \<longleftrightarrow>
     (\<exists>walletBal pend chans gi s1 s2 s3.
        rpc (e_WalletBalance E) s = (Ok walletBal, s1) \<and> rpc (e_PendingChannels E) s1 = (Ok pend, s2) \<and>
        rpc (e_ListChannels E None) s2 = (Ok chans, s3) \<and> rpc (e_GetInfo E) s3 = (Ok gi, t) \<and>
        managementReport srt E cfg walletBal pend chans gi = Ok info)"
  by (simp add: FetchManagedChannels_def bindR_iffs) blast

lemma FetchManagedChannels_quiet:
  assumes "FetchManagedChannels srt E cfg s = (r, t)"
  shows "quiet s t"
proof (cases r)
  case (Ok info)
  with assms show ?thesis by (auto simp: FetchManagedChannels_Ok dest!: quiet_rpc simp: quiet_def)
next
  case (Err e)
  with assms show ?thesis
    by (auto simp: FetchManagedChannels_def bindR_iffs dest!: quiet_rpc simp: quiet_def)
next
  case (Panic m)
  with assms show ?thesis
    by (auto simp: FetchManagedChannels_def bindR_iffs dest!: quiet_rpc simp: quiet_def)
qed

lemma managementReport_Ok:
  assumes "managementReport srt E cfg walletBal pend chans gi = Ok info"
  obtains ms where
    "classifyChannels E cfg (mi_BlockHeight info) [] [] chans = Ok (ms, mi_UnmanagedChannels info)"
    "mi_WalletBalance info = walletBal" "mi_LimboBalance info = sum_list (LimboBalances pend)"
    "mi_TotalBalance info = mi_LimboBalance info + mi_WalletBalance info"
    "mi_MinWalletBalance info = MinWalletBalance cfg" "mi_BlockHeight info = gi_BlockHeight gi"
    "mi_NeedsManagement info \<longleftrightarrow> i64_lt (mi_TotalBalance info) (MinWalletBalance cfg)"
    "(mi_Channels info, mi_Reclaimed info) =
       (if mi_NeedsManagement info
        then markClosing (MinWalletBalance cfg) (mi_TotalBalance info) 0 (srt scoreLess ms)
        else (srt scoreLess ms, 0))"
proof (cases "classifyChannels E cfg (gi_BlockHeight gi) [] [] chans")
  case (Ok p)
  obtain ms us where p: "p = (ms, us)" by force
  show thesis using assms by (intro that [of ms]) (auto simp: managementReport_def Let_def Ok p)
qed (use assms in \<open>auto simp: managementReport_def\<close>)

text \<open>The report panics exactly when a channel that is not ignored has no score.\<close>

definition scorable :: "'w env \<Rightarrow> config \<Rightarrow> u32 \<Rightarrow> channel \<Rightarrow> bool" where
  "scorable E cfg h c \<longleftrightarrow> 0 < sint (channelLifetime cfg h (e_NewShortChanIDFromInt E (ch_ChanId c))) \<and>
     0 < sint (ch_Capacity c)"

lemma classify_total:
  "(\<exists>p. classifyChannels E cfg h ms us cs = Ok p) \<longleftrightarrow>
     (\<forall>c \<in> set cs. \<not> isChannelIgnored cfg c \<longrightarrow> scorable E cfg h c)"
  by (auto simp: classify_Ok scorable_def simp flip: toManaged_Ok_iff [of E])

lemma managementReport_Panic_iff:
  "(\<exists>m. managementReport srt E cfg walletBal pend chans gi = Panic m) \<longleftrightarrow>
     (\<exists>c \<in> set chans. \<not> isChannelIgnored cfg c \<and> \<not> scorable E cfg (gi_BlockHeight gi) c)"
  using classify_total [of E cfg "gi_BlockHeight gi" "[]" "[]" chans]
    classify_not_Err [of E cfg "gi_BlockHeight gi" "[]" "[]" chans]
  by (cases "classifyChannels E cfg (gi_BlockHeight gi) [] [] chans")
    (auto simp: managementReport_def Let_def)

lemma classified_marks:
  assumes "classifyChannels E cfg h [] [] cs = Ok (ms, us)"
  shows "\<forall>m \<in> set ms. \<not> mc_WillClose m" "\<forall>m \<in> set ms. mc_Score m \<noteq> NaN"
  using managed_in [OF assms] toManaged_fields by meson+

text \<open>The channels of the report, before the marks are set, and the loop that sets them.\<close>

lemma report_sorted:
  assumes "slice_sort srt" and "managementReport srt E cfg walletBal pend chans gi = Ok info"
  obtains ms where
    "classifyChannels E cfg (gi_BlockHeight gi) [] [] chans = Ok (ms, mi_UnmanagedChannels info)"
    "map unmark (mi_Channels info) = srt scoreLess ms" "\<forall>c \<in> set (srt scoreLess ms). \<not> mc_WillClose c"
    "sorted_wrt (\<lambda>x y. f64_le (mc_Score x) (mc_Score y)) (srt scoreLess ms)"
    "mi_NeedsManagement info \<longleftrightarrow> i64_lt (sum_list (LimboBalances pend) + walletBal) (MinWalletBalance cfg)"
    "if mi_NeedsManagement info
     then markClosing (MinWalletBalance cfg) (sum_list (LimboBalances pend) + walletBal) 0 (srt scoreLess ms) =
       (mi_Channels info, mi_Reclaimed info)
     else marked (mi_Channels info) = [] \<and> mi_Reclaimed info = 0"
proof -
  from managementReport_Ok [OF assms(2)] obtain ms where
    c: "classifyChannels E cfg (gi_BlockHeight gi) [] [] chans = Ok (ms, mi_UnmanagedChannels info)" and
    b: "mi_TotalBalance info = sum_list (LimboBalances pend) + walletBal" and
    n: "mi_NeedsManagement info \<longleftrightarrow> i64_lt (mi_TotalBalance info) (MinWalletBalance cfg)" and
    m: "(mi_Channels info, mi_Reclaimed info) = (if mi_NeedsManagement info
        then markClosing (MinWalletBalance cfg) (mi_TotalBalance info) 0 (srt scoreLess ms) else (srt scoreLess ms, 0))"
    by metis
  note marks = classified_marks [OF c]
  have nm: "\<forall>c \<in> set (srt scoreLess ms). \<not> mc_WillClose c"
    using marks(1) slice_sort.set_srt [OF assms(1)] by blast
  show thesis
  proof (rule that [OF c _ nm sorted_scores [OF assms(1) marks(2)]])
    show "mi_NeedsManagement info \<longleftrightarrow> i64_lt (sum_list (LimboBalances pend) + walletBal) (MinWalletBalance cfg)"
      using n b by simp
    show "map unmark (mi_Channels info) = srt scoreLess ms"
    proof (cases "mi_NeedsManagement info")
      case True
      with m have "markClosing (MinWalletBalance cfg) (mi_TotalBalance info) 0 (srt scoreLess ms) =
          (mi_Channels info, mi_Reclaimed info)" by simp
      from markClosing_spec [OF this nm] show ?thesis by blast
    next
      case False
      with m unmark_id [OF nm] show ?thesis by simp
    qed
    show "if mi_NeedsManagement info
      then markClosing (MinWalletBalance cfg) (sum_list (LimboBalances pend) + walletBal) 0 (srt scoreLess ms) =
        (mi_Channels info, mi_Reclaimed info)
      else marked (mi_Channels info) = [] \<and> mi_Reclaimed info = 0"
      using m b marked_none [OF nm] by auto
  qed
qed

text \<open>A channel of the report and the listed channel it stands for.\<close>

lemma report_member:
  assumes "slice_sort srt" and "managementReport srt E cfg walletBal pend chans gi = Ok info"
    and "x \<in> set (mi_Channels info)"
  obtains c where "c \<in> set chans" "\<not> isChannelIgnored cfg c" "mc_ChanPoint x = ch_ChannelPoint c"
    "mc_RemotePubkey x = ch_RemotePubkey c"
    "mc_Lifetime x = ucast (gi_BlockHeight gi - BlockHeight (e_NewShortChanIDFromInt E (ch_ChanId c))) *
       TargetTimePerBlock (ChainParams cfg)"
    "mc_HasMinLifetime x \<longleftrightarrow> i64_le (MinChanLifetime cfg) (mc_Lifetime x)"
proof -
  from report_sorted [OF assms(1,2)] obtain ms where
    c: "classifyChannels E cfg (gi_BlockHeight gi) [] [] chans = Ok (ms, mi_UnmanagedChannels info)" and
    un: "map unmark (mi_Channels info) = srt scoreLess ms" by metis
  have "unmark x \<in> set (map unmark (mi_Channels info))" using assms(3) by simp
  then have "unmark x \<in> set ms" unfolding un slice_sort.set_srt [OF assms(1)] .
  from managed_in [OF c this] obtain k where k: "k \<in> set chans" "\<not> isChannelIgnored cfg k"
    "toManaged E cfg (gi_BlockHeight gi) k = Ok (unmark x)" .
  from toManaged_fields [OF k(3)] show thesis
    by (intro that [OF k(1,2)]) (simp_all add: channelLifetime_def unmark_def)
qed

text \<open>The candidates for closing, with their scores, are those of the listing.\<close>

lemma classify_candidates:
  assumes "classifyChannels E cfg h [] [] cs = Ok (ms, us)"
  defines "life \<equiv> \<lambda>c. ucast (h - BlockHeight (e_NewShortChanIDFromInt E (ch_ChanId c))) * TargetTimePerBlock (ChainParams cfg)"
  shows "map (\<lambda>m. (mc_ChanPoint m, mc_LocalBalance m, Ok (mc_Score m))) (filter mc_HasMinLifetime ms) =
    map (\<lambda>c. (ch_ChannelPoint c, ch_LocalBalance c, channelActivity (ch_TotalAtomsSent c) (ch_Capacity c) (life c)))
      (filter (\<lambda>c. \<not> isChannelIgnored cfg c \<and> i64_le (MinChanLifetime cfg) (life c)) cs)"
proof -
  have "map (\<lambda>m. (mc_ChanPoint m, mc_LocalBalance m, Ok (mc_Score m))) (filter mc_HasMinLifetime
        (List.map_filter (managedOf E cfg h) (filter (\<lambda>c. \<not> isChannelIgnored cfg c) cs))) =
      map (\<lambda>c. (ch_ChannelPoint c, ch_LocalBalance c, channelActivity (ch_TotalAtomsSent c) (ch_Capacity c) (life c)))
        (filter (\<lambda>c. \<not> isChannelIgnored cfg c \<and> i64_le (MinChanLifetime cfg) (life c)) cs)"
    if "\<forall>c \<in> set cs. \<not> isChannelIgnored cfg c \<longrightarrow> (\<exists>m. toManaged E cfg h c = Ok m)"
    using that
  proof (induction cs)
    case (Cons c cs)
    then have IH: "map (\<lambda>m. (mc_ChanPoint m, mc_LocalBalance m, Ok (mc_Score m))) (filter mc_HasMinLifetime
        (List.map_filter (managedOf E cfg h) (filter (\<lambda>c. \<not> isChannelIgnored cfg c) cs))) =
      map (\<lambda>c. (ch_ChannelPoint c, ch_LocalBalance c, channelActivity (ch_TotalAtomsSent c) (ch_Capacity c) (life c)))
        (filter (\<lambda>c. \<not> isChannelIgnored cfg c \<and> i64_le (MinChanLifetime cfg) (life c)) cs)" by simp
    show ?case
    proof (cases "isChannelIgnored cfg c")
      case False
      with Cons.prems obtain m where m: "toManaged E cfg h c = Ok m" by auto
      then have "mc_ChanPoint m = ch_ChannelPoint c" "mc_LocalBalance m = ch_LocalBalance c"
        "mc_HasMinLifetime m \<longleftrightarrow> i64_le (MinChanLifetime cfg) (life c)"
        "channelActivity (ch_TotalAtomsSent c) (ch_Capacity c) (life c) = Ok (mc_Score m)"
        by (auto simp: toManaged_def Let_def channelLifetime_def life_def split: res.splits)
      moreover have "managedOf E cfg h c = Some m" using m by (simp add: managedOf_def)
      ultimately show ?thesis using False IH by (simp add: map_filter_simps)
    qed (use IH in simp)
  qed (simp add: map_filter_simps)
  then show ?thesis using assms(1) by (auto simp: classify_Ok)
qed

section \<open>Starting the closings\<close>

definition closeTask :: "managedChannel \<Rightarrow> task" where
  "closeTask c = CloseTask (remoteNode c) (mc_ChanPoint c)"

definition closeEvent :: "managedChannel \<Rightarrow> event" where
  "closeEvent c = EvSpawnClose (remoteNode c) (mc_ChanPoint c)"

lemma closeMarked_effect:
  "tasks (closeMarked cs s) = tasks s @ map closeTask (marked cs)"
  "events (closeMarked cs s) = events s @ map closeEvent (marked cs)"
  "files (closeMarked cs s) = files s" "pendingChans (closeMarked cs s) = pendingChans s"
  by (induction cs arbitrary: s)
    (auto simp: startClosing_def spawn_def emit_def marked_def closeTask_def closeEvent_def)

lemma manageChannels_cases:
  assumes "manageChannels srt E cfg s = (r, t)"
  obtains (failed) "\<forall>u. r \<noteq> Ok u" "quiet s t"
  | (no_need) info where "r = Ok ()" "FetchManagedChannels srt E cfg s = (Ok info, t)" "quiet s t"
      "\<not> mi_NeedsManagement info"
  | (closing) info where "r = Ok ()" "\<exists>u. FetchManagedChannels srt E cfg s = (Ok info, u)"
      "mi_NeedsManagement info"
      "tasks t = tasks s @ map closeTask (marked (mi_Channels info))"
      "events t = events s @ map closeEvent (marked (mi_Channels info))"
      "files t = files s" "pendingChans t = pendingChans s"
proof -
  obtain r1 s1 where f: "FetchManagedChannels srt E cfg s = (r1, s1)" by force
  then have q: "quiet s s1" by (rule FetchManagedChannels_quiet)
  show thesis
  proof (cases r1)
    case (Ok info)
    with f q assms that(2,3) show thesis
      by (cases "mi_NeedsManagement info") (auto simp: manageChannels_def closeMarked_effect quiet_def)
  qed (use f q assms that(1) in \<open>auto simp: manageChannels_def\<close>)
qed

section \<open>A concrete round of management\<close>

text \<open>A channel of the sample node; at height 7201 and a second per block, one opened at height 1 is two hours old.\<close>

definition sampleChannel :: "string \<Rightarrow> u64 \<Rightarrow> channel" where
  "sampleChannel cp height = \<lparr>ch_ChannelPoint = cp, ch_RemotePubkey = nodeString sampleNode,
     ch_ChanId = height * 2 ^ 40, ch_Capacity = 1048576, ch_LocalBalance = 1000000,
     ch_RemoteBalance = 40000, ch_TotalAtomsSent = 4096, ch_Initiator = True\<rparr>"

definition sampleEnvChans :: "channel list \<Rightarrow> int env" where
  "sampleEnvChans cs = sampleEnv\<lparr>e_ListChannels := \<lambda>_ w. (Inr cs, w)\<rparr>"

definition sampleReport :: "channel list \<Rightarrow> managementInfo res" where
  "sampleReport cs = managementReport goInsertionSort (sampleEnvChans cs) sampleCfg 1000
     \<lparr>PendingOpenChannels = [], LimboBalances = [500]\<rparr> cs
     \<lparr>IdentityPubkey = nodeString sampleNode, gi_BlockHeight = 7201, gi_Chains = [(''decred'', ''simnet'')]\<rparr>"

lemma sample_fetch:
  "FetchManagedChannels goInsertionSort (sampleEnvChans cs) sampleCfg s = (sampleReport cs, s)"
  by (simp add: FetchManagedChannels_def sampleReport_def rpc_def sampleEnvChans_def sampleEnv_def)

lemma sample_sid:
  "BlockHeight (e_NewShortChanIDFromInt (sampleEnvChans cs) (ch_ChanId (sampleChannel cp 1))) = 1"
  "BlockHeight (e_NewShortChanIDFromInt (sampleEnvChans cs) (ch_ChanId (sampleChannel cp 7201))) = 7201"
  by (simp_all add: sampleEnvChans_def sampleEnv_def sampleChannel_def)

text \<open>Two channels of the same age and score: the first is enough and is closed, the second stays.\<close>

definition sampleTwo :: "channel list" where
  "sampleTwo = [sampleChannel ''a:0'' 1, sampleChannel ''b:1'' 1]"

lemma sample_toManaged:
  "\<exists>x. x \<noteq> NaN \<and> (\<forall>cp. toManaged (sampleEnvChans cs) sampleCfg 7201 (sampleChannel cp 1) =
     Ok \<lparr>mc_Lifetime = 7200000000000, mc_ChanPoint = cp,
       mc_Sid = e_NewShortChanIDFromInt (sampleEnvChans cs) (2 ^ 40), mc_RemotePubkey = nodeString sampleNode,
       mc_Capacity = 1048576, mc_LocalBalance = 1000000, mc_RemoteBalance = 40000, mc_TotalAtomsSent = 4096,
       mc_HasMinLifetime = True, mc_Score = x, mc_WillClose = False\<rparr>)"
proof -
  obtain x where x: "channelActivity 4096 1048576 7200000000000 = Ok x"
    using channelActivity_value [of 7200000000000 1048576 4096] by simp
  have l: "channelLifetime sampleCfg 7201 (e_NewShortChanIDFromInt (sampleEnvChans cs) (2 ^ 40)) = 7200000000000"
    using sample_sid(1) [of cs] by (simp add: channelLifetime_def sampleCfg_def sampleChannel_def)
  have "MinChanLifetime sampleCfg = hour" by (simp add: sampleCfg_def)
  with l x channelActivity_not_NaN [OF x] show ?thesis
    by (intro exI [of _ x]) (simp add: toManaged_def Let_def sampleChannel_def i64_le_def)
qed

lemma sample_report:
  "\<exists>info x y. sampleReport sampleTwo = Ok info \<and> mi_NeedsManagement info \<and> mi_Channels info = [x, y] \<and>
     mc_WillClose x \<and> mc_ChanPoint x = ''a:0'' \<and> \<not> mc_WillClose y \<and> mc_HasMinLifetime y"
proof -
  from sample_toManaged [of sampleTwo] obtain x where x: "x \<noteq> NaN"
    "\<And>cp. toManaged (sampleEnvChans sampleTwo) sampleCfg 7201 (sampleChannel cp 1) =
     Ok \<lparr>mc_Lifetime = 7200000000000, mc_ChanPoint = cp,
       mc_Sid = e_NewShortChanIDFromInt (sampleEnvChans sampleTwo) (2 ^ 40), mc_RemotePubkey = nodeString sampleNode,
       mc_Capacity = 1048576, mc_LocalBalance = 1000000, mc_RemoteBalance = 40000, mc_TotalAtomsSent = 4096,
       mc_HasMinLifetime = True, mc_Score = x, mc_WillClose = False\<rparr>" by blast
  have i: "\<not> isChannelIgnored sampleCfg (sampleChannel cp 1)" for cp
    by (simp add: isChannelIgnored_def sampleChannel_def sampleCfg_def)
  have "MinWalletBalance sampleCfg = 5000" by (simp add: sampleCfg_def)
  with x i show ?thesis
    by (simp add: sampleReport_def managementReport_def Let_def i64_lt_def i64_le_def sampleTwo_def
        goInsertionSort_def scoreLess_def)
qed

section \<open>Properties\<close>

text \<open>
  C21. The report covers every channel once: those opened by the daemon and not excluded by the
  configuration are managed, in the order of their scores; all others are unmanaged, in the order
  of dcrlnd's answer.
\<close>

theorem report_partition:
  assumes "slice_sort srt" and "managementReport srt E cfg walletBal pend chans gi = Ok info"
  shows "mset (map unmark (mi_Channels info)) =
       mset (List.map_filter (managedOf E cfg (gi_BlockHeight gi)) (filter (\<lambda>c. \<not> isChannelIgnored cfg c) chans)) \<and>
     length (mi_Channels info) + length (mi_UnmanagedChannels info) = length chans \<and>
     mi_UnmanagedChannels info = map (toUnmanaged E) (filter (isChannelIgnored cfg) chans) \<and>
     sorted_wrt (\<lambda>x y. f64_le (mc_Score x) (mc_Score y)) (mi_Channels info)"
proof -
  let ?h = "gi_BlockHeight gi" and ?cs = "filter (\<lambda>c. \<not> isChannelIgnored cfg c) chans"
  from report_sorted [OF assms] obtain ms where
    c: "classifyChannels E cfg ?h [] [] chans = Ok (ms, mi_UnmanagedChannels info)" and
    un: "map unmark (mi_Channels info) = srt scoreLess ms" and
    so: "sorted_wrt (\<lambda>x y. f64_le (mc_Score x) (mc_Score y)) (srt scoreLess ms)" by metis
  from c have ms: "ms = List.map_filter (managedOf E cfg ?h) ?cs"
    and us: "mi_UnmanagedChannels info = map (toUnmanaged E) (filter (isChannelIgnored cfg) chans)"
    and ok: "\<forall>c \<in> set ?cs. \<exists>m. managedOf E cfg ?h c = Some m"
    by (auto simp: classify_Ok managedOf_def split: res.split)
  have len: "length (List.map_filter (managedOf E cfg ?h) xs) = length xs"
    if "\<forall>c \<in> set xs. \<exists>m. managedOf E cfg ?h c = Some m" for xs
    using that by (induction xs) (auto simp: map_filter_simps)
  have "length (map unmark (mi_Channels info)) = length ms" unfolding un by (rule slice_sort.length_srt [OF assms(1)])
  then have l: "length (mi_Channels info) + length (mi_UnmanagedChannels info) = length chans"
    using len [OF ok] sum_length_filter_compl [of "isChannelIgnored cfg" chans] by (simp add: ms us)
  have "sorted_wrt (\<lambda>x y. f64_le (mc_Score x) (mc_Score y)) (mi_Channels info)"
    using so by (simp add: sorted_wrt_map unmark_def flip: un)
  then show ?thesis using un us l slice_sort.mset_srt [OF assms(1), of scoreLess ms] by (simp add: ms)
qed

theorem report_partition_witness:
  "\<exists>info. sampleReport sampleTwo = Ok info \<and>
     length (mi_Channels info) + length (mi_UnmanagedChannels info) = 2"
proof -
  obtain info where i: "sampleReport sampleTwo = Ok info" using sample_report by blast
  from report_partition [OF goInsertionSort_slice_sort i [unfolded sampleReport_def]] i show ?thesis
    by (auto simp: sampleTwo_def)
qed



text \<open>
  C19. Every channel that is marked for closing is a listed one of the required age at the height that was reported,
  whether or not another one of that age is kept; and a channel of that age that is kept scores at
  least as much as every channel that is closed.
\<close>

theorem lowest_scores_close:
  assumes "slice_sort srt" and "managementReport srt E cfg walletBal pend chans gi = Ok info"
    and "x \<in> set (mi_Channels info)" "mc_WillClose x"
  shows "(\<exists>c \<in> set chans. mc_ChanPoint x = ch_ChannelPoint c \<and> \<not> isChannelIgnored cfg c \<and>
      i64_le (MinChanLifetime cfg) (ucast (gi_BlockHeight gi - BlockHeight (e_NewShortChanIDFromInt E (ch_ChanId c))) *
        TargetTimePerBlock (ChainParams cfg))) \<and>
    (\<forall>y \<in> set (mi_Channels info). \<not> mc_WillClose y \<and> i64_le (MinChanLifetime cfg) (mc_Lifetime y) \<longrightarrow>
      f64_le (mc_Score x) (mc_Score y))"
proof -
  from report_sorted [OF assms(1,2)] obtain ms where
    nm: "\<forall>c \<in> set (srt scoreLess ms). \<not> mc_WillClose c" and
    so: "sorted_wrt (\<lambda>x y. f64_le (mc_Score x) (mc_Score y)) (srt scoreLess ms)" and
    m: "if mi_NeedsManagement info
      then markClosing (MinWalletBalance cfg) (sum_list (LimboBalances pend) + walletBal) 0 (srt scoreLess ms) =
        (mi_Channels info, mi_Reclaimed info)
      else marked (mi_Channels info) = [] \<and> mi_Reclaimed info = 0" .
  from m assms(3,4) have mk: "markClosing (MinWalletBalance cfg) (sum_list (LimboBalances pend) + walletBal) 0
      (srt scoreLess ms) = (mi_Channels info, mi_Reclaimed info)"
    by (auto simp: marked_def filter_empty_conv split: if_splits)
  from markClosing_marks [OF mk nm assms(3,4)] have age: "mc_HasMinLifetime x" by blast
  from report_member [OF assms(1-3)] obtain c where "c \<in> set chans" "\<not> isChannelIgnored cfg c"
    "mc_ChanPoint x = ch_ChannelPoint c"
    "mc_Lifetime x = ucast (gi_BlockHeight gi - BlockHeight (e_NewShortChanIDFromInt E (ch_ChanId c))) *
       TargetTimePerBlock (ChainParams cfg)" "mc_HasMinLifetime x \<longleftrightarrow> i64_le (MinChanLifetime cfg) (mc_Lifetime x)" .
  moreover have "f64_le (mc_Score x) (mc_Score y)"
    if y: "y \<in> set (mi_Channels info)" "\<not> mc_WillClose y" "i64_le (MinChanLifetime cfg) (mc_Lifetime y)" for y
  proof -
    from report_member [OF assms(1,2) y(1)] y(3) have "mc_HasMinLifetime y" by metis
    from markClosing_lowest [OF mk nm so assms(3,4) y(1) this y(2)] show ?thesis .
  qed
  ultimately show ?thesis using age by auto
qed

theorem lowest_scores_close_witness:
  "\<exists>info x y. sampleReport sampleTwo = Ok info \<and> mi_Channels info = [x, y] \<and> mc_WillClose x \<and>
     (\<exists>c \<in> set sampleTwo. mc_ChanPoint x = ch_ChannelPoint c) \<and>
     (i64_le (MinChanLifetime sampleCfg) (mc_Lifetime y) \<longrightarrow> f64_le (mc_Score x) (mc_Score y))"
proof -
  obtain info x y where i: "sampleReport sampleTwo = Ok info" "mi_Channels info = [x, y]"
    "mc_WillClose x" "\<not> mc_WillClose y" using sample_report by blast
  from lowest_scores_close [OF goInsertionSort_slice_sort i(1) [unfolded sampleReport_def] _ i(3)] i
  show ?thesis by auto
qed

text \<open>
  Fetching the report panics exactly when some channel that is managed has no positive age or
  capacity; the age is computed with 32-bit heights and 64-bit durations.
\<close>

lemma report_panics:
  "(\<exists>m. managementReport srt E cfg walletBal pend chans gi = Panic m) \<longleftrightarrow>
     (\<exists>c \<in> set chans. \<not> isChannelIgnored cfg c \<and>
        (sint (channelLifetime cfg (gi_BlockHeight gi) (e_NewShortChanIDFromInt E (ch_ChanId c))) \<le> 0 \<or>
         sint (ch_Capacity c) \<le> 0))"
  by (auto simp: managementReport_Panic_iff scorable_def)

text \<open>
  A channel of the daemon that was confirmed in the newest block makes the next round of
  management panic, which stops the daemon.
\<close>

lemma new_channel_panics:
  "fst (manageChannels goInsertionSort (sampleEnvChans [sampleChannel ''a:0'' 7201]) sampleCfg sampleState) =
     Panic ''lifetime cannot be <= 0''"
proof -
  have i: "\<not> isChannelIgnored sampleCfg (sampleChannel ''a:0'' 7201)"
    by (simp add: isChannelIgnored_def sampleChannel_def sampleCfg_def)
  have "sampleReport [sampleChannel ''a:0'' 7201] = Panic ''lifetime cannot be <= 0''"
    using i by (simp add: sampleReport_def managementReport_def Let_def toManaged_def channelLifetime_def
        sample_sid channelActivity_def i64_le_def)
  then show ?thesis by (simp add: manageChannels_def sample_fetch)
qed



text \<open>
  Closing a channel sends exactly one request, for the parsed channel point, by force exactly
  when the peer is not connected; a channel point that does not parse sends none.
\<close>

lemma force_only_if_disconnected:
  "(case parseStrChannelPoint str of
      Ok cp \<Rightarrow> events (snd (closeChannel E n str s)) =
        events s @ [EvCloseChannel cp (\<not> fst (isConnectedToNode E n s))]
    | _ \<Rightarrow> snd (closeChannel E n str s) = s)"
proof (cases "parseStrChannelPoint str")
  case (Ok cp)
  obtain conn s1 where i: "isConnectedToNode E n s = (conn, s1)" by force
  obtain r t where c: "rpc (e_CloseChannel E cp (\<not> conn)) (emit (EvCloseChannel cp (\<not> conn)) s1) = (r, t)" by force
  from quiet_rpc [OF c] query_quiet(1) [OF i] show ?thesis
    by (simp add: Ok closeChannel_def i c quiet_def) (simp add: emit_def)
qed (simp_all add: closeChannel_def)

end
