(* ===== verification/Server_System.thy ===== *)
theory Server_System
  imports Open_Channel Invoice_Listener Manage_Channels
begin

text \<open>
  The running server: the goroutines of \<open>Run\<close>, the request handlers and the goroutines they start,
  interleaved in any order. A step is a stretch of code between two points where another goroutine
  can change the server's own state; what happens outside (dcrlnd, the clock, other processes) is
  the step \<open>outside\<close>, which puts any world in place. \<open>restart\<close> is a crash and a new start: the
  table and the goroutines are lost, the files stay. A panic ends the process, so it is no step.
\<close>

type_synonym sorter =
  "(managedChannel \<Rightarrow> managedChannel \<Rightarrow> bool) \<Rightarrow> managedChannel list \<Rightarrow> managedChannel list"

section \<open>The steps\<close>

text \<open>\<open>CreateInvoice\<close> in two steps: admission, then the invoice.\<close>

definition requestStep :: "'w env \<Rightarrow> config \<Rightarrow> waitingInvoice \<Rightarrow> 'w sys \<Rightarrow> 'w sys" where
  "requestStep E cfg w s = (case admit E cfg w s of
      (Ok _, t) \<Rightarrow> spawn (CreateTask w) t
    | (_, t) \<Rightarrow> t)"

definition putBack :: "openPhase option \<Rightarrow> waitingInvoice \<Rightarrow> task list" where
  "putBack nxt w = (case nxt of None \<Rightarrow> [] | Some ph \<Rightarrow> [OpenTask w ph])"

inductive step :: "sorter \<Rightarrow> 'w env \<Rightarrow> config \<Rightarrow> 'w sys \<Rightarrow> 'w sys \<Rightarrow> bool" for srt E cfg where
  outside: "step srt E cfg s (s\<lparr>world := w\<rparr>)"
| request: "wf_winv w \<Longrightarrow> step srt E cfg s (requestStep E cfg w s)"
| issue: "tasks s = xs @ CreateTask w # ys \<Longrightarrow> issueInvoice E cfg w s = (r, t) \<Longrightarrow>
    step srt E cfg s (t\<lparr>tasks := xs @ ys\<rparr>)"
| update: "handleInvoiceUpdate E cfg i s = (r, t) \<Longrightarrow> step srt E cfg s t"
| pause: "step srt E cfg s (listenDelay E s)"
| open_step: "tasks s = xs @ OpenTask w ph # ys \<Longrightarrow> openStep E cfg w ph s = (nxt, t) \<Longrightarrow>
    step srt E cfg s (t\<lparr>tasks := xs @ putBack nxt w @ ys\<rparr>)"
| open_recv: "tasks s = xs @ OpenTask w OpenWatch # ys \<Longrightarrow> openRecv E w u s = (st, t) \<Longrightarrow>
    step srt E cfg s (t\<lparr>tasks := xs @ putBack (if st = Reading then Some OpenWatch else None) w @ ys\<rparr>)"
| sweep: "step srt E cfg s (sweepPending E cfg s)"
| manage: "manageChannels srt E cfg s = (r, t) \<Longrightarrow> \<forall>m. r \<noteq> Panic m \<Longrightarrow> step srt E cfg s t"
| closing: "tasks s = xs @ CloseTask n cp # ys \<Longrightarrow> closeChannel E n cp s = (r, t) \<Longrightarrow>
    step srt E cfg s (t\<lparr>tasks := xs @ ys\<rparr>)"
| restart: "step srt E cfg s (s\<lparr>pendingChans := Map.empty, tasks := []\<rparr>)"

inductive reach :: "sorter \<Rightarrow> 'w env \<Rightarrow> config \<Rightarrow> 'w sys \<Rightarrow> 'w sys \<Rightarrow> bool" for srt E cfg s0 where
  reach_start: "reach srt E cfg s0 s0"
| reach_step: "reach srt E cfg s0 s \<Longrightarrow> step srt E cfg s t \<Longrightarrow> reach srt E cfg s0 t"

lemma reach_run: "reach srt E cfg s0 s \<Longrightarrow> (step srt E cfg)\<^sup>*\<^sup>* s0 s"
  by (induction rule: reach.induct) (auto intro: rtranclp.rtrancl_into_rtrancl)

text \<open>A server that has just started, on the files an earlier run may have left.\<close>

definition fresh :: "'w sys \<Rightarrow> bool" where
  "fresh s \<longleftrightarrow> pendingChans s = Map.empty \<and> tasks s = [] \<and> events s = []"

section \<open>The audit trail\<close>

text \<open>
  What must already be in the trace when an event happens: \<open>entitled E cfg fs A e\<close>, for the files
  \<open>fs\<close> the server started with and the set \<open>A\<close> of the events before \<open>e\<close>.
\<close>

definition policyHolds :: "config \<Rightarrow> waitingInvoice \<Rightarrow> bool" where
  "policyHolds cfg w \<longleftrightarrow> MinChanSize cfg \<le> ChannelSize w \<and> ChannelSize w \<le> MaxChanSize cfg \<and>
     nodeString (TargetNode w) \<notin> IgnoreNodes cfg"

definition recordFrom :: "(string \<rightharpoonup> string) \<Rightarrow> event set \<Rightarrow> string \<Rightarrow> waitingInvoice \<Rightarrow> bool" where
  "recordFrom fs A p w \<longleftrightarrow> EvStored p w \<in> A \<or> EvPartial p \<in> A \<or>
     Option.bind (fs p) decodeWaitingInvoice = Some w"

fun entitled :: "'w env \<Rightarrow> config \<Rightarrow> (string \<rightharpoonup> string) \<Rightarrow> event set \<Rightarrow> event \<Rightarrow> bool" where
  "entitled E cfg fs A (EvStored p w) = (policyHolds cfg w \<and> addInvoiceEv E cfg w \<in> A)"
| "entitled E cfg fs A (EvSpawnOpen p w paid) =
     (sint (amountForNewChan E cfg (ChannelSize w)) \<le> sint paid \<and> recordFrom fs A p w)"
| "entitled E cfg fs A (EvOpenChannel n a) =
     (\<exists>p w paid. EvSpawnOpen p w paid \<in> A \<and> TargetNode w = n \<and> ChannelSize w = a)"
| "entitled E cfg fs A (EvAccepted n a) = (EvOpenChannel n a \<in> A)"
| "entitled E cfg fs A (EvCloseChannel cp f) =
     (\<exists>n str. EvSpawnClose n str \<in> A \<and> parseStrChannelPoint str = Ok cp)"
| "entitled E cfg fs A _ = True"

fun audited :: "'w env \<Rightarrow> config \<Rightarrow> (string \<rightharpoonup> string) \<Rightarrow> event set \<Rightarrow> event list \<Rightarrow> bool" where
  "audited E cfg fs A [] = True"
| "audited E cfg fs A (e # es) = (entitled E cfg fs A e \<and> audited E cfg fs (insert e A) es)"

lemma audited_append [simp]:
  "audited E cfg fs A (xs @ ys) \<longleftrightarrow> audited E cfg fs A xs \<and> audited E cfg fs (A \<union> set xs) ys"
  by (induction xs arbitrary: A) auto

lemma audited_split:
  "audited E cfg fs {} (xs @ e # ys) \<Longrightarrow> entitled E cfg fs (set xs) e"
  by simp

text \<open>What a goroutine under way has been started for.\<close>

fun taskEntitled :: "config \<Rightarrow> event set \<Rightarrow> task \<Rightarrow> bool" where
  "taskEntitled cfg A (CreateTask w) = (policyHolds cfg w \<and> wf_winv w)"
| "taskEntitled cfg A (OpenTask w ph) = (\<exists>p paid. EvSpawnOpen p w paid \<in> A)"
| "taskEntitled cfg A (CloseTask n cp) = (EvSpawnClose n cp \<in> A)"

lemma taskEntitled_mono: "taskEntitled cfg A t \<Longrightarrow> A \<subseteq> B \<Longrightarrow> taskEntitled cfg B t"
  by (cases t) auto

text \<open>Where the contents of a file come from.\<close>

definition fileFrom :: "(string \<rightharpoonup> string) \<Rightarrow> event set \<Rightarrow> string \<Rightarrow> string \<Rightarrow> bool" where
  "fileFrom fs A p c \<longleftrightarrow> (\<exists>w. EvStored p w \<in> A \<and> wf_winv w \<and> c = encodeWaitingInvoice w) \<or>
     EvPartial p \<in> A \<or> fs p = Some c"

lemma fileFrom_mono: "fileFrom fs A p c \<Longrightarrow> A \<subseteq> B \<Longrightarrow> fileFrom fs B p c"
  by (auto simp: fileFrom_def)

lemma fileFrom_record: "fileFrom fs A p c \<Longrightarrow> decodeWaitingInvoice c = Some w \<Longrightarrow> recordFrom fs A p w"
  by (auto simp: fileFrom_def recordFrom_def decode_encode_winv)

definition trail :: "'w env \<Rightarrow> config \<Rightarrow> (string \<rightharpoonup> string) \<Rightarrow> 'w sys \<Rightarrow> bool" where
  "trail E cfg fs s \<longleftrightarrow> audited E cfg fs {} (events s) \<and>
     (\<forall>t \<in> set (tasks s). taskEntitled cfg (set (events s)) t) \<and>
     (\<forall>p c. files s p = Some c \<longrightarrow> fileFrom fs (set (events s)) p c)"

text \<open>
  The one way every step extends the trail: entitled events are appended, the goroutines are old
  ones or entitled, and the files are old ones or come from the new events.
\<close>

lemma trail_extend:
  assumes "trail E cfg fs s" and "events t = events s @ evs"
    and "audited E cfg fs (set (events s)) evs"
    and "\<And>k. k \<in> set (tasks t) \<Longrightarrow> k \<notin> set (tasks s) \<Longrightarrow> taskEntitled cfg (set (events s) \<union> set evs) k"
    and "\<And>p c. files t p = Some c \<Longrightarrow> files s p \<noteq> Some c \<Longrightarrow> fileFrom fs (set (events s) \<union> set evs) p c"
  shows "trail E cfg fs t"
  unfolding trail_def
proof (intro conjI ballI allI impI)
  show "audited E cfg fs {} (events t)" using assms(1-3) by (simp add: trail_def)
next
  fix k assume "k \<in> set (tasks t)"
  with assms(1,2,4) taskEntitled_mono [of cfg "set (events s)" k "set (events t)"]
  show "taskEntitled cfg (set (events t)) k" by (cases "k \<in> set (tasks s)") (auto simp: trail_def)
next
  fix p c assume "files t p = Some c"
  with assms(1,2,5) fileFrom_mono [of fs "set (events s)" p c "set (events t)"]
  show "fileFrom fs (set (events t)) p c" by (cases "files s p = Some c") (auto simp: trail_def)
qed

lemma trail_quiet: "trail E cfg fs s \<Longrightarrow> quiet s t \<Longrightarrow> trail E cfg fs t"
  by (simp add: trail_def quiet_def)

lemma trail_cong:
  "trail E cfg fs s \<Longrightarrow> events t = events s \<Longrightarrow> files t = files s \<Longrightarrow> set (tasks t) \<subseteq> set (tasks s) \<Longrightarrow>
     trail E cfg fs t"
  by (auto simp: trail_def)

lemma admit_policy: "admit E cfg w s = (Ok u, t) \<Longrightarrow> policyHolds cfg w"
  using admit_Ok [of E cfg w s t] canCreateChannel_Ok [of E cfg w s] by (auto simp: policyHolds_def)

lemma requestStep_frame:
  "files (requestStep E cfg w s) = files s" "events (requestStep E cfg w s) = events s"
  "tasks (requestStep E cfg w s) = tasks s \<or>
     policyHolds cfg w \<and> tasks (requestStep E cfg w s) = tasks s @ [CreateTask w]"
proof -
  obtain r t where a: "admit E cfg w s = (r, t)" by force
  from admit_frame [OF a] admit_policy [of E cfg w s] a show
    "files (requestStep E cfg w s) = files s" "events (requestStep E cfg w s) = events s"
    "tasks (requestStep E cfg w s) = tasks s \<or>
       policyHolds cfg w \<and> tasks (requestStep E cfg w s) = tasks s @ [CreateTask w]"
    by (cases r; simp add: requestStep_def spawn_def)+
qed

lemma sweepPending_frame [simp]:
  "files (sweepPending E cfg s) = files s" "events (sweepPending E cfg s) = events s"
  "tasks (sweepPending E cfg s) = tasks s"
  by (auto simp: sweepPending_def ask_def split: prod.split)

lemma audited_delays [simp]: "audited E cfg fs A (map EvDelay ds)"
  by (induction ds arbitrary: A) auto

lemma openEvents_audited:
  assumes "evs \<in> openEvents w" and "EvSpawnOpen p w paid \<in> A"
  shows "audited E cfg fs A evs"
proof -
  have e: "entitled E cfg fs A (EvOpenChannel (TargetNode w) (ChannelSize w))"
    unfolding entitled.simps by (intro exI conjI) (rule assms(2), simp_all)
  then show ?thesis using assms(1) by (auto simp: openEvents_def simp del: entitled.simps(3))
qed

lemma closeChannel_effect:
  assumes "closeChannel E n cp s = (r, t)"
  shows "files t = files s \<and> pendingChans t = pendingChans s \<and> tasks t = tasks s \<and>
    (events t = events s \<or>
     (\<exists>c f. parseStrChannelPoint cp = Ok c \<and> events t = events s @ [EvCloseChannel c f]))"
proof (cases "parseStrChannelPoint cp")
  case (Ok c)
  obtain conn s1 where i: "isConnectedToNode E n s = (conn, s1)" by force
  from query_quiet(1) [OF i] have "quiet s s1" .
  moreover from assms have "rpc (e_CloseChannel E c (\<not> conn)) (emit (EvCloseChannel c (\<not> conn)) s1) = (r, t)"
    by (simp add: closeChannel_def Ok i)
  then have "quiet (emit (EvCloseChannel c (\<not> conn)) s1) t" by (rule quiet_rpc)
  ultimately show ?thesis by (auto simp: quiet_def emit_def Ok)
qed (use assms in \<open>auto simp: closeChannel_def\<close>)

lemma audited_closeEvents [simp]: "audited E cfg fs A (map closeEvent cs)"
  by (induction cs arbitrary: A) (auto simp: closeEvent_def)

lemma trail_issue:
  assumes tr: "trail E cfg fs s" and ts: "tasks s = xs @ CreateTask w # ys"
    and i: "issueInvoice E cfg w s = (r, t)"
  shows "trail E cfg fs (t\<lparr>tasks := xs @ ys\<rparr>)"
proof -
  from tr ts have w: "policyHolds cfg w" "wf_winv w" by (auto simp: trail_def)
  from i show ?thesis
  proof (cases rule: issueInvoice_cases)
    case (issued p rhash)
    with w ts show ?thesis
      by (intro trail_extend [OF tr, where evs = "[addInvoiceEv E cfg w, EvStored (invoicePath cfg rhash) w]"])
        (auto simp: addInvoiceEv_def fileFrom_def split: if_splits)
  next
    case (failed e)
    with w ts show ?thesis
      by (intro trail_extend [OF tr, where evs = "[addInvoiceEv E cfg w]"]) (auto simp: addInvoiceEv_def)
  next
    case (partial e rhash part)
    with w ts show ?thesis
      by (intro trail_extend [OF tr, where evs = "[addInvoiceEv E cfg w, EvPartial (invoicePath cfg rhash)]"])
        (auto simp: addInvoiceEv_def fileFrom_def split: if_splits)
  qed
qed

lemma trail_update:
  assumes tr: "trail E cfg fs s" and h: "handleInvoiceUpdate E cfg i s = (r, t)"
  shows "trail E cfg fs t"
  using h
proof (cases rule: handleInvoiceUpdate_cases)
  case canceled
  then show ?thesis by (intro trail_extend [OF tr, where evs = "[]"]) (auto split: if_splits)
next
  case (paid winv c)
  let ?p = "invoicePath cfg (inv_RHash i)"
  from tr paid(3) have "fileFrom fs (set (events s)) ?p c" by (auto simp: trail_def)
  then have "recordFrom fs (set (events s)) ?p winv" using paid(4) by (rule fileFrom_record)
  with paid show ?thesis
    by (intro trail_extend [OF tr, where evs = "[EvSpawnOpen ?p winv (inv_AmtPaidAtoms i)]"])
      (auto split: if_splits)
qed (use tr trail_quiet in blast)+

lemma trail_open_step:
  assumes tr: "trail E cfg fs s" and ts: "tasks s = xs @ OpenTask w ph # ys"
    and o: "openStep E cfg w ph s = (nxt, t)"
  shows "trail E cfg fs (t\<lparr>tasks := xs @ putBack nxt w @ ys\<rparr>)"
proof -
  from tr ts obtain p paid where sp: "EvSpawnOpen p w paid \<in> set (events s)" by (auto simp: trail_def)
  from openStep_effect [OF o] obtain evs where evs: "evs \<in> openEvents w" "traced evs s t" by blast
  show ?thesis
    by (rule trail_extend [OF tr, where evs = evs])
      (use evs ts sp openEvents_audited [OF evs(1) sp] in
        \<open>auto simp: traced_def putBack_def split: option.splits\<close>)
qed

lemma listenDelay_effect [simp]:
  "events (listenDelay E s) = events s @ [EvDelay second]" "files (listenDelay E s) = files s"
  "tasks (listenDelay E s) = tasks s" "pendingChans (listenDelay E s) = pendingChans s"
  by (simp_all add: listenDelay_def ask_def emit_def split: prod.split)

lemma trail_step: "step srt E cfg s t \<Longrightarrow> trail E cfg fs s \<Longrightarrow> trail E cfg fs t"
proof (induction rule: step.induct)
  case (outside s w)
  then show ?case by (rule trail_quiet) simp
next
  case (request w s)
  show ?case
    by (rule trail_extend [OF request(2), where evs = "[]"])
      (use request(1) requestStep_frame [of E cfg w s] in auto)
next
  case (open_recv s xs w ys u st t)
  from openRecv_frame [OF open_recv(2)] have t: "events t = events s" "files t = files s"
    by (auto simp: dropPending_def)
  show ?case
    by (rule trail_cong [OF open_recv(3)]) (use t open_recv(1) in \<open>auto simp: putBack_def\<close>)
next
  case (pause s)
  show ?case by (rule trail_extend [OF pause, where evs = "[EvDelay second]"]) auto
next
  case (sweep s)
  then show ?case by (rule trail_cong) simp_all
next
  case (manage s r t)
  from manage(1) show ?case
  proof (cases rule: manageChannels_cases)
    case (closing info)
    show ?thesis
      by (rule trail_extend [OF manage(3), where evs = "map closeEvent (marked (mi_Channels info))"])
        (use closing in \<open>auto simp: closeTask_def closeEvent_def\<close>)
  qed (use manage(3) trail_quiet in blast)+
next
  case (closing s xs n cp ys r t)
  then have sp: "EvSpawnClose n cp \<in> set (events s)" by (auto simp: trail_def)
  from closeChannel_effect [OF closing(2)] consider "files t = files s" "events t = events s"
    | c f where "files t = files s" "parseStrChannelPoint cp = Ok c" "events t = events s @ [EvCloseChannel c f]"
    by blast
  then show ?case
  proof cases
    case 1
    show ?thesis by (rule trail_cong [OF closing(3)]) (use 1 closing(1) in auto)
  next
    case (2 c f)
    show ?thesis
      by (rule trail_extend [OF closing(3), where evs = "[EvCloseChannel c f]"]) (use 2 closing(1) sp in auto)
  qed
next
  case (restart s)
  then show ?case by (rule trail_cong) simp_all
qed (simp_all add: trail_issue trail_update trail_open_step)

interpretation trail_kept: invariant_system "step srt E cfg" "trail E cfg fs" for srt E cfg fs
  by unfold_locales (rule trail_step)

lemma trail_reach: "reach srt E cfg s0 s \<Longrightarrow> fresh s0 \<Longrightarrow> trail E cfg (files s0) s"
  by (rule trail_kept.ok_run [OF reach_run]) (auto simp: trail_def fresh_def fileFrom_def)

section \<open>Counting\<close>

text \<open>Writes of the file at a path, whole or partial: each entitles to one opening.\<close>

fun isWriteAt :: "string \<Rightarrow> event \<Rightarrow> bool" where
  "isWriteAt p (EvStored q w) = (q = p)"
| "isWriteAt p (EvPartial q) = (q = p)"
| "isWriteAt p _ = False"

definition writeCount :: "string \<Rightarrow> event list \<Rightarrow> nat" where
  "writeCount p evs = length (filter (isWriteAt p) evs)"

lemma writeCount_simps [simp]:
  "writeCount p [] = 0" "writeCount p (xs @ ys) = writeCount p xs + writeCount p ys"
  "writeCount p (e # evs) = (if isWriteAt p e then 1 else 0) + writeCount p evs"
  by (simp_all add: writeCount_def)

definition solvent :: "nat \<Rightarrow> string \<Rightarrow> 'w sys \<Rightarrow> bool" where
  "solvent n p s \<longleftrightarrow> credit p s \<le> writeCount p (events s) + n"

lemma solvent_extend:
  assumes "solvent n p s" and "events t = events s @ evs"
    and "spawnCount p evs + present p t \<le> present p s + writeCount p evs"
  shows "solvent n p t"
  using assms by (simp add: solvent_def credit_def)

lemma openEvents_counts:
  assumes "evs \<in> openEvents w"
  shows "spawnCount p evs = 0" "writeCount p evs = 0"
proof -
  have "filter (isSpawnAt p) (map EvDelay ds) = []" "filter (isWriteAt p) (map EvDelay ds) = []" for ds
    by (induction ds) auto
  then show "spawnCount p evs = 0" "writeCount p evs = 0"
    using assms by (auto simp: openEvents_def spawnCount_def writeCount_def)
qed

lemma closeEvents_counts [simp]: "spawnCount p (map closeEvent cs) = 0" "writeCount p (map closeEvent cs) = 0"
  by (induction cs) (simp_all add: closeEvent_def)

lemma solvent_step: "step srt E cfg s t \<Longrightarrow> solvent n p s \<Longrightarrow> solvent n p t"
proof (induction rule: step.induct)
  case (request w s)
  with requestStep_frame [of E cfg w s] show ?case by (simp add: solvent_def credit_def present_def)
next
  case (issue s xs w ys r t)
  from issue(2) show ?case
    by (cases rule: issueInvoice_cases)
      (use issue(3) in \<open>auto simp: solvent_def credit_def present_def addInvoiceEv_def\<close>)
next
  case (update i s r t)
  from update(1) show ?case
    by (cases rule: handleInvoiceUpdate_cases)
      (use update(2) in \<open>auto simp: solvent_def credit_def present_def quiet_def\<close>)
next
  case (open_step s xs w ph ys nxt t)
  from openStep_effect [OF open_step(2)] obtain evs where evs: "evs \<in> openEvents w" "traced evs s t" by blast
  then show ?case
    by (intro solvent_extend [OF open_step(3)]) (auto simp: openEvents_counts traced_def present_def)
next
  case (open_recv s xs w ys u st t)
  from openRecv_frame [OF open_recv(2)] open_recv(3) show ?case
    by (auto simp: solvent_def credit_def present_def dropPending_def)
next
  case (manage s r t)
  from manage(1) show ?case
    by (cases rule: manageChannels_cases)
      (use manage(3) in \<open>auto simp: solvent_def credit_def present_def quiet_def\<close>)
next
  case (closing s xs c cp ys r t)
  from closeChannel_effect [OF closing(2)] closing(3) show ?case
    by (auto simp: solvent_def credit_def present_def)
qed (simp_all add: solvent_def credit_def present_def)

interpretation solvent_kept: invariant_system "step srt E cfg" "solvent n p" for srt E cfg n p
  by unfold_locales (rule solvent_step)

lemma solvent_reach: "reach srt E cfg s0 s \<Longrightarrow> fresh s0 \<Longrightarrow> solvent (present p s0) p s"
  by (rule solvent_kept.ok_run [OF reach_run]) (auto simp: solvent_def credit_def fresh_def)

text \<open>The requests to open channels, against the openings that were started.\<close>

fun isSpawn :: "event \<Rightarrow> bool" where
  "isSpawn (EvSpawnOpen p w a) = True"
| "isSpawn _ = False"

fun phaseOf :: "task \<Rightarrow> openPhase option" where
  "phaseOf (OpenTask w ph) = Some ph"
| "phaseOf _ = None"

definition opensDue :: "task list \<Rightarrow> nat" where
  "opensDue ts = sum_list (map (opensLeft \<circ> phaseOf) ts)"

definition acceptsDue :: "task list \<Rightarrow> nat" where
  "acceptsDue ts = sum_list (map (acceptsLeft \<circ> phaseOf) ts)"

definition budget :: "'w sys \<Rightarrow> bool" where
  "budget s \<longleftrightarrow>
     length (filter isOpenEv (events s)) + opensDue (tasks s) \<le> maxAttempts * length (filter isSpawn (events s)) \<and>
     length (filter isAcceptedEv (events s)) + acceptsDue (tasks s) \<le> length (filter isSpawn (events s))"

lemma due_simps [simp]:
  "opensDue [] = 0" "opensDue (xs @ ys) = opensDue xs + opensDue ys"
  "opensDue (t # ts) = opensLeft (phaseOf t) + opensDue ts"
  "acceptsDue [] = 0" "acceptsDue (xs @ ys) = acceptsDue xs + acceptsDue ys"
  "acceptsDue (t # ts) = acceptsLeft (phaseOf t) + acceptsDue ts"
  "opensDue (map closeTask cs) = 0" "acceptsDue (map closeTask cs) = 0"
  "opensDue (putBack nxt w) = opensLeft nxt" "acceptsDue (putBack nxt w) = acceptsLeft nxt"
  by (simp_all add: opensDue_def acceptsDue_def putBack_def closeTask_def o_def split: option.split)

lemma openEvents_no_spawn: "evs \<in> openEvents w \<Longrightarrow> filter isSpawn evs = []"
proof -
  have "filter isSpawn (map EvDelay ds) = []" for ds by (induction ds) auto
  then show "evs \<in> openEvents w \<Longrightarrow> filter isSpawn evs = []" by (auto simp: openEvents_def)
qed

lemma closeEvents_filters [simp]:
  "filter isSpawn (map closeEvent cs) = []" "filter isOpenEv (map closeEvent cs) = []"
  "filter isAcceptedEv (map closeEvent cs) = []"
  by (induction cs) (auto simp: closeEvent_def)

lemma budget_step: "step srt E cfg s t \<Longrightarrow> budget s \<Longrightarrow> budget t"
proof (induction rule: step.induct)
  case (request w s)
  with requestStep_frame [of E cfg w s] show ?case by (auto simp: budget_def)
next
  case (issue s xs w ys r t)
  from issue(2) show ?case
    by (cases rule: issueInvoice_cases) (use issue(1,3) in \<open>auto simp: budget_def addInvoiceEv_def\<close>)
next
  case (update i s r t)
  from update(1) show ?case
    by (cases rule: handleInvoiceUpdate_cases) (use update(2) in \<open>auto simp: budget_def quiet_def\<close>)
next
  case (open_step s xs w ph ys nxt t)
  from openStep_effect [OF open_step(2)] obtain evs where evs: "evs \<in> openEvents w" "traced evs s t"
    "length (filter isOpenEv evs) + opensLeft nxt \<le> opensLeft (Some ph)"
    "length (filter isAcceptedEv evs) + acceptsLeft nxt \<le> acceptsLeft (Some ph)" by blast
  with open_step(1,3) openEvents_no_spawn [OF evs(1)] show ?case by (auto simp: budget_def traced_def)
next
  case (open_recv s xs w ys u st t)
  from openRecv_frame [OF open_recv(2)] open_recv(1,3) show ?case
    by (auto simp: budget_def dropPending_def)
next
  case (manage s r t)
  from manage(1) show ?case
    by (cases rule: manageChannels_cases) (use manage(3) in \<open>auto simp: budget_def quiet_def\<close>)
next
  case (closing s xs c cp ys r t)
  from closeChannel_effect [OF closing(2)] closing(1,3) show ?case by (auto simp: budget_def)
qed (auto simp: budget_def)

interpretation budget_kept: invariant_system "step srt E cfg" "budget" for srt E cfg
  by unfold_locales (rule budget_step)

lemma budget_reach: "reach srt E cfg s0 s \<Longrightarrow> fresh s0 \<Longrightarrow> budget s"
  by (rule budget_kept.ok_run [OF reach_run]) (auto simp: budget_def fresh_def)

section \<open>A concrete run\<close>

text \<open>A request, its invoice, the payment, and the opening up to the accepted request to dcrlnd.\<close>

definition samplePath :: string where
  "samplePath = invoicePath sampleCfg [1, 2, 3]"

definition samplePaid :: invoice where
  "samplePaid = \<lparr>inv_State = InvSettled, inv_RHash = [1, 2, 3], inv_AmtPaidAtoms = 65536\<rparr>"

definition sampleTrace :: "event list" where
  "sampleTrace = [addInvoiceEv sampleEnv sampleCfg sampleInvoice, EvStored samplePath sampleInvoice,
     EvSpawnOpen samplePath sampleInvoice 65536,
     EvOpenChannel sampleNode 1048576, EvAccepted sampleNode 1048576]"

definition sampleEnd :: "int sys" where
  "sampleEnd = sampleState\<lparr>world := 1, pendingChans := [sampleNode \<mapsto> 0],
     tasks := [OpenTask sampleInvoice OpenWatch], events := sampleTrace\<rparr>"

lemma sample_update:
  assumes "files s samplePath = Some (encodeWaitingInvoice sampleInvoice)"
  shows "handleInvoiceUpdate sampleEnv sampleCfg samplePaid s =
     (Ok (), s\<lparr>files := (files s)(samplePath := None), tasks := tasks s @ [OpenTask sampleInvoice OpenCheck],
        events := events s @ [EvSpawnOpen samplePath sampleInvoice 65536]\<rparr>)"
proof -
  have "wf_winv sampleInvoice" by (simp add: wf_winv_def)
  then show ?thesis using assms
    by (simp add: handleInvoiceUpdate_def Let_def samplePaid_def samplePath_def readJsonFile_def removeFile_def
        ask_def sampleEnv_def decode_encode_winv sample_price i64_lt_def spawn_def emit_def)
qed

lemma fresh_sampleState [simp]: "fresh sampleState"
  by (simp add: fresh_def sampleState_def)

lemma sample_run: "reach srt sampleEnv sampleCfg sampleState sampleEnd"
proof -
  define s1 where "s1 = sampleState\<lparr>world := 1, pendingChans := [sampleNode \<mapsto> 0], tasks := [CreateTask sampleInvoice]\<rparr>"
  define s2 where "s2 = s1\<lparr>tasks := [], files := [samplePath \<mapsto> encodeWaitingInvoice sampleInvoice],
     events := take 2 sampleTrace\<rparr>"
  define s3 where "s3 = s2\<lparr>tasks := [OpenTask sampleInvoice OpenCheck], files := Map.empty, events := take 3 sampleTrace\<rparr>"
  define s4 where "s4 = s3\<lparr>tasks := [OpenTask sampleInvoice (OpenAttempt 0)]\<rparr>"
  have "requestStep sampleEnv sampleCfg sampleInvoice sampleState = s1"
    unfolding requestStep_def sample_admit by (simp add: s1_def spawn_def sampleState_def)
  then have 1: "step srt sampleEnv sampleCfg sampleState s1"
    using step.request [of sampleInvoice srt sampleEnv sampleCfg sampleState] by (simp add: wf_winv_def)
  have "tasks s1 = [] @ CreateTask sampleInvoice # []" by (simp add: s1_def)
  from step.issue [OF this sample_issue, of srt] have 2: "step srt sampleEnv sampleCfg s1 s2"
    by (simp add: s2_def s1_def sampleTrace_def samplePath_def sampleState_def)
  have f2: "files s2 samplePath = Some (encodeWaitingInvoice sampleInvoice)" by (simp add: s2_def)
  have "s3 = s2\<lparr>files := (files s2)(samplePath := None), tasks := tasks s2 @ [OpenTask sampleInvoice OpenCheck],
      events := events s2 @ [EvSpawnOpen samplePath sampleInvoice 65536]\<rparr>"
    by (simp add: s3_def s2_def sampleTrace_def numeral_3_eq_3 numeral_2_eq_2)
  with step.update [OF sample_update [OF f2], of srt] have 3: "step srt sampleEnv sampleCfg s2 s3" by simp
  have "tasks s3 = [] @ OpenTask sampleInvoice OpenCheck # []" by (simp add: s3_def)
  moreover have "openStep sampleEnv sampleCfg sampleInvoice OpenCheck s3 = (Some (OpenAttempt 0), s3)"
    by (simp add: sample_canCreate)
  ultimately have 4: "step srt sampleEnv sampleCfg s3 s4"
    using step.open_step [of s3 "[]" sampleInvoice OpenCheck "[]" sampleEnv sampleCfg "Some (OpenAttempt 0)" s3 srt]
    by (simp add: putBack_def s4_def)
  have t4: "tasks s4 = [] @ OpenTask sampleInvoice (OpenAttempt 0) # []" by (simp add: s4_def)
  have "openStep sampleEnv sampleCfg sampleInvoice (OpenAttempt 0) s4 = (Some OpenWatch, s4\<lparr>events := sampleTrace\<rparr>)"
    by (simp add: sample_attemptOpen maxAttempts_def)
      (simp add: s4_def s3_def sampleTrace_def numeral_3_eq_3)
  from step.open_step [OF t4 this, of srt] have 5: "step srt sampleEnv sampleCfg s4 sampleEnd"
    by (simp add: putBack_def s4_def s3_def s2_def s1_def sampleEnd_def sampleState_def)
  show ?thesis using 1 2 3 4 5 reach_start reach_step by metis
qed

end
