(* ===== verification/Server_Start.thy ===== *)
theory Server_Start
  imports Server_System
begin

text \<open>
  How the server comes up and goes down: \<open>connectToDcrlnd\<close> and \<open>New\<close> with the checks of chain and
  network, the two timer loops of \<open>Run\<close>, and the theorem that each of the three goroutine loops of
  \<open>Run\<close>, as the code writes them, is a run of the step relation of \<open>Server_System\<close>.
\<close>

section \<open>Connecting\<close>

text \<open>
  The calls of \<open>connectToDcrlnd\<close> to the libraries and the file system: the TLS credentials, the bytes
  of the macaroon file, \<open>UnmarshalBinary\<close> and \<open>NewMacaroonCredential\<close> (with \<open>'m\<close> the macaroon and \<open>'c\<close>
  the credential), and \<open>grpc.NewClient\<close>. \<open>'t\<close> and \<open>'k\<close> are the credentials and the connection.
\<close>

record ('w, 't, 'm, 'c, 'k) dial =
  d_TLSFromFile :: "string \<Rightarrow> 'w \<Rightarrow> (string + 't) \<times> 'w"
  d_ReadFile :: "string \<Rightarrow> 'w \<Rightarrow> (string + string) \<times> 'w"
  d_Unmarshal :: "string \<Rightarrow> string + 'm"
  d_Credential :: "'m \<Rightarrow> string + 'c"
  d_NewClient :: "string \<Rightarrow> 't \<Rightarrow> 'c \<Rightarrow> 'w \<Rightarrow> (string + 'k) \<times> 'w"

definition pureR :: "string + 'a \<Rightarrow> 'a res" where
  "pureR x = (case x of Inl m \<Rightarrow> Err (ErrOther m) | Inr y \<Rightarrow> Ok y)"

definition connectToDcrlnd ::
  "('w, 't, 'm, 'c, 'k) dial \<Rightarrow> string \<Rightarrow> string \<Rightarrow> string \<Rightarrow> 'w sys \<Rightarrow> 'k res \<times> 'w sys" where
  "connectToDcrlnd D addr tlsCertPath macaroonPath s =
     bindR (rpc (d_TLSFromFile D tlsCertPath) s) (\<lambda>creds s1.
     bindR (rpc (d_ReadFile D macaroonPath) s1) (\<lambda>macBytes s2.
     bindR (pureR (d_Unmarshal D macBytes), s2) (\<lambda>mac s3.
     bindR (pureR (d_Credential D mac), s3) (\<lambda>macOpt s4.
     rpc (d_NewClient D addr creds macOpt) s4))))"

section \<open>New\<close>

text \<open>The checks of the node that \<open>New\<close> connects to, and its id.\<close>

definition networkOf :: "string \<Rightarrow> string" where
  "networkOf network = (if network = ''testnet'' then ''testnet3'' else network)"

definition checkNode :: "config \<Rightarrow> getInfo \<Rightarrow> nodeID res" where
  "checkNode cfg lnInfo =
     (case gi_Chains lnInfo of
        [(chain, network)] \<Rightarrow>
          if chain \<noteq> ''decred'' then Err (ErrOther ''unexpected chain in ln node'')
          else if networkOf network \<noteq> Name (ChainParams cfg) then Err (ErrOther ''unexpected network in ln node'')
          else fromString (IdentityPubkey lnInfo)
      | _ \<Rightarrow> Err (ErrOther ''unexpected number of chains in ln node''))"

text \<open>
  The new server holds the node id, an empty table of pending requests, and no goroutines; the files
  are what the root directory already holds.
\<close>

definition newServer ::
  "('w, 't, 'm, 'c, 'k) dial \<Rightarrow> 'w env \<Rightarrow> config \<Rightarrow> 'w sys \<Rightarrow> nodeID res \<times> 'w sys" where
  "newServer D E cfg s =
     bindR (connectToDcrlnd D (LNRPCHost cfg) (LNTLSCertPath cfg) (LNMacaroonPath cfg) s) (\<lambda>conn s1.
     bindR (rpc (e_GetInfo E) s1) (\<lambda>lnInfo s2.
     bindR (checkNode cfg lnInfo, s2) (\<lambda>nodeID s3.
       (Ok nodeID, s3\<lparr>pendingChans := Map.empty, tasks := [], events := []\<rparr>))))"

lemma checkNode_Ok:
  "checkNode cfg lnInfo = Ok u \<longleftrightarrow>
     (\<exists>network. gi_Chains lnInfo = [(''decred'', network)] \<and> networkOf network = Name (ChainParams cfg) \<and>
        fromString (IdentityPubkey lnInfo) = Ok u)"
  by (auto simp: checkNode_def split: list.splits)

lemma quiet_bind:
  "quiet s (snd m) \<Longrightarrow> (\<And>x u. quiet s u \<Longrightarrow> quiet s (snd (k x u))) \<Longrightarrow> quiet s (snd (bindR m k))"
  by (cases m rule: prod.exhaust, rename_tac r t, case_tac r) auto

lemma quiet_rpc_from: "quiet s u \<Longrightarrow> quiet s (snd (rpc f u))"
  by (cases "rpc f u") (auto intro: quiet_trans dest: quiet_rpc)

lemma connect_quiet: "quiet s (snd (connectToDcrlnd D addr tls mac s))"
  unfolding connectToDcrlnd_def
  by (intro quiet_bind quiet_rpc_from) auto

section \<open>The timer loops of Run\<close>

text \<open>What each \<open>select\<close> of a loop sees: the timer, or the end of the context.\<close>

datatype tick = TimerTick | CtxDone

text \<open>
  \<open>runManageChannels\<close>: an error of a round is logged and the loop goes on; a panic ends the process.
  The result is the error the goroutine returns with, once it returns.
\<close>

fun runManageChannels :: "sorter \<Rightarrow> 'w env \<Rightarrow> config \<Rightarrow> tick list \<Rightarrow> 'w sys \<Rightarrow> unit res option \<times> 'w sys" where
  "runManageChannels srt E cfg [] s = (None, s)"
| "runManageChannels srt E cfg (CtxDone # ts) s = (Some (Err ErrCanceled), s)"
| "runManageChannels srt E cfg (TimerTick # ts) s =
     (case manageChannels srt E cfg s of
        (Panic m, s1) \<Rightarrow> (Some (Panic m), s1)
      | (_, s1) \<Rightarrow> runManageChannels srt E cfg ts s1)"

fun runCleanup :: "'w env \<Rightarrow> config \<Rightarrow> tick list \<Rightarrow> 'w sys \<Rightarrow> unit res option \<times> 'w sys" where
  "runCleanup E cfg [] s = (None, s)"
| "runCleanup E cfg (CtxDone # ts) s = (Some (Err ErrCanceled), s)"
| "runCleanup E cfg (TimerTick # ts) s = runCleanup E cfg ts (sweepPending E cfg s)"

subsection \<open>The loops are runs of the step relation\<close>

lemma reach_trans: "reach srt E cfg s t \<Longrightarrow> reach srt E cfg t u \<Longrightarrow> reach srt E cfg s u"
  by (rotate_tac, induction rule: reach.induct) (auto intro: reach_step)

lemma reach_one: "step srt E cfg s t \<Longrightarrow> reach srt E cfg s t"
  by (rule reach_step [OF reach_start])

text \<open>What other goroutines and the node do to the world between two steps of a loop.\<close>

lemma reach_ask: "snd (ask f s) = t \<Longrightarrow> reach srt E cfg s t"
  by (auto simp: ask_def split: prod.splits intro: reach_one step.outside)

lemma cleanup_reach: "runCleanup E cfg ts s = (r, t) \<Longrightarrow> reach srt E cfg s t"
proof (induction ts arbitrary: s)
  case (Cons x ts)
  show ?case
  proof (cases x)
    case TimerTick
    with Cons have "reach srt E cfg (sweepPending E cfg s) t" by simp
    then show ?thesis by (rule reach_trans [OF reach_one [OF step.sweep]])
  qed (use Cons in \<open>auto intro: reach_start\<close>)
qed (auto intro: reach_start)

lemma manage_panic_quiet: "manageChannels srt E cfg s = (Panic m, t) \<Longrightarrow> quiet s t"
  by (erule manageChannels_cases) auto

lemma quiet_reach: "quiet s t \<Longrightarrow> reach srt E cfg s t"
proof -
  assume "quiet s t"
  then have "t = s\<lparr>world := world t\<rparr>" by (cases s; cases t) (simp add: quiet_def)
  then show ?thesis by (metis reach_one step.outside)
qed

lemma manage_reach: "runManageChannels srt E cfg ts s = (r, t) \<Longrightarrow> reach srt E cfg s t"
proof (induction ts arbitrary: s)
  case (Cons x ts)
  show ?case
  proof (cases x)
    case TimerTick
    obtain r1 s1 where m: "manageChannels srt E cfg s = (r1, s1)" by force
    show ?thesis
    proof (cases "\<exists>m. r1 = Panic m")
      case True
      with m have "quiet s s1" by (auto intro: manage_panic_quiet)
      moreover have "s1 = t" using True Cons.prems TimerTick m by auto
      ultimately show ?thesis using quiet_reach by blast
    next
      case False
      then have "reach srt E cfg s s1" using m by (intro reach_one step.manage) auto
      moreover have "runManageChannels srt E cfg ts s1 = (r, t)"
        using Cons.prems TimerTick m False by (cases r1) auto
      ultimately show ?thesis using Cons.IH reach_trans by blast
    qed
  qed (use Cons in \<open>auto intro: reach_start\<close>)
qed (auto intro: reach_start)

lemma handleInvoices_reach: "handleInvoices E cfg is s = (r, t) \<Longrightarrow> reach srt E cfg s t"
proof (induction "is" arbitrary: s)
  case (Cons i "is")
  obtain r1 s1 where i: "handleInvoiceUpdate E cfg i s = (r1, s1)" by force
  have one: "reach srt E cfg s s1" by (rule reach_one [OF step.update [OF i]])
  show ?case
  proof (cases r1)
    case (Ok u)
    with Cons.prems i have "handleInvoices E cfg is s1 = (r, t)" by simp
    from reach_trans [OF one Cons.IH [OF this]] show ?thesis .
  qed (use Cons.prems i one in auto)
qed (auto intro: reach_start)

lemma listen_reach: "listenToInvoices E cfg xs s = (r, t) \<Longrightarrow> reach srt E cfg s t"
proof (induction xs arbitrary: s)
  case (Cons x xs)
  obtain stop s1 where a: "ask (e_CtxDone E) s = (stop, s1)" by force
  have one: "reach srt E cfg s s1" by (rule reach_ask [where f = "e_CtxDone E"]) (simp add: a)
  have pause: "reach srt E cfg u (listenDelay E u)" for u by (rule reach_one [OF step.pause])
  show ?case
  proof (cases stop)
    case True
    with Cons.prems a one show ?thesis by simp
  next
    case False
    show ?thesis
    proof (cases x)
      case SubFailed
      with Cons.prems a False have "listenToInvoices E cfg xs (listenDelay E s1) = (r, t)" by simp
      from reach_trans [OF one reach_trans [OF pause Cons.IH [OF this]]] show ?thesis .
    next
      case (Session "is" broken)
      obtain r2 s2 where h: "handleInvoices E cfg is s1 = (r2, s2)" by force
      have two: "reach srt E cfg s s2" by (rule reach_trans [OF one handleInvoices_reach [OF h]])
      show ?thesis
      proof (cases "r2 = Ok () \<and> broken")
        case True
        with Cons.prems a False Session h have "listenToInvoices E cfg xs (listenDelay E s2) = (r, t)" by simp
        from reach_trans [OF two reach_trans [OF pause Cons.IH [OF this]]] show ?thesis .
      next
        case False
        with Cons.prems a \<open>\<not> stop\<close> Session h have "t = s2" by (cases r2) auto
        with two show ?thesis by simp
      qed
    qed
  qed
qed (auto intro: reach_start)

text \<open>
  A server comes up only on a node of exactly the one chain decred and of the configured network
  (a testnet node counts as testnet3), with the node's id as its own; it starts with no request
  pending, no goroutine and the files of its directory. In every other case it reports an error and
  has changed nothing.
\<close>

lemma newServer_starts:
  assumes "newServer D E cfg s = (r, t)"
  shows "(\<forall>u. r = Ok u \<longrightarrow> fresh t \<and> files t = files s \<and> wf_nodeID u \<and>
      (\<exists>info network w w'. e_GetInfo E w = (Inr info, w') \<and> gi_Chains info = [(''decred'', network)] \<and>
         networkOf network = Name (ChainParams cfg) \<and> fromString (IdentityPubkey info) = Ok u)) \<and>
    ((\<forall>u. r \<noteq> Ok u) \<longrightarrow> quiet s t)"
proof -
  obtain r1 s1 where c: "connectToDcrlnd D (LNRPCHost cfg) (LNTLSCertPath cfg) (LNMacaroonPath cfg) s = (r1, s1)"
    by force
  then have q1: "quiet s s1" using connect_quiet by (metis snd_conv)
  obtain r2 s2 where g: "rpc (e_GetInfo E) s1 = (r2, s2)" by force
  then have q2: "quiet s s2" using q1 by (auto intro: quiet_trans dest: quiet_rpc)
  show ?thesis
  proof (cases "(\<exists>k. r1 = Ok k) \<and> (\<exists>info. r2 = Ok info)")
    case True
    then obtain k info where k: "r1 = Ok k" "r2 = Ok info" by blast
    from g k(2) have info: "\<exists>w w'. e_GetInfo E w = (Inr info, w')"
      by (auto simp: rpc_def split: prod.splits sum.splits)
    have "(r, t) = bindR (checkNode cfg info, s2) (\<lambda>u s3. (Ok u, s3\<lparr>pendingChans := Map.empty, tasks := [], events := []\<rparr>))"
      using assms c g k by (simp add: newServer_def)
    then show ?thesis
      using q2 info by (cases "checkNode cfg info") (auto simp: checkNode_Ok fresh_def quiet_def dest: fromString_wf)
  next
    case False
    then have "quiet s t \<and> (\<forall>u. r \<noteq> Ok u)"
      using assms c g q1 q2 by (cases r1; cases r2) (auto simp: newServer_def)
    then show ?thesis by blast
  qed
qed

section \<open>Properties\<close>

definition sampleDial :: "(int, unit, unit, unit, unit) dial" where
  "sampleDial = \<lparr>d_TLSFromFile = \<lambda>_ w. (Inr (), w), d_ReadFile = \<lambda>_ w. (Inr ''mac'', w),
     d_Unmarshal = \<lambda>_. Inr (), d_Credential = \<lambda>_. Inr (), d_NewClient = \<lambda>_ _ _ w. (Inr (), w)\<rparr>"

lemma sample_newServer:
  "newServer sampleDial sampleEnv sampleCfg sampleState = (Ok sampleNode, sampleState)"
  by (simp add: newServer_def connectToDcrlnd_def rpc_def pureR_def sampleDial_def checkNode_def networkOf_def
      sample_defs fromString_nodeString)

text \<open>
  The goroutines that \<open>Run\<close> starts do nothing but steps of the system: whatever their timers,
  subscriptions and updates are, the state in which a loop is left is reached by the step relation
  from the state it started in, so every invariant of the system holds along the loops of the code.
\<close>

lemma loops_are_runs:
  "reach srt E cfg s (snd (runManageChannels srt E cfg ts s)) \<and>
   reach srt E cfg s (snd (runCleanup E cfg ts s)) \<and>
   reach srt E cfg s (snd (listenToInvoices E cfg xs s))"
  using manage_reach [of srt E cfg ts s] cleanup_reach [of E cfg ts s] listen_reach [of E cfg xs s]
  by (metis prod.collapse)

end
