(* ===== verification/System_Types.thy ===== *)
theory System_Types
  imports Server_Start
begin

text \<open>
  The type invariant of the server's state. Go's \<open>rpc.NodeID\<close> is an array of 33 bytes; in the model it
  is a list with the invariant \<open>wf_nodeID\<close>. Every node id that enters the state, from a request, a
  file, a remote key or a failed parse (which leaves the zero value), is well formed, in the table,
  the goroutines and the effects, along every run.
\<close>

fun wf_task :: "task \<Rightarrow> bool" where
  "wf_task (CreateTask w) = wf_winv w"
| "wf_task (OpenTask w ph) = wf_winv w"
| "wf_task (CloseTask n cp) = wf_nodeID n"

fun wf_event :: "event \<Rightarrow> bool" where
  "wf_event (EvStored p w) = wf_winv w"
| "wf_event (EvSpawnOpen p w paid) = wf_winv w"
| "wf_event (EvOpenChannel n a) = wf_nodeID n"
| "wf_event (EvAccepted n a) = wf_nodeID n"
| "wf_event (EvSpawnClose n cp) = wf_nodeID n"
| "wf_event _ = True"

definition wf_sys :: "'w sys \<Rightarrow> bool" where
  "wf_sys s \<longleftrightarrow> (\<forall>n \<in> dom (pendingChans s). wf_nodeID n) \<and> (\<forall>k \<in> set (tasks s). wf_task k) \<and>
     (\<forall>e \<in> set (events s). wf_event e)"

lemma wf_sys_extend:
  assumes "wf_sys s" and "dom (pendingChans t) \<subseteq> dom (pendingChans s) \<union> {n. wf_nodeID n}"
    and "set (tasks t) \<subseteq> set (tasks s) \<union> {k. wf_task k}"
    and "set (events t) \<subseteq> set (events s) \<union> {e. wf_event e}"
  shows "wf_sys t"
  using assms unfolding wf_sys_def by blast

lemma wf_remoteNode: "wf_nodeID (remoteNode c)"
  by (auto simp: remoteNode_def dest: fromString_wf split: res.split)

lemma hasPending_dom:
  "hasPendingCreateChanReqs E cfg n s = (b, t) \<Longrightarrow> dom (pendingChans t) \<subseteq> insert n (dom (pendingChans s))"
  by (auto simp: hasPendingCreateChanReqs_def trackPending_def ask_def split: option.splits prod.splits if_splits)

lemma admit_dom:
  assumes "admit E cfg w s = (r, t)"
  shows "dom (pendingChans t) \<subseteq> insert (TargetNode w) (dom (pendingChans s))"
proof (cases r)
  case (Ok u)
  with assms admit_Ok_reserves [of E cfg w s t] show ?thesis by auto
next
  case (Err e)
  with assms admit_Err_quiet [of E cfg w s e t] show ?thesis by (auto simp: quiet_def)
next
  case (Panic m)
  with assms admit_not_Panic show ?thesis by blast
qed

lemma openEvents_wf: "wf_winv w \<Longrightarrow> evs \<in> openEvents w \<Longrightarrow> e \<in> set evs \<Longrightarrow> wf_event e"
  by (auto simp: openEvents_def wf_winv_def)

lemma wf_step: "step srt E cfg s t \<Longrightarrow> wf_sys s \<Longrightarrow> wf_sys t"
proof (induction rule: step.induct)
  case (request w s)
  obtain r u where a: "admit E cfg w s = (r, u)" by force
  then have "pendingChans (requestStep E cfg w s) = pendingChans u"
    by (cases r) (simp_all add: requestStep_def spawn_def)
  with admit_dom [OF a] requestStep_frame [of E cfg w s] request show ?case
    by (intro wf_sys_extend [OF request(2)]) (auto simp: wf_winv_def)
next
  case (issue s xs w ys r t)
  then have w: "wf_winv w" by (auto simp: wf_sys_def)
  from issue(2) show ?case
    by (cases rule: issueInvoice_cases; intro wf_sys_extend [OF issue(3)])
      (use issue(1) w in \<open>auto simp: addInvoiceEv_def\<close>)
next
  case (update i s r t)
  from update(1) show ?case
    by (cases rule: handleInvoiceUpdate_cases; intro wf_sys_extend [OF update(2)])
      (auto simp: quiet_def dest: decode_wf)
next
  case (open_step s xs w ph ys nxt t)
  then have w: "wf_winv w" by (auto simp: wf_sys_def)
  from openStep_effect [OF open_step(2)] obtain evs where evs: "evs \<in> openEvents w" "traced evs s t" by blast
  show ?case
    by (rule wf_sys_extend [OF open_step(3)])
      (use evs w open_step(1) openEvents_wf in \<open>auto simp: traced_def putBack_def split: option.splits\<close>)
next
  case (open_recv s xs w ys u st t)
  then have w: "wf_winv w" by (auto simp: wf_sys_def)
  show ?case
    by (rule wf_sys_extend [OF open_recv(3)])
      (use openRecv_frame [OF open_recv(2)] open_recv(1) w in
        \<open>auto simp: dropPending_def putBack_def split: if_splits\<close>)
next
  case (sweep s)
  show ?case
    by (rule wf_sys_extend [OF sweep])
      (auto simp: sweepPending_def sweepTable_def ask_def split: prod.splits option.splits if_splits)
next
  case (manage s r t)
  from manage(1) show ?case
    by (cases rule: manageChannels_cases; intro wf_sys_extend [OF manage(3)])
      (auto simp: quiet_def closeTask_def closeEvent_def wf_remoteNode)
next
  case (closing s xs n cp ys r t)
  from closeChannel_effect [OF closing(2)] show ?case
    by (intro wf_sys_extend [OF closing(3)]) (use closing(1) in auto)
qed (simp_all add: wf_sys_def)

interpretation wf_kept: invariant_system "step srt E cfg" wf_sys for srt E cfg
  by unfold_locales (rule wf_step)

lemma wf_reach: "reach srt E cfg s0 s \<Longrightarrow> wf_sys s0 \<Longrightarrow> wf_sys s"
  by (rule wf_kept.ok_run [OF reach_run])

lemma fresh_wf: "fresh s \<Longrightarrow> wf_sys s"
  by (simp add: fresh_def wf_sys_def)

text \<open>
  In every state that a started server reaches, each node id has 33 bytes: those of the pending
  table, of every goroutine under way and of every recorded effect. In particular each request to
  open a channel, and each force-close decision, is for a node id of the right length.
\<close>

lemma node_ids_well_formed:
  assumes "newServer D E cfg s = (Ok u, s0)" and "reach srt E cfg s0 t"
  shows "wf_sys t \<and> (\<forall>n a. EvOpenChannel n a \<in> set (events t) \<longrightarrow> wf_nodeID n)"
proof -
  from assms(1) have "fresh s0" by (auto simp: newServer_def bindR_iffs fresh_def)
  with wf_reach [OF assms(2)] fresh_wf have "wf_sys t" by blast
  then show ?thesis by (auto simp: wf_sys_def dest!: bspec)
qed

lemma node_ids_well_formed_witness: "wf_nodeID sampleNode \<and> wf_sys sampleEnd"
proof -
  have "reach (\<lambda>_ xs. xs) sampleEnv sampleCfg sampleState sampleEnd" by (rule sample_run)
  from node_ids_well_formed [OF sample_newServer this] show ?thesis by simp
qed

end
