(* ===== verification/Record_Trail.thy ===== *)
theory Record_Trail
  imports System_Types
begin

text \<open>
  Where the records come from, when the directory was empty at the start. A write that fails leaves a beginning of what
  was to be written, and a beginning of a record reads back as that record or not at all. So along every run the files, the
  goroutines that open channels and the openings that were started are for records within the policy whose
  invoices were requested before.
\<close>

text \<open>The law of \<open>io.Writer\<close>: a write that is cut short has written the first bytes.\<close>

definition writes_prefixes :: "'w env \<Rightarrow> bool" where
  "writes_prefixes E \<longleftrightarrow>
     (\<forall>p c w m part w'. e_Write E p c w = (Some (m, part), w') \<longrightarrow> (\<exists>u. c = part @ u))"

section \<open>The invariant\<close>

definition requested :: "'w env \<Rightarrow> config \<Rightarrow> event set \<Rightarrow> waitingInvoice \<Rightarrow> bool" where
  "requested E cfg A w \<longleftrightarrow> wf_winv w \<and> policyHolds cfg w \<and> addInvoiceEv E cfg w \<in> A"

lemma requested_mono: "requested E cfg A w \<Longrightarrow> A \<subseteq> B \<Longrightarrow> requested E cfg B w"
  by (auto simp: requested_def)

fun spawnOk :: "'w env \<Rightarrow> config \<Rightarrow> event set \<Rightarrow> event \<Rightarrow> bool" where
  "spawnOk E cfg A (EvSpawnOpen p w paid) = requested E cfg A w"
| "spawnOk E cfg A _ = True"

fun sourced :: "'w env \<Rightarrow> config \<Rightarrow> event set \<Rightarrow> event list \<Rightarrow> bool" where
  "sourced E cfg A [] = True"
| "sourced E cfg A (e # es) = (spawnOk E cfg A e \<and> sourced E cfg (insert e A) es)"

lemma sourced_append [simp]:
  "sourced E cfg A (xs @ ys) \<longleftrightarrow> sourced E cfg A xs \<and> sourced E cfg (A \<union> set xs) ys"
  by (induction xs arbitrary: A) auto

lemma sourced_no_spawn: "filter isSpawn es = [] \<Longrightarrow> sourced E cfg A es"
proof (induction es arbitrary: A)
  case (Cons e es)
  then show ?case by (cases e) auto
qed simp

text \<open>The contents of a file: a record that was requested, or the beginning of one.\<close>

definition fileOk :: "'w env \<Rightarrow> config \<Rightarrow> event set \<Rightarrow> string \<Rightarrow> bool" where
  "fileOk E cfg A c \<longleftrightarrow> (\<exists>w u. requested E cfg A w \<and> encodeWaitingInvoice w = c @ u)"

fun taskOk :: "'w env \<Rightarrow> config \<Rightarrow> event set \<Rightarrow> task \<Rightarrow> bool" where
  "taskOk E cfg A (CreateTask w) = (wf_winv w \<and> policyHolds cfg w)"
| "taskOk E cfg A (OpenTask w ph) = requested E cfg A w"
| "taskOk E cfg A (CloseTask n cp) = True"

definition kept :: "'w env \<Rightarrow> config \<Rightarrow> 'w sys \<Rightarrow> bool" where
  "kept E cfg s \<longleftrightarrow> sourced E cfg {} (events s) \<and>
     (\<forall>p c. files s p = Some c \<longrightarrow> fileOk E cfg (set (events s)) c) \<and>
     (\<forall>k \<in> set (tasks s). taskOk E cfg (set (events s)) k)"

lemma fileOk_mono: "fileOk E cfg A c \<Longrightarrow> A \<subseteq> B \<Longrightarrow> fileOk E cfg B c"
  unfolding fileOk_def by (meson requested_mono)

lemma taskOk_mono: "taskOk E cfg A k \<Longrightarrow> A \<subseteq> B \<Longrightarrow> taskOk E cfg B k"
  by (cases k) (auto intro: requested_mono)

lemma kept_extend:
  assumes "kept E cfg s" and "events t = events s @ evs" and "sourced E cfg (set (events s)) evs"
    and "\<And>k. k \<in> set (tasks t) \<Longrightarrow> k \<notin> set (tasks s) \<Longrightarrow> taskOk E cfg (set (events s) \<union> set evs) k"
    and "\<And>p c. files t p = Some c \<Longrightarrow> files s p \<noteq> Some c \<Longrightarrow> fileOk E cfg (set (events s) \<union> set evs) c"
  shows "kept E cfg t"
  unfolding kept_def
proof (intro conjI ballI allI impI)
  show "sourced E cfg {} (events t)" using assms(1-3) by (simp add: kept_def)
next
  fix k assume "k \<in> set (tasks t)"
  with assms(1,2,4) taskOk_mono [of E cfg "set (events s)" k "set (events t)"]
  show "taskOk E cfg (set (events t)) k" by (cases "k \<in> set (tasks s)") (auto simp: kept_def)
next
  fix p c assume "files t p = Some c"
  with assms(1,2,5) fileOk_mono [of E cfg "set (events s)" c "set (events t)"]
  show "fileOk E cfg (set (events t)) c" by (cases "files s p = Some c") (auto simp: kept_def)
qed

text \<open>Steps that start no opening, write no file and start no other goroutine of a record.\<close>

lemma kept_frame:
  assumes "kept E cfg s" and "events t = events s @ evs" and "filter isSpawn evs = []"
    and "\<And>k. k \<in> set (tasks t) \<Longrightarrow> k \<in> set (tasks s) \<or> (\<exists>n cp. k = CloseTask n cp)"
    and "\<And>p c. files t p = Some c \<Longrightarrow> files s p = Some c"
  shows "kept E cfg t"
  by (rule kept_extend [OF assms(1,2)]) (use sourced_no_spawn [OF assms(3)] assms(4,5) in fastforce)+

lemma kept_record:
  "kept E cfg s \<Longrightarrow> files s p = Some c \<Longrightarrow> decodeWaitingInvoice c = Some w \<Longrightarrow> requested E cfg (set (events s)) w"
proof -
  assume "kept E cfg s" "files s p = Some c" and d: "decodeWaitingInvoice c = Some w"
  then obtain w' u where w': "requested E cfg (set (events s)) w'" "encodeWaitingInvoice w' = c @ u"
    unfolding kept_def fileOk_def by blast
  then have "w = w'" using decode_prefix [OF _ w'(2) d] by (simp add: requested_def)
  with w' show ?thesis by simp
qed

section \<open>Every step keeps it\<close>

lemma kept_issue:
  assumes law: "writes_prefixes E" and k: "kept E cfg s" and ts: "tasks s = xs @ CreateTask w # ys"
    and i: "issueInvoice E cfg w s = (r, t)"
  shows "kept E cfg (t\<lparr>tasks := xs @ ys\<rparr>)"
proof -
  from k ts have w: "wf_winv w" "policyHolds cfg w" by (auto simp: kept_def)
  have new: "fileOk E cfg (set (events s) \<union> {addInvoiceEv E cfg w, e}) c"
    if "encodeWaitingInvoice w = c @ u" for e c u
    using that w by (auto simp: fileOk_def requested_def)
  from i show ?thesis
  proof (cases rule: issueInvoice_cases)
    case (issued p rhash)
    with ts new [of _ "[]"] show ?thesis
      by (intro kept_extend [OF k, where evs = "[addInvoiceEv E cfg w, EvStored (invoicePath cfg rhash) w]"])
        (auto simp: addInvoiceEv_def split: if_splits)
  next
    case (failed e)
    with ts show ?thesis
      by (intro kept_frame [OF k, where evs = "[addInvoiceEv E cfg w]"]) (auto simp: addInvoiceEv_def)
  next
    case (partial e rhash part)
    from partial(6) law obtain u where "encodeWaitingInvoice w = part @ u" unfolding writes_prefixes_def by blast
    with ts new partial show ?thesis
      by (intro kept_extend [OF k, where evs = "[addInvoiceEv E cfg w, EvPartial (invoicePath cfg rhash)]"])
        (auto simp: addInvoiceEv_def split: if_splits)
  qed
qed

lemma kept_update:
  assumes k: "kept E cfg s" and h: "handleInvoiceUpdate E cfg i s = (r, t)"
  shows "kept E cfg t"
  using h
proof (cases rule: handleInvoiceUpdate_cases)
  case (paid winv c)
  from kept_record [OF k paid(3,4)] have w: "requested E cfg (set (events s)) winv" .
  with paid show ?thesis
    by (intro kept_extend [OF k, where evs = "[EvSpawnOpen (invoicePath cfg (inv_RHash i)) winv (inv_AmtPaidAtoms i)]"])
      (auto split: if_splits intro: requested_mono)
qed (use k in \<open>auto simp: kept_def quiet_def split: if_splits\<close>)

lemma kept_step: "step srt E cfg s t \<Longrightarrow> writes_prefixes E \<Longrightarrow> kept E cfg s \<Longrightarrow> kept E cfg t"
proof (induction rule: step.induct)
  case (request w s)
  from request(1) requestStep_frame [of E cfg w s] show ?case
    by (intro kept_extend [OF request(3), where evs = "[]"]) auto
next
  case (open_step s xs w ph ys nxt t)
  from openStep_effect [OF open_step(2)] obtain evs where evs: "evs \<in> openEvents w" "traced evs s t" by blast
  from open_step(1,4) have w: "requested E cfg (set (events s)) w" by (auto simp: kept_def)
  show ?case
    by (rule kept_extend [OF open_step(4), where evs = evs])
      (use evs open_step(1) sourced_no_spawn [OF openEvents_no_spawn [OF evs(1)]] requested_mono [OF w] in
        \<open>auto simp: traced_def putBack_def split: option.splits\<close>)
next
  case (open_recv s xs w ys u st t)
  from openRecv_frame [OF open_recv(2)] have t: "events t = events s" "files t = files s"
    by (auto simp: dropPending_def)
  show ?case
    by (rule kept_frame [OF open_recv(4), where evs = "[]"]) (use t open_recv(1) in \<open>auto simp: putBack_def split: if_splits\<close>)
next
  case (manage s r t)
  from manage(1) show ?case
  proof (cases rule: manageChannels_cases)
    case (closing info)
    show ?thesis
      by (rule kept_frame [OF manage(4), where evs = "map closeEvent (marked (mi_Channels info))"])
        (use closing in \<open>auto simp: closeTask_def\<close>)
  qed (use manage(4) in \<open>auto simp: kept_def quiet_def\<close>)
next
  case (closing s xs n cp ys r t)
  from closeChannel_effect [OF closing(2)] consider "files t = files s" "events t = events s @ []"
    | c f where "files t = files s" "events t = events s @ [EvCloseChannel c f]" by auto
  then show ?case
  proof cases
    case 1
    show ?thesis by (rule kept_frame [OF closing(4), where evs = "[]"]) (use 1 closing(1) in auto)
  next
    case (2 c f)
    show ?thesis
      by (rule kept_frame [OF closing(4), where evs = "[EvCloseChannel c f]"]) (use 2 closing(1) in auto)
  qed
qed (auto simp: kept_issue kept_update intro: kept_frame [where evs = "[]"] kept_frame [where evs = "[EvDelay second]"])

lemma kept_reach:
  assumes "reach srt E cfg s0 s" and "writes_prefixes E" and "fresh s0" and "files s0 = Map.empty"
  shows "kept E cfg s"
  using assms(1)
proof (induction rule: reach.induct)
  case reach_start
  from assms(3,4) show ?case by (simp add: kept_def fresh_def)
next
  case (reach_step s t)
  from kept_step [OF reach_step(2) assms(2) reach_step.IH] show ?case .
qed

lemma newServer_start: "newServer D E cfg s = (Ok u, s0) \<Longrightarrow> fresh s0 \<and> files s0 = files s"
proof -
  assume "newServer D E cfg s = (Ok u, s0)"
  then obtain conn s1 info s2 where c: "connectToDcrlnd D (LNRPCHost cfg) (LNTLSCertPath cfg) (LNMacaroonPath cfg) s = (Ok conn, s1)"
    and i: "rpc (e_GetInfo E) s1 = (Ok info, s2)" and s0: "s0 = s2\<lparr>pendingChans := Map.empty, tasks := [], events := []\<rparr>"
    by (auto simp: newServer_def bindR_iffs)
  have "files s2 = files s" using connect_quiet [of s D "LNRPCHost cfg" "LNTLSCertPath cfg" "LNMacaroonPath cfg"] c quiet_rpc [OF i]
    by (simp add: quiet_def)
  with s0 show ?thesis by (simp add: fresh_def)
qed

lemma sourced_split: "sourced E cfg {} (xs @ EvSpawnOpen p w paid # ys) \<Longrightarrow> requested E cfg (set xs) w"
  by simp

section \<open>Properties\<close>

text \<open>
  C35. In every state that a server reaches which was started with an empty directory, whatever fails and whenever it is
  restarted, every file is the JSON of a record or, after a write that was cut short, the beginning of one; it reads
  back as that record or as an error, never as another record. The record is for a node id of 33 bytes and a node and size within
  the bounds of the policy, and dcrlnd was asked before for an invoice over its price. The same holds of the record of every goroutine that
  opens a channel.
\<close>

theorem records_well_formed:
  assumes "writes_prefixes E" and "newServer D E cfg s = (Ok u, s0)" and "files s = Map.empty"
    and "reach srt E cfg s0 t"
  shows "(\<forall>p c. files t p = Some c \<longrightarrow>
      (\<exists>w v. encodeWaitingInvoice w = c @ v \<and> (decodeWaitingInvoice c = None \<or> decodeWaitingInvoice c = Some w) \<and>
         length (TargetNode w) = 33 \<and> MinChanSize cfg \<le> ChannelSize w \<and> ChannelSize w \<le> MaxChanSize cfg \<and>
         nodeString (TargetNode w) \<notin> IgnoreNodes cfg \<and> addInvoiceEv E cfg w \<in> set (events t))) \<and>
    (\<forall>w ph. OpenTask w ph \<in> set (tasks t) \<longrightarrow>
         length (TargetNode w) = 33 \<and> MinChanSize cfg \<le> ChannelSize w \<and> ChannelSize w \<le> MaxChanSize cfg \<and>
         nodeString (TargetNode w) \<notin> IgnoreNodes cfg \<and> addInvoiceEv E cfg w \<in> set (events t))"
proof (intro conjI allI impI)
  from newServer_start [OF assms(2)] assms(3) have k: "kept E cfg t"
    using kept_reach [OF assms(4,1)] by simp
  have parts: "length (TargetNode w) = 33 \<and> MinChanSize cfg \<le> ChannelSize w \<and> ChannelSize w \<le> MaxChanSize cfg \<and>
      nodeString (TargetNode w) \<notin> IgnoreNodes cfg \<and> addInvoiceEv E cfg w \<in> set (events t)"
    if "requested E cfg (set (events t)) w" for w
    using that by (simp add: requested_def wf_winv_def wf_nodeID_def policyHolds_def)
  fix p c
  assume "files t p = Some c"
  with k obtain w v where w: "requested E cfg (set (events t)) w" "encodeWaitingInvoice w = c @ v"
    unfolding kept_def fileOk_def by blast
  moreover have "decodeWaitingInvoice c = None \<or> decodeWaitingInvoice c = Some w"
    using decode_prefix [OF _ w(2)] w(1) by (cases "decodeWaitingInvoice c") (auto simp: requested_def)
  ultimately show "\<exists>w v. encodeWaitingInvoice w = c @ v \<and> (decodeWaitingInvoice c = None \<or> decodeWaitingInvoice c = Some w) \<and>
         length (TargetNode w) = 33 \<and> MinChanSize cfg \<le> ChannelSize w \<and> ChannelSize w \<le> MaxChanSize cfg \<and>
         nodeString (TargetNode w) \<notin> IgnoreNodes cfg \<and> addInvoiceEv E cfg w \<in> set (events t)"
    using parts by blast
next
  fix w ph
  assume o: "OpenTask w ph \<in> set (tasks t)"
  from newServer_start [OF assms(2)] assms(3) have "kept E cfg t" using kept_reach [OF assms(4,1)] by simp
  with o have "requested E cfg (set (events t)) w" by (auto simp: kept_def dest: bspec)
  then show "length (TargetNode w) = 33" "MinChanSize cfg \<le> ChannelSize w" "ChannelSize w \<le> MaxChanSize cfg"
      "nodeString (TargetNode w) \<notin> IgnoreNodes cfg" "addInvoiceEv E cfg w \<in> set (events t)"
    by (simp_all add: requested_def wf_winv_def wf_nodeID_def policyHolds_def)
qed

text \<open>
  A disk that takes only the first bytes of every write satisfies the law. On it the sample server's record is cut short.
\<close>

definition sampleEnvFull :: "nat \<Rightarrow> int env" where
  "sampleEnvFull k = sampleEnv\<lparr>e_Write := \<lambda>_ c w. (Some (''no space left on device'', take k c), w)\<rparr>"

lemma sample_writes_prefixes: "writes_prefixes sampleEnv" "writes_prefixes (sampleEnvFull k)"
proof -
  show "writes_prefixes sampleEnv" by (simp add: writes_prefixes_def sampleEnv_def)
  have "\<exists>u. c = take k c @ u" for c by (metis append_take_drop_id)
  then show "writes_prefixes (sampleEnvFull k)" by (auto simp: writes_prefixes_def sampleEnvFull_def)
qed

definition sampleCut :: "nat \<Rightarrow> int sys" where
  "sampleCut k = sampleState\<lparr>world := 1, pendingChans := [sampleNode \<mapsto> 0],
     files := [samplePath \<mapsto> take k (encodeWaitingInvoice sampleInvoice)],
     events := [addInvoiceEv (sampleEnvFull k) sampleCfg sampleInvoice, EvPartial samplePath]\<rparr>"

lemma sample_cut_run: "reach srt (sampleEnvFull k) sampleCfg sampleState (sampleCut k)"
proof -
  let ?E = "sampleEnvFull k"
  define s1 where "s1 = sampleState\<lparr>world := 1, pendingChans := [sampleNode \<mapsto> 0], tasks := [CreateTask sampleInvoice]\<rparr>"
  have "requestStep ?E sampleCfg sampleInvoice sampleState = s1"
    by (simp add: requestStep_def s1_def spawn_def admit_def canCreateChannel_def isConnectedToNode_def
        hasUnspentForNewChannel_def hasMaxPendingChannels_def hasPendingCreateChanReqs_def trackPending_def
        rpc_def ask_def requireR_def refuseR_def sample_defs sampleEnvFull_def)
  then have 1: "step srt ?E sampleCfg sampleState s1"
    using step.request [of sampleInvoice srt ?E sampleCfg sampleState] by (simp add: wf_winv_def)
  have ts: "tasks s1 = [] @ CreateTask sampleInvoice # []" by (simp add: s1_def)
  have "issueInvoice ?E sampleCfg sampleInvoice s1 =
      (Err (ErrOther ''no space left on device''), (sampleCut k)\<lparr>tasks := [CreateTask sampleInvoice]\<rparr>)"
    by (simp add: issueInvoice_def addInvoiceEv_def rpc_def ask_def writeJsonFile_def emit_def Let_def s1_def
        sampleCut_def sampleEnvFull_def sampleEnv_def sampleState_def samplePath_def)
  from step.issue [OF ts this, of srt] have "step srt ?E sampleCfg s1 (sampleCut k)"
    by (simp add: sampleCut_def sampleState_def)
  with 1 show ?thesis using reach_start reach_step by metis
qed

theorem records_well_formed_witness:
  "\<exists>w v. encodeWaitingInvoice w = take 100 (encodeWaitingInvoice sampleInvoice) @ v \<and>
     (decodeWaitingInvoice (take 100 (encodeWaitingInvoice sampleInvoice)) = None \<or>
      decodeWaitingInvoice (take 100 (encodeWaitingInvoice sampleInvoice)) = Some w) \<and>
     length (TargetNode w) = 33"
proof -
  let ?srt = "\<lambda>_ xs. xs"
  have "newServer sampleDial (sampleEnvFull 100) sampleCfg sampleState = (Ok sampleNode, sampleState)"
    by (simp add: newServer_def connectToDcrlnd_def rpc_def pureR_def sampleDial_def checkNode_def networkOf_def
        sample_defs fromString_nodeString sampleEnvFull_def)
  moreover have "files sampleState = Map.empty" by (simp add: sampleState_def)
  ultimately have "\<And>p c. files (sampleCut 100) p = Some c \<longrightarrow>
      (\<exists>w v. encodeWaitingInvoice w = c @ v \<and> (decodeWaitingInvoice c = None \<or> decodeWaitingInvoice c = Some w) \<and>
         length (TargetNode w) = 33)"
    using records_well_formed [OF sample_writes_prefixes(2) _ _ sample_cut_run [of ?srt]] by blast
  then show ?thesis by (simp add: sampleCut_def)
qed

end
