(* ===== verification/Order_Ledger.thy ===== *)
theory Order_Ledger
  imports Server_System "HOL-Library.Multiset"
begin

text \<open>
  What the server promises, without its goroutines, files and retries: a ledger of orders. An order is placed
  under the path of its invoice, settled by a payment, and then answered with at most one channel, or given up.
  The server of \<open>Server_System\<close> refines this ledger: whatever it does is a sequence of ledger steps.
\<close>

section \<open>The ledger\<close>

text \<open>
  \<open>orders\<close> are waiting for their payment, \<open>settled\<close> is what was ever paid, \<open>owed\<close> what is being opened, and
  \<open>opened\<close> the channels that dcrlnd accepted. A path is damaged when a write of its file was cut short.
\<close>

record ledger =
  orders :: "string \<rightharpoonup> waitingInvoice"
  damaged :: "string set"
  settled :: "waitingInvoice multiset"
  owed :: "waitingInvoice multiset"
  opened :: "waitingInvoice multiset"

inductive ledger_step :: "(waitingInvoice \<Rightarrow> bool) \<Rightarrow> (waitingInvoice \<Rightarrow> i64) \<Rightarrow> ledger \<Rightarrow> ledger \<Rightarrow> bool"
  for allowed price where
  place: "allowed w \<Longrightarrow> ledger_step allowed price l (l\<lparr>orders := (orders l)(p \<mapsto> w)\<rparr>)"
| cancel: "ledger_step allowed price l (l\<lparr>orders := (orders l)(p := None)\<rparr>)"
| damage: "ledger_step allowed price l (l\<lparr>orders := (orders l)(p := x), damaged := insert p (damaged l)\<rparr>)"
| settle: "orders l p = Some w \<Longrightarrow> i64_le (price w) paid \<Longrightarrow> ledger_step allowed price l
    (l\<lparr>orders := (orders l)(p := None), settled := add_mset w (settled l), owed := add_mset w (owed l)\<rparr>)"
| accept: "w \<in># owed l \<Longrightarrow> ledger_step allowed price l
    (l\<lparr>owed := owed l - {#w#}, opened := add_mset w (opened l)\<rparr>)"
| give_up: "w \<in># owed l \<Longrightarrow> ledger_step allowed price l (l\<lparr>owed := owed l - {#w#}\<rparr>)"
| crash: "ledger_step allowed price l (l\<lparr>owed := {#}\<rparr>)"

text \<open>The ledger's own invariants.\<close>

definition balanced :: "ledger \<Rightarrow> bool" where
  "balanced l \<longleftrightarrow> owed l + opened l \<subseteq># settled l"

lemma balanced_step: "ledger_step allowed price l l' \<Longrightarrow> balanced l \<Longrightarrow> balanced l'"
proof (induction rule: ledger_step.induct)
  case (accept w l)
  then show ?case by (auto simp: balanced_def insert_DiffM)
next
  case (give_up w l)
  then show ?case by (auto simp: balanced_def intro: subset_mset.order_trans [OF diff_subset_eq_self])
next
  case (crash l)
  then show ?case by (auto simp: balanced_def intro: subset_mset.order_trans [OF mset_subset_eq_add_right])
qed (auto simp: balanced_def)

definition authorized :: "(waitingInvoice \<Rightarrow> bool) \<Rightarrow> ledger \<Rightarrow> bool" where
  "authorized allowed l \<longleftrightarrow> damaged l = {} \<longrightarrow>
     (\<forall>w. w \<in> ran (orders l) \<or> w \<in># settled l \<longrightarrow> allowed w)"

lemma authorized_step: "ledger_step allowed price l l' \<Longrightarrow> authorized allowed l \<Longrightarrow> authorized allowed l'"
  by (induction rule: ledger_step.induct) (auto simp: authorized_def ran_def)

section \<open>Refinement\<close>

text \<open>A system with an invariant, and an abstraction under which each of its steps is a sequence of abstract steps.\<close>

locale simulation = invariant_system nxt ok
  for nxt :: "'s \<Rightarrow> 's \<Rightarrow> bool" and ok :: "'s \<Rightarrow> bool" +
  fixes anxt :: "'a \<Rightarrow> 'a \<Rightarrow> bool" and view :: "'s \<Rightarrow> 'a"
  assumes sim: "ok s \<Longrightarrow> nxt s t \<Longrightarrow> anxt\<^sup>*\<^sup>* (view s) (view t)"
begin

lemma run_refines: "nxt\<^sup>*\<^sup>* s t \<Longrightarrow> ok s \<Longrightarrow> anxt\<^sup>*\<^sup>* (view s) (view t)"
proof (induction rule: rtranclp_induct)
  case (step t u)
  from ok_run [OF step(1,4)] sim step(2) have "anxt\<^sup>*\<^sup>* (view t) (view u)" by blast
  with step show ?case by (blast intro: rtranclp_trans)
qed simp

end

interpretation balance: invariant_system "ledger_step allowed price" balanced for allowed price
  by unfold_locales (rule balanced_step)

interpretation authority: invariant_system "ledger_step allowed price" "authorized allowed" for allowed price
  by unfold_locales (rule authorized_step)

section \<open>The ledger of a server\<close>

fun settledBy :: "event \<Rightarrow> waitingInvoice multiset" where
  "settledBy (EvSpawnOpen p w paid) = {#w#}"
| "settledBy _ = {#}"

fun openedBy :: "event \<Rightarrow> waitingInvoice multiset" where
  "openedBy (EvAccepted node amt) = {#\<lparr>TargetNode = node, ChannelSize = amt\<rparr>#}"
| "openedBy _ = {#}"

definition owedBy :: "task \<Rightarrow> waitingInvoice multiset" where
  "owedBy t = (case t of OpenTask w ph \<Rightarrow> replicate_mset (acceptsLeft (Some ph)) w | _ \<Rightarrow> {#})"

definition gathered :: "('a \<Rightarrow> 'b multiset) \<Rightarrow> 'a list \<Rightarrow> 'b multiset" where
  "gathered f xs = (\<Sum>x\<leftarrow>xs. f x)"

lemma gathered_simps [simp]:
  "gathered f [] = {#}" "gathered f (x # xs) = f x + gathered f xs" "gathered f (xs @ ys) = gathered f xs + gathered f ys"
  by (simp_all add: gathered_def)

definition ledgerOf :: "'w sys \<Rightarrow> ledger" where
  "ledgerOf s = \<lparr>orders = stored s, damaged = {p. EvPartial p \<in> set (events s)},
     settled = gathered settledBy (events s), owed = gathered owedBy (tasks s), opened = gathered openedBy (events s)\<rparr>"

lemma owedBy_simps [simp]:
  "owedBy (CreateTask w) = {#}" "owedBy (CloseTask n cp) = {#}"
  "owedBy (OpenTask w ph) = replicate_mset (acceptsLeft (Some ph)) w"
  by (simp_all add: owedBy_def)

lemma gathered_putBack [simp]: "gathered owedBy (putBack ph w) = replicate_mset (acceptsLeft ph) w"
  by (simp add: putBack_def split: option.split)

lemma gathered_none: "(\<And>x. x \<in> set xs \<Longrightarrow> f x = {#}) \<Longrightarrow> gathered f xs = {#}"
  by (induction xs) auto

lemma stored_eq: "files t = files s \<Longrightarrow> stored t = stored s"
  by (simp add: stored_def fun_eq_iff)

lemma openEvents_gathered:
  assumes "evs \<in> openEvents w"
  shows "gathered settledBy evs = {#}" "EvPartial p \<notin> set evs"
    "gathered openedBy evs = replicate_mset (length (filter isAcceptedEv evs)) w"
proof -
  have "gathered settledBy (map EvDelay ds) = {#}" "gathered openedBy (map EvDelay ds) = {#}" for ds
    by (rule gathered_none, auto)+
  then show "gathered settledBy evs = {#}" "EvPartial p \<notin> set evs"
    "gathered openedBy evs = replicate_mset (length (filter isAcceptedEv evs)) w"
    using assms by (auto simp: openEvents_def)
qed

abbreviation orderPrice :: "'w env \<Rightarrow> config \<Rightarrow> waitingInvoice \<Rightarrow> i64" where
  "orderPrice E cfg w \<equiv> amountForNewChan E cfg (ChannelSize w)"

text \<open>The steps that write files, take payments and open channels.\<close>

lemma ledger_issue:
  assumes i: "issueInvoice E cfg w s = (r, t)" and ts: "tasks s = xs @ CreateTask w # ys"
    and w: "policyHolds cfg w" "wf_winv w"
  shows "(ledger_step (policyHolds cfg) (orderPrice E cfg))\<^sup>*\<^sup>* (ledgerOf s) (ledgerOf (t\<lparr>tasks := xs @ ys\<rparr>))"
  using i
proof (cases rule: issueInvoice_cases)
  case (issued p rhash)
  have "stored (t\<lparr>tasks := xs @ ys\<rparr>) = (stored s)(invoicePath cfg rhash \<mapsto> w)"
    by (rule stored_upd [OF w(2)]) (simp add: issued)
  then have "ledgerOf (t\<lparr>tasks := xs @ ys\<rparr>) = ledgerOf s\<lparr>orders := (orders (ledgerOf s))(invoicePath cfg rhash \<mapsto> w)\<rparr>"
    using issued ts by (simp add: ledgerOf_def addInvoiceEv_def)
  then show ?thesis using ledger_step.place [of "policyHolds cfg" w, OF w(1)] by (metis r_into_rtranclp)
next
  case (failed e)
  have "stored (t\<lparr>tasks := xs @ ys\<rparr>) = stored s" by (rule stored_eq) (simp add: failed)
  then have "ledgerOf (t\<lparr>tasks := xs @ ys\<rparr>) = ledgerOf s"
    using failed ts by (simp add: ledgerOf_def addInvoiceEv_def)
  then show ?thesis by simp
next
  case (partial e rhash part)
  let ?p = "invoicePath cfg rhash"
  have "stored (t\<lparr>tasks := xs @ ys\<rparr>) = (stored s)(?p := decodeWaitingInvoice part)"
    by (auto simp: stored_def partial fun_eq_iff)
  then have "ledgerOf (t\<lparr>tasks := xs @ ys\<rparr>) = ledgerOf s\<lparr>orders := (orders (ledgerOf s))(?p := decodeWaitingInvoice part),
      damaged := insert ?p (damaged (ledgerOf s))\<rparr>"
    using partial ts by (auto simp: ledgerOf_def addInvoiceEv_def)
  then show ?thesis using ledger_step.damage by (metis r_into_rtranclp)
qed

lemma ledger_quiet: "quiet s t \<Longrightarrow> ledgerOf t = ledgerOf s"
  using stored_eq [of t s] by (simp add: ledgerOf_def quiet_def)

lemma ledger_update:
  assumes "handleInvoiceUpdate E cfg i s = (r, t)"
  shows "(ledger_step (policyHolds cfg) (orderPrice E cfg))\<^sup>*\<^sup>* (ledgerOf s) (ledgerOf t)"
  using assms
proof (cases rule: handleInvoiceUpdate_cases)
  case canceled
  with stored_del [of t s] have
    "ledgerOf t = ledgerOf s\<lparr>orders := (orders (ledgerOf s))(invoicePath cfg (inv_RHash i) := None)\<rparr>"
    by (simp add: ledgerOf_def)
  then show ?thesis using ledger_step.cancel by (metis r_into_rtranclp)
next
  case (paid w c)
  let ?p = "invoicePath cfg (inv_RHash i)"
  from paid(3,4) have o: "orders (ledgerOf s) ?p = Some w" by (simp add: ledgerOf_def stored_def)
  from paid(5) have "i64_le (orderPrice E cfg w) (inv_AmtPaidAtoms i)" by (simp add: i64_le_def)
  from ledger_step.settle [where allowed = "policyHolds cfg" and price = "orderPrice E cfg" and l = "ledgerOf s", OF o this]
    stored_del [OF paid(6)] paid show ?thesis
    by (intro r_into_rtranclp) (simp add: ledgerOf_def)
qed (simp_all add: ledger_quiet)

lemma ledger_open_step:
  assumes o: "openStep E cfg w ph s = (nxt, t)" and ts: "tasks s = xs @ OpenTask w ph # ys"
  shows "(ledger_step (policyHolds cfg) (orderPrice E cfg))\<^sup>*\<^sup>* (ledgerOf s)
    (ledgerOf (t\<lparr>tasks := xs @ putBack nxt w @ ys\<rparr>))"
proof -
  from openStep_effect [OF o] obtain evs where evs: "evs \<in> openEvents w" "traced evs s t"
    "length (filter isAcceptedEv evs) + acceptsLeft nxt \<le> acceptsLeft (Some ph)" by blast
  let ?t = "t\<lparr>tasks := xs @ putBack nxt w @ ys\<rparr>" and ?rest = "gathered owedBy xs + gathered owedBy ys"
  have st: "stored ?t = stored s" by (rule stored_eq) (use evs(2) in \<open>simp add: traced_def\<close>)
  have same: "ledgerOf ?t = ledgerOf s\<lparr>owed := ?rest + replicate_mset (acceptsLeft nxt) w,
      opened := opened (ledgerOf s) + replicate_mset (length (filter isAcceptedEv evs)) w\<rparr>"
    using st evs(2) openEvents_gathered [OF evs(1)] by (auto simp: ledgerOf_def traced_def)
  have o: "owed (ledgerOf s) = ?rest + replicate_mset (acceptsLeft (Some ph)) w"
    using ts by (simp add: ledgerOf_def)
  have "acceptsLeft (Some ph) \<le> 1" by (cases ph) auto
  with evs(3) consider "length (filter isAcceptedEv evs) = 0" "acceptsLeft nxt = acceptsLeft (Some ph)"
    | "length (filter isAcceptedEv evs) = 0" "acceptsLeft nxt = 0" "acceptsLeft (Some ph) = 1"
    | "length (filter isAcceptedEv evs) = 1" "acceptsLeft nxt = 0" "acceptsLeft (Some ph) = 1"
    by linarith
  then show ?thesis
  proof cases
    case 1
    with o have "ledgerOf ?t = ledgerOf s" unfolding same by simp
    then show ?thesis by simp
  next
    case 2
    with o have "w \<in># owed (ledgerOf s)" by simp
    from ledger_step.give_up [OF this] 2 o show ?thesis unfolding same by (intro r_into_rtranclp) simp
  next
    case 3
    with o have "w \<in># owed (ledgerOf s)" by simp
    from ledger_step.accept [OF this] 3 o show ?thesis unfolding same by (intro r_into_rtranclp) simp
  qed
qed

text \<open>Everything else leaves the ledger alone, except a restart.\<close>

lemma ledger_cong:
  assumes "files t = files s" and "events t = events s @ evs" and "gathered owedBy (tasks t) = gathered owedBy (tasks s)"
    and "\<And>e. e \<in> set evs \<Longrightarrow> settledBy e = {#} \<and> openedBy e = {#} \<and> (\<forall>p. e \<noteq> EvPartial p)"
  shows "ledgerOf t = ledgerOf s"
proof -
  have "gathered settledBy evs = {#}" "gathered openedBy evs = {#}" using assms(4) by (auto intro: gathered_none)
  then show ?thesis using assms stored_eq [OF assms(1)] by (auto simp: ledgerOf_def)
qed

lemma ledger_sim:
  assumes "step srt E cfg s t" and "trail E cfg fs s"
  shows "(ledger_step (policyHolds cfg) (orderPrice E cfg))\<^sup>*\<^sup>* (ledgerOf s) (ledgerOf t)"
  using assms
proof (induction rule: step.induct)
  case (outside s w)
  have "ledgerOf (s\<lparr>world := w\<rparr>) = ledgerOf s" by (rule ledger_cong [where evs = "[]"]) auto
  then show ?case by simp
next
  case (request w s)
  have "ledgerOf (requestStep E cfg w s) = ledgerOf s"
    by (rule ledger_cong [where evs = "[]"]) (use requestStep_frame [of E cfg w s] in auto)
  then show ?case by simp
next
  case (issue s xs w ys r t)
  then have "policyHolds cfg w" "wf_winv w" by (auto simp: trail_def)
  with issue show ?case by (intro ledger_issue)
next
  case (pause s)
  have "ledgerOf (listenDelay E s) = ledgerOf s" by (rule ledger_cong [where evs = "[EvDelay second]"]) auto
  then show ?case by simp
next
  case (open_recv s xs w ys u st t)
  from openRecv_frame [OF open_recv(2)] have t: "events t = events s" "files t = files s"
    by (auto simp: dropPending_def)
  have "ledgerOf (t\<lparr>tasks := xs @ putBack (if st = Reading then Some OpenWatch else None) w @ ys\<rparr>) = ledgerOf s"
    by (rule ledger_cong [where evs = "[]"]) (use t open_recv(1) in auto)
  then show ?case by simp
next
  case (sweep s)
  have "ledgerOf (sweepPending E cfg s) = ledgerOf s" by (rule ledger_cong [where evs = "[]"]) auto
  then show ?case by simp
next
  case (manage s r t)
  from manage(1) have "ledgerOf t = ledgerOf s"
  proof (cases rule: manageChannels_cases)
    case (closing info)
    have "gathered owedBy (map closeTask cs) = {#}" for cs by (rule gathered_none) (auto simp: closeTask_def)
    with closing show ?thesis
      by (intro ledger_cong [where evs = "map closeEvent (marked (mi_Channels info))"]) (auto simp: closeEvent_def)
  qed (simp_all add: ledger_quiet)
  then show ?case by simp
next
  case (closing s xs n cp ys r t)
  from closeChannel_effect [OF closing(2)] obtain evs where
    "events t = events s @ evs" "files t = files s" "\<forall>e \<in> set evs. \<exists>c f. e = EvCloseChannel c f" by fastforce
  with closing(1) have "ledgerOf (t\<lparr>tasks := xs @ ys\<rparr>) = ledgerOf s"
    by (intro ledger_cong [where evs = evs]) auto
  then show ?case by simp
next
  case (restart s)
  have "stored (s\<lparr>pendingChans := Map.empty, tasks := []\<rparr>) = stored s" by (rule stored_eq) simp
  then have "ledgerOf (s\<lparr>pendingChans := Map.empty, tasks := []\<rparr>) = ledgerOf s\<lparr>owed := {#}\<rparr>"
    by (simp add: ledgerOf_def)
  then show ?case using ledger_step.crash by (metis r_into_rtranclp)
qed (simp_all add: ledger_update ledger_open_step)

interpretation server: simulation "step srt E cfg" "trail E cfg fs"
  "ledger_step (policyHolds cfg) (orderPrice E cfg)" ledgerOf for srt E cfg fs
  by unfold_locales (auto intro: trail_step ledger_sim)

lemma fresh_trail: "fresh s \<Longrightarrow> trail E cfg (files s) s"
  by (rule trail_reach [OF reach_start])

lemma reach_refines:
  assumes "reach srt E cfg s0 s" and "fresh s0"
  shows "(ledger_step (policyHolds cfg) (orderPrice E cfg))\<^sup>*\<^sup>* (ledgerOf s0) (ledgerOf s)"
  by (rule server.run_refines [OF reach_run [OF assms(1)] fresh_trail [OF assms(2)]])

lemma fresh_ledger: "fresh s \<Longrightarrow> ledgerOf s =
    \<lparr>orders = stored s, damaged = {}, settled = {#}, owed = {#}, opened = {#}\<rparr>"
  by (simp add: ledgerOf_def fresh_def)

text \<open>
  The ledger can lose an order that was paid: the record is removed before the opening starts, so after a
  restart nothing is left of it but the payment.
\<close>

lemma paid_order_lost:
  "\<exists>s. reach srt sampleEnv sampleCfg (sampleState\<lparr>files := [samplePath \<mapsto> encodeWaitingInvoice sampleInvoice]\<rparr>) s \<and>
     ledgerOf s = \<lparr>orders = Map.empty, damaged = {}, settled = {#sampleInvoice#}, owed = {#}, opened = {#}\<rparr>"
proof -
  let ?s = "sampleState\<lparr>files := [samplePath \<mapsto> encodeWaitingInvoice sampleInvoice]\<rparr>"
  let ?t = "?s\<lparr>files := Map.empty, tasks := [OpenTask sampleInvoice OpenCheck],
    events := [EvSpawnOpen samplePath sampleInvoice 65536]\<rparr>"
  let ?u = "?t\<lparr>pendingChans := Map.empty, tasks := []\<rparr>"
  have "handleInvoiceUpdate sampleEnv sampleCfg samplePaid ?s = (Ok (), ?t)"
    by (subst sample_update) (simp_all add: sampleState_def)
  then have "reach srt sampleEnv sampleCfg ?s ?u"
    by (intro reach_step [OF reach_step [OF reach_start step.update] step.restart])
  moreover have "stored ?u = Map.empty" by (simp add: stored_def fun_eq_iff)
  then have "ledgerOf ?u = \<lparr>orders = Map.empty, damaged = {}, settled = {#sampleInvoice#}, owed = {#}, opened = {#}\<rparr>"
    by (simp add: ledgerOf_def)
  ultimately show ?thesis by blast
qed

section \<open>Properties\<close>

text \<open>
  C2. The server refines the ledger: from its start on the files it finds, every reachable state, restarts,
  retries and interleavings included, is one that the ledger reaches by placing orders within the policy, settling
  them for at least their price, and answering each settled order with at most one channel.
\<close>

theorem server_refines_ledger:
  assumes "reach srt E cfg s0 s" and "fresh s0"
  shows "(ledger_step (policyHolds cfg) (\<lambda>w. amountForNewChan E cfg (ChannelSize w)))\<^sup>*\<^sup>*
    \<lparr>orders = stored s0, damaged = {}, settled = {#}, owed = {#}, opened = {#}\<rparr> (ledgerOf s)"
  using reach_refines [OF assms] by (simp add: fresh_ledger [OF assms(2)])

lemma sample_ledger: "ledgerOf sampleEnd = \<lparr>orders = Map.empty, damaged = {}, settled = {#sampleInvoice#},
    owed = {#}, opened = {#sampleInvoice#}\<rparr>"
proof -
  have "stored sampleEnd = Map.empty" by (simp add: stored_def sampleEnd_def sampleState_def fun_eq_iff)
  then show ?thesis
    by (simp add: ledgerOf_def sampleEnd_def sampleTrace_def addInvoiceEv_def sampleInvoice_def)
qed

theorem server_refines_ledger_witness:
  "\<exists>l. (ledger_step (policyHolds sampleCfg) (\<lambda>w. amountForNewChan sampleEnv sampleCfg (ChannelSize w)))\<^sup>*\<^sup>* l
     \<lparr>orders = Map.empty, damaged = {}, settled = {#sampleInvoice#}, owed = {#}, opened = {#sampleInvoice#}\<rparr> \<and>
     settled l = {#}"
  using server_refines_ledger [OF sample_run fresh_sampleState] unfolding sample_ledger by (metis ledger.select_convs(3))

text \<open>
  C3. Channels match payments, order by order: for every node and size, the channels that dcrlnd accepted and
  the openings still under way are at most the payments received for that node and size. If no write of a
  file was cut short and the records found at the start were within the policy, every payment that started
  an opening was for an order within the policy.
\<close>

theorem channels_match_payments:
  assumes "reach srt E cfg s0 s" and "fresh s0"
  shows "gathered owedBy (tasks s) + gathered openedBy (events s) \<subseteq># gathered settledBy (events s) \<and>
    ((\<forall>p. EvPartial p \<notin> set (events s)) \<and> (\<forall>w \<in> ran (stored s0). policyHolds cfg w) \<longrightarrow>
      (\<forall>w \<in># gathered settledBy (events s). policyHolds cfg w))"
proof
  note run = reach_refines [OF assms]
  have "balanced (ledgerOf s0)" by (simp add: balanced_def fresh_ledger [OF assms(2)])
  from balance.ok_run [OF run this]
  show "gathered owedBy (tasks s) + gathered openedBy (events s) \<subseteq># gathered settledBy (events s)"
    by (simp add: balanced_def ledgerOf_def)
  show "(\<forall>p. EvPartial p \<notin> set (events s)) \<and> (\<forall>w \<in> ran (stored s0). policyHolds cfg w) \<longrightarrow>
      (\<forall>w \<in># gathered settledBy (events s). policyHolds cfg w)"
  proof (intro impI, elim conjE)
    assume p: "\<forall>p. EvPartial p \<notin> set (events s)" and w: "\<forall>w \<in> ran (stored s0). policyHolds cfg w"
    from w have "authorized (policyHolds cfg) (ledgerOf s0)" by (simp add: authorized_def fresh_ledger [OF assms(2)])
    from authority.ok_run [OF run this] p show "\<forall>w \<in># gathered settledBy (events s). policyHolds cfg w"
      by (simp add: authorized_def ledgerOf_def)
  qed
qed

theorem channels_match_payments_witness:
  "gathered openedBy (events sampleEnd) = {#sampleInvoice#} \<and>
     gathered openedBy (events sampleEnd) \<subseteq># gathered settledBy (events sampleEnd) \<and> policyHolds sampleCfg sampleInvoice"
proof -
  have e: "gathered openedBy (events sampleEnd) = {#sampleInvoice#}" "gathered settledBy (events sampleEnd) = {#sampleInvoice#}"
    "gathered owedBy (tasks sampleEnd) = {#}" "\<forall>p. EvPartial p \<notin> set (events sampleEnd)"
    using arg_cong [OF sample_ledger, of opened] arg_cong [OF sample_ledger, of settled]
      arg_cong [OF sample_ledger, of owed] arg_cong [OF sample_ledger, of damaged]
    by (simp_all add: ledgerOf_def)
  have "ran (stored sampleState) = {}" by (simp add: stored_def sampleState_def ran_def)
  with channels_match_payments [OF sample_run fresh_sampleState] e show ?thesis by simp
qed

end
