(* ===== verification/Go_Json_Write.thy ===== *)
theory Go_Json_Write
  imports Invoice_Store
begin

text \<open>
  The printing side of \<open>encoding/json\<close>, as \<open>json.Encoder\<close> does it: strings with Go's escapes (the
  HTML-safe set, which also escapes \<open><\<close>, \<open>>\<close> and \<open>&\<close>), objects and arrays without white space.
  \<open>denotes\<close> relates a printed text to the value that the parser of \<open>Go_Json\<close> reads from it; the
  lemmas show it for every printer, so that the round trip of a message is one step per field.
\<close>

section \<open>Strings\<close>

abbreviation bsl :: char where "bsl \<equiv> CHR 0x5C"

text \<open>The bytes below 128 that stand for themselves.\<close>

definition html_safe :: "char \<Rightarrow> bool" where
  "html_safe c \<longleftrightarrow> 32 \<le> byte c \<and> byte c < 128 \<and> byte c \<notin> {34, 38, 60, 62, 92}"

definition quoteAscii :: "char \<Rightarrow> string" where
  "quoteAscii c =
     (if html_safe c then [c]
      else if byte c = 92 \<or> byte c = 34 then [bsl, c]
      else if byte c = 8 then [bsl, CHR ''b'']
      else if byte c = 12 then [bsl, CHR ''f'']
      else if byte c = 10 then [bsl, CHR ''n'']
      else if byte c = 13 then [bsl, CHR ''r'']
      else if byte c = 9 then [bsl, CHR ''t'']
      else bsl # ''u00'' @ [hextable ! (byte c div 16), hextable ! (byte c mod 16)])"

text \<open>One well-formed sequence of bytes from 128 on; the two line separators are escaped.\<close>

definition quoteRune :: "string \<Rightarrow> string" where
  "quoteRune u =
     (if u = utf8_encode 8232 then bsl # ''u2028''
      else if u = utf8_encode 8233 then bsl # ''u2029'' else u)"

function quoteBody :: "string \<Rightarrow> string" where
  "quoteBody [] = []"
| "quoteBody (c # cs) =
     (if byte c < 128 then quoteAscii c @ quoteBody cs
      else if utf8_len (c # cs) = 0 then bsl # ''ufffd'' @ quoteBody cs
      else quoteRune (take (utf8_len (c # cs)) (c # cs)) @ quoteBody (drop (utf8_len (c # cs)) (c # cs)))"
  by pat_completeness auto
termination
  by (relation "measure length") (auto simp del: utf8_len.simps)

definition jsonQuote :: "string \<Rightarrow> string" where
  "jsonQuote s = dq @ quoteBody s @ dq"

text \<open>A Go string that is valid UTF-8; printing replaces what is not.\<close>

definition valid_utf8 :: "string \<Rightarrow> bool" where
  "valid_utf8 s \<longleftrightarrow> utf8_fix s = s"

subsection \<open>A printed string reads back\<close>

lemma hex4_low: "n < 256 \<Longrightarrow>
  hex4 (CHR ''0'') (CHR ''0'') (hextable ! (n div 16)) (hextable ! (n mod 16)) = Some n"
proof -
  assume n: "n < 256"
  then have "n div 16 < 16" "n mod 16 < 16" by auto
  moreover have "fromHexChar (CHR ''0'') = Some 0" by (simp add: fromHexChar_def)
  ultimately show ?thesis
    by (simp add: hex4_def fromHexChar_hextable unat_of_nat)
qed

lemma escape_low: "n < 128 \<Longrightarrow>
  escape (''u00'' @ [hextable ! (n div 16), hextable ! (n mod 16)] @ r) = Some ([char_of n], r)"
  using hex4_low [of n] by (simp add: escape_def is_surrogate_def utf8_encode_def)

lemma parse_str_escape:
  "escape e = Some (v, r) \<Longrightarrow> parse_str (bsl # e) = map_option (apfst ((@) v)) (parse_str r)"
  by simp

lemma parse_str_ascii:
  assumes "byte c < 128"
  shows "parse_str (quoteAscii c @ r) = map_option (apfst (Cons c)) (parse_str r)"
proof -
  consider (safe) "html_safe c"
    | (two) "\<not> html_safe c" "byte c \<in> {92, 34, 8, 12, 10, 13, 9}"
    | (hex) "\<not> html_safe c" "byte c \<notin> {92, 34, 8, 12, 10, 13, 9}" by blast
  then show ?thesis
  proof cases
    case safe
    then show ?thesis by (simp add: quoteAscii_def html_safe_def)
  next
    case two
    define n where "n = byte c"
    have c: "c = char_of n" and n: "n \<in> {92, 34, 8, 12, 10, 13, 9}" using two(2) by (simp_all add: n_def)
    from n have "\<exists>e. quoteAscii c = [bsl, e] \<and> byte e \<noteq> 117 \<and> unescape e = Some c"
      unfolding c by (elim insertE emptyE) (simp_all add: quoteAscii_def html_safe_def unescape_def)
    then obtain e where e: "quoteAscii c = [bsl, e]" "byte e \<noteq> 117" "unescape e = Some c" by (elim exE conjE)
    then have "escape (e # r) = Some ([c], r)" by (auto simp: escape_def)
    then show ?thesis unfolding e(1) append_Cons append_Nil
      by (cases "parse_str r") (simp_all only: append_Nil append_Cons parse_str_escape, simp_all)
  next
    case hex
    then have "quoteAscii c = bsl # ''u00'' @ [hextable ! (byte c div 16), hextable ! (byte c mod 16)]"
      by (simp add: quoteAscii_def)
    then show ?thesis using escape_low [OF assms, of r]
      by (simp only: append_Cons append_assoc parse_str_escape) (simp add: apfst_def map_prod_def)
  qed
qed

text \<open>A run of bytes from 128 on is copied.\<close>

lemma parse_str_high:
  "\<forall>c \<in> set u. 128 \<le> byte c \<Longrightarrow> parse_str (u @ r) = map_option (apfst ((@) u)) (parse_str r)"
  by (induction u; cases "parse_str r") auto

lemma utf8_len_tail:
  assumes "128 \<le> byte c"
  shows "utf8_len (c # cs) = 0 \<or>
    (\<exists>k. utf8_len (c # cs) = Suc k \<and> (\<forall>x \<in> set (take k cs). in_range 128 191 x))"
proof -
  define cont where "cont k \<longleftrightarrow> k \<le> length cs \<and> (\<forall>x \<in> set (take k cs). in_range 128 191 x)" for k
  define sec where "sec lo hi \<longleftrightarrow> cs \<noteq> [] \<and> in_range lo hi (hd cs)" for lo hi
  have c: "\<not> byte c < 128" using assms by simp
  have "utf8_len (c # cs) = 0 \<or> utf8_len (c # cs) = 2 \<and> cont 1 \<or> utf8_len (c # cs) = 3 \<and> cont 2 \<or>
      utf8_len (c # cs) = 4 \<and> cont 3"
    unfolding utf8_len.simps Let_def cont_def [symmetric] sec_def [symmetric] if_not_P [OF c]
    by (simp split: if_split)
  then consider "utf8_len (c # cs) = 0" | "utf8_len (c # cs) = Suc 1" "cont 1"
    | "utf8_len (c # cs) = Suc 2" "cont 2" | "utf8_len (c # cs) = Suc 3" "cont 3"
    by (elim disjE conjE) simp_all
  then show ?thesis unfolding cont_def by cases blast+
qed

lemma utf8_len_high:
  assumes "128 \<le> byte c"
  shows "\<forall>x \<in> set (take (utf8_len (c # cs)) (c # cs)). 128 \<le> byte x"
  using utf8_len_tail [OF assms, of cs] assms
  by (auto simp: in_range_def simp del: utf8_len.simps)

lemma parse_str_rune:
  assumes "\<forall>c \<in> set u. 128 \<le> byte c"
  shows "parse_str (quoteRune u @ r) = map_option (apfst ((@) u)) (parse_str r)"
proof -
  have "hex4 (CHR ''2'') (CHR ''0'') (CHR ''2'') (CHR ''8'') = Some 8232"
    "hex4 (CHR ''2'') (CHR ''0'') (CHR ''2'') (CHR ''9'') = Some 8233"
    by (simp_all add: hex4_def fromHexChar_def Let_def)
  then have "escape (''u2028'' @ r) = Some (utf8_encode 8232, r)"
    "escape (''u2029'' @ r) = Some (utf8_encode 8233, r)"
    by (simp_all add: escape_def is_surrogate_def)
  then show ?thesis
    using assms parse_str_high by (simp add: quoteRune_def parse_str_escape del: parse_str.simps)
qed

lemma parse_str_quoteBody: "parse_str (quoteBody s @ dq @ r) = Some (utf8_fix s, r)"
proof (induction s rule: quoteBody.induct)
  case (2 c cs)
  let ?n = "utf8_len (c # cs)"
  consider "byte c < 128" | "128 \<le> byte c" "?n = 0" | "128 \<le> byte c" "?n \<noteq> 0" by linarith
  then show ?case
  proof cases
    case 1
    then have n: "?n = 1" by simp
    have "parse_str (quoteBody (c # cs) @ dq @ r) = map_option (apfst (Cons c)) (parse_str (quoteBody cs @ dq @ r))"
      using 1 by (simp only: quoteBody.simps if_True append_assoc parse_str_ascii)
    with 2(1) [OF 1] n show ?thesis by (simp del: utf8_len.simps)
  next
    case 2
    have "hex4 (CHR ''f'') (CHR ''f'') (CHR ''f'') (CHR ''d'') = Some 65533"
      by (simp add: hex4_def fromHexChar_def Let_def)
    then have e: "escape (''ufffd'' @ x) = Some (replacement, x)" for x
      by (simp add: escape_def is_surrogate_def replacement_def)
    have "quoteBody (c # cs) @ dq @ r = bsl # (''ufffd'' @ quoteBody cs @ dq @ r)"
      using 2 by (simp del: utf8_len.simps)
    then have "parse_str (quoteBody (c # cs) @ dq @ r) =
        map_option (apfst ((@) replacement)) (parse_str (quoteBody cs @ dq @ r))"
      by (simp only: parse_str_escape [OF e])
    with "2.IH"(2) 2 show ?thesis by (simp del: utf8_len.simps)
  next
    case 3
    have "parse_str (quoteBody (c # cs) @ dq @ r) =
        map_option (apfst ((@) (take ?n (c # cs)))) (parse_str (quoteBody (drop ?n (c # cs)) @ dq @ r))"
      using 3 by (simp only: quoteBody.simps if_False not_less [symmetric] not_True_eq_False append_assoc
          parse_str_rune [OF utf8_len_high [OF 3(1), of cs]])
    with "2.IH"(3) 3 show ?thesis by (simp add: Let_def del: utf8_len.simps)
  qed
qed simp

section \<open>Texts and the values they denote\<close>

text \<open>A text is read back whatever follows it, as long as that begins like the end of a value.\<close>

definition stops :: "string \<Rightarrow> bool" where
  "stops r \<longleftrightarrow> r \<noteq> [] \<and> hd r \<in> {CHR '','', CHR ''}'', CHR '']'', CHR 0x0A}"

definition denotes :: "string \<Rightarrow> json \<Rightarrow> bool" where
  "denotes t v \<longleftrightarrow> (\<forall>r. stops r \<longrightarrow> parse_value (t @ r) = Some (v, r))"

lemma denotesI: "(\<And>r. stops r \<Longrightarrow> parse_value (t @ r) = Some (v, r)) \<Longrightarrow> denotes t v"
  by (simp add: denotes_def)

lemma denotes_parse: "denotes t v \<Longrightarrow> stops r \<Longrightarrow> parse_value (t @ r) = Some (v, r)"
  by (simp add: denotes_def)

lemma stops_simps [simp]:
  "stops (CHR '','' # r)" "stops (CHR ''}'' # r)" "stops (CHR '']'' # r)" "stops (CHR 0x0A # r)"
  by (simp_all add: stops_def)

lemma denotes_quote: "denotes (jsonQuote s) (JStr (utf8_fix (utf8_fix s)))"
  using parse_str_quoteBody
  by (simp add: denotes_def jsonQuote_def parse_value.simps [of "CHR 0x22 # _"] skip_ws_id is_ws_def)

lemma denotes_string: "valid_utf8 s \<Longrightarrow> denotes (jsonQuote s) (JStr s)"
  using denotes_quote [of s] by (simp add: valid_utf8_def)

lemma denotes_nat: "denotes (fmt_nat n) (JNum (fmt_nat n))"
proof (rule denotesI)
  fix r assume "stops r"
  then obtain c cs where "r = c # cs" "c \<in> {CHR '','', CHR ''}'', CHR '']'', CHR 0x0A}"
    by (cases r) (auto simp: stops_def)
  then show "parse_value (fmt_nat n @ r) = Some (JNum (fmt_nat n), r)"
    using parse_value_num [of c n cs] by (auto simp: is_digit_def)
qed

lemma denotes_null: "denotes ''null'' JNull"
  by (simp add: denotes_def parse_value.simps [of "CHR ''n'' # _"] skip_ws_id is_ws_def strip_def)

section \<open>Objects and arrays\<close>

text \<open>The members of an object, given the text of each value.\<close>

fun jsonMembers :: "(string \<times> string) list \<Rightarrow> string" where
  "jsonMembers [] = []"
| "jsonMembers [(k, t)] = dq @ k @ dq @ '':'' @ t"
| "jsonMembers ((k, t) # ms) = dq @ k @ dq @ '':'' @ t @ '','' @ jsonMembers ms"

definition jsonObj :: "(string \<times> string) list \<Rightarrow> string" where
  "jsonObj ms = ''{'' @ jsonMembers ms @ ''}''"

fun jsonElems :: "string list \<Rightarrow> string" where
  "jsonElems [] = []"
| "jsonElems [t] = t"
| "jsonElems (t # ts) = t @ '','' @ jsonElems ts"

definition jsonArr :: "string list \<Rightarrow> string" where
  "jsonArr ts = ''['' @ jsonElems ts @ '']''"

definition member_denotes :: "string \<times> string \<Rightarrow> string \<times> json \<Rightarrow> bool" where
  "member_denotes m v \<longleftrightarrow> fst v = fst m \<and> (\<forall>c \<in> set (fst m). plain c) \<and> denotes (snd m) (snd v)"

lemma member_denotesI: "\<forall>c \<in> set k. plain c \<Longrightarrow> denotes t v \<Longrightarrow> member_denotes (k, t) (k, v)"
  by (simp add: member_denotes_def)

lemma parse_members_last:
  assumes "\<forall>c \<in> set k. plain c" and "denotes t v"
  shows "parse_members (dq @ k @ dq @ '':'' @ t @ ''}'' @ r) = Some ([(k, v)], r)"
  using parse_key_plain [OF assms(1), of "t @ ''}'' @ r"] denotes_parse [OF assms(2), of "''}'' @ r"]
  by (simp add: parse_members.simps [of "CHR 0x22 # _"] skip_ws_id is_ws_def)

lemma parse_members_more:
  assumes "\<forall>c \<in> set k. plain c" and "denotes t v"
  shows "parse_members (dq @ k @ dq @ '':'' @ t @ '','' @ r) = map_option (apfst (Cons (k, v))) (parse_members r)"
  using parse_key_plain [OF assms(1), of "t @ '','' @ r"] denotes_parse [OF assms(2), of "'','' @ r"]
  by (simp add: parse_members.simps [of "CHR 0x22 # _"] skip_ws_id is_ws_def)

lemma parse_jsonMembers:
  "list_all2 member_denotes ms vs \<Longrightarrow> ms \<noteq> [] \<Longrightarrow> parse_members (jsonMembers ms @ ''}'' @ r) = Some (vs, r)"
proof (induction ms arbitrary: vs rule: jsonMembers.induct)
  case (2 k t)
  then show ?case using parse_members_last [of k t]
    by (auto simp: list_all2_Cons1 member_denotes_def)
next
  case (3 k t m ms)
  obtain w vs' where w: "vs = w # vs'" "member_denotes (k, t) w" and l: "list_all2 member_denotes (m # ms) vs'"
    using "3.prems"(1) by (cases vs) simp_all
  from w(2) obtain v where v: "w = (k, v)" and kt: "\<forall>c \<in> set k. plain c" "denotes t v"
    by (cases w) (auto simp: member_denotes_def)
  have "jsonMembers ((k, t) # m # ms) @ ''}'' @ r =
      dq @ k @ dq @ '':'' @ t @ '','' @ jsonMembers (m # ms) @ ''}'' @ r" by simp
  then show ?case using parse_members_more [OF kt] "3.IH" [OF l] by (simp add: w(1) v)
qed simp

lemma jsonMembers_first: "ms \<noteq> [] \<Longrightarrow> \<exists>x. jsonMembers ms = CHR 0x22 # x"
  by (cases ms rule: jsonMembers.cases) auto

lemma denotes_obj: "list_all2 member_denotes ms vs \<Longrightarrow> denotes (jsonObj ms) (JObj vs)"
proof (rule denotesI)
  fix r assume l: "list_all2 member_denotes ms vs"
  have first: "jsonObj ms @ r = CHR ''{'' # (jsonMembers ms @ ''}'' @ r)" by (simp add: jsonObj_def)
  show "parse_value (jsonObj ms @ r) = Some (JObj vs, r)"
  proof (cases "ms = []")
    case True
    with l show ?thesis unfolding first by (simp add: parse_value.simps [of "CHR ''{'' # _"] skip_ws_id is_ws_def)
  next
    case False
    then obtain x where x: "jsonMembers ms = CHR 0x22 # x" using jsonMembers_first by blast
    have "parse_value (CHR ''{'' # (jsonMembers ms @ ''}'' @ r)) =
        map_option (apfst JObj) (parse_members (jsonMembers ms @ ''}'' @ r))"
      unfolding x by (subst parse_value.simps) (simp add: skip_ws_id is_ws_def)
    then show ?thesis unfolding first parse_jsonMembers [OF l False] by simp
  qed
qed

lemma parse_value_first: "parse_value s \<noteq> None \<Longrightarrow> \<exists>c cs. skip_ws s = c # cs \<and> c \<noteq> CHR '']''"
proof (cases "skip_ws s")
  case (Cons c cs)
  assume p: "parse_value s \<noteq> None"
  have "parse_num (CHR '']'' # cs) = None" by (simp add: parse_num_def num_int_def is_digit_def)
  then have n: "parse_value s = None" if "c = CHR '']''"
    unfolding parse_value.simps [of s] Cons list.case that by (simp split: if_split)
  have "c \<noteq> CHR '']''" using p n by (rule contrapos_nn)
  with Cons show ?thesis by simp
qed (simp add: parse_value.simps [of s])

lemma parse_jsonElems:
  "list_all2 denotes ts vs \<Longrightarrow> ts \<noteq> [] \<Longrightarrow> parse_elems (jsonElems ts @ '']'' @ r) = Some (vs, r)"
proof (induction ts arbitrary: vs rule: jsonElems.induct)
  case (2 t)
  then show ?case using denotes_parse [of t _ "'']'' @ r"]
    by (auto simp: list_all2_Cons1 parse_elems.simps [of "t @ _"] skip_ws_id is_ws_def)
next
  case (3 t u ts)
  then obtain v vs' where vs: "vs = v # vs'" "list_all2 denotes (u # ts) vs'" and t: "denotes t v"
    by (auto simp: list_all2_Cons1)
  let ?x = "jsonElems (u # ts) @ '']'' @ r"
  have "jsonElems (t # u # ts) @ '']'' @ r = t @ '','' @ ?x" by simp
  moreover have "parse_elems (t @ '','' @ ?x) = map_option (apfst (Cons v)) (parse_elems ?x)"
    using denotes_parse [OF t, of "'','' @ ?x"]
    by (simp add: parse_elems.simps [of "t @ _"] skip_ws_id is_ws_def)
  ultimately show ?case using "3.IH" [OF vs(2)] by (simp add: vs(1))
qed simp

lemma denotes_arr: "list_all2 denotes ts vs \<Longrightarrow> denotes (jsonArr ts) (JArr vs)"
proof (rule denotesI)
  fix r assume l: "list_all2 denotes ts vs"
  have first: "jsonArr ts @ r = CHR ''['' # (jsonElems ts @ '']'' @ r)" by (simp add: jsonArr_def)
  show "parse_value (jsonArr ts @ r) = Some (JArr vs, r)"
  proof (cases "ts = []")
    case True
    with l show ?thesis unfolding first by (simp add: parse_value.simps [of "CHR ''['' # _"] skip_ws_id is_ws_def)
  next
    case False
    let ?x = "jsonElems ts @ '']'' @ r"
    have e: "parse_elems ?x = Some (vs, r)" by (rule parse_jsonElems [OF l False])
    then have "parse_value ?x \<noteq> None" by (subst (asm) parse_elems.simps) (auto split: option.splits)
    from parse_value_first [OF this] obtain c cs where "skip_ws ?x = c # cs" "c \<noteq> CHR '']''"
      by (elim exE conjE)
    then have "parse_value (CHR ''['' # ?x) = map_option (apfst JArr) (parse_elems ?x)"
      by (subst parse_value.simps) (simp add: skip_ws_id is_ws_def)
    then show ?thesis unfolding first e by simp
  qed
qed

end
