(* ===== verification/Go_Float_Text.thy ===== *)
theory Go_Float_Text
  imports Go_Json_Write
begin

text \<open>
  \<open>float64\<close> values in JSON: \<open>strconv.ParseFloat\<close> on a JSON number literal, and the encoder's
  number format, which prints the shortest decimal that rounds to the value, in positional or
  (below \<open>10^-6\<close> and from \<open>10^21\<close>) scientific notation. The theorem of this theory is that every
  finite value reads back exactly: seventeen digits always suffice.
\<close>

section \<open>Decimal literals\<close>

abbreviation pow10 :: "int \<Rightarrow> rat" where "pow10 e \<equiv> 10 powi e"

definition digs :: "string \<Rightarrow> nat" where
  "digs ds = foldl (\<lambda>n c. n * 10 + digit_val c) 0 ds"

lemma digs_Nil [simp]: "digs [] = 0"
  by (simp add: digs_def)

lemma digs_append: "digs (a @ b) = digs a * 10 ^ length b + digs b"
proof (induction b rule: rev_induct)
  case (snoc c b)
  then show ?case by (simp add: digs_def algebra_simps)
qed simp

lemma digs_single [simp]: "digs [c] = digit_val c"
  by (simp add: digs_def)

lemma digs_Cons: "digs (c # s) = digit_val c * 10 ^ length s + digs s"
  using digs_append [of "[c]" s] by simp

lemma digs_zeros [simp]: "digs (replicate n (CHR ''0'')) = 0"
  by (induction n) (simp_all add: digs_Cons digit_val_def)

lemma digs_fmt_nat [simp]: "digs (fmt_nat n) = n"
proof (induction n rule: fmt_nat.induct)
  case (1 n)
  then show ?case
    by (cases "n < 10") (simp_all add: fmt_nat.simps [of n] digs_append)
qed

text \<open>The rational number that a literal of JSON's syntax stands for.\<close>

definition exp_value :: "string \<Rightarrow> int" where
  "exp_value s =
     (case s of
        [] \<Rightarrow> 0
      | _ # [] \<Rightarrow> 0
      | _ # c # cs \<Rightarrow> if c = CHR ''-'' then - int (digs cs)
                     else if c = CHR ''+'' then int (digs cs) else int (digs (c # cs)))"

definition lit_value :: "string \<Rightarrow> rat" where
  "lit_value lit =
     (let neg = (lit \<noteq> [] \<and> hd lit = CHR ''-'');
          (i, r) = span_digits (if neg then tl lit else lit);
          (f, e) = (if r \<noteq> [] \<and> hd r = CHR ''.'' then span_digits (tl r) else ([], r));
          v = of_nat (digs (i @ f)) * pow10 (exp_value e - int (length f))
      in if neg then - v else v)"

text \<open>\<open>strconv.ParseFloat(lit, 64)\<close>: a value that rounds to an infinity is a range error.\<close>

definition parse_float :: "string \<Rightarrow> f64 option" where
  "parse_float lit = (case rnd (lit_value lit) of Fin r \<Rightarrow> Some (Fin r) | _ \<Rightarrow> None)"

section \<open>Shapes of literals\<close>

definition exp_part :: "int option \<Rightarrow> string" where
  "exp_part e = (case e of None \<Rightarrow> []
     | Some z \<Rightarrow> CHR ''e'' # (if z < 0 then CHR ''-'' else CHR ''+'') # fmt_nat (nat \<bar>z\<bar>))"

definition numlit :: "bool \<Rightarrow> string \<Rightarrow> string \<Rightarrow> int option \<Rightarrow> string" where
  "numlit neg i f e =
     (if neg then ''-'' else []) @ i @ (if f = [] then [] else CHR ''.'' # f) @ exp_part e"

definition digits :: "string \<Rightarrow> bool" where
  "digits s \<longleftrightarrow> (\<forall>c \<in> set s. is_digit c)"

text \<open>The integer part of a literal: no leading zero, unless it is the only digit.\<close>

definition int_part :: "string \<Rightarrow> bool" where
  "int_part i \<longleftrightarrow> i \<noteq> [] \<and> digits i \<and> (hd i = CHR ''0'' \<longrightarrow> tl i = [])"

definition no_digit :: "string \<Rightarrow> bool" where
  "no_digit r \<longleftrightarrow> (case r of [] \<Rightarrow> True | c # _ \<Rightarrow> \<not> is_digit c)"

lemma span_digits_append: "digits ds \<Longrightarrow> no_digit r \<Longrightarrow> span_digits (ds @ r) = (ds, r)"
  by (induction ds) (auto simp: span_digits_def digits_def no_digit_def split: list.splits)

lemma digits_simps [simp]: "digits []" "digits (fmt_nat n)" "digits (a @ b) \<longleftrightarrow> digits a \<and> digits b"
  "digits (c # s) \<longleftrightarrow> is_digit c \<and> digits s"
  using fmt_nat_digits by (auto simp: digits_def)

lemma digits_dot: "digits s \<Longrightarrow> s \<noteq> [] \<Longrightarrow> hd s \<noteq> CHR ''.'' \<and> hd s \<noteq> CHR ''-'' \<and> hd s \<noteq> CHR ''+''"
  by (cases s) (auto simp: is_digit_def)

lemma no_digit_simps [simp]:
  "no_digit []" "no_digit (c # s) \<longleftrightarrow> \<not> is_digit c" "no_digit (exp_part e)"
  by (auto simp: no_digit_def exp_part_def is_digit_def split: option.splits)

lemma exp_part_shape: "exp_part e = [] \<or> hd (exp_part e) = CHR ''e''"
  by (auto simp: exp_part_def split: option.splits)

lemma exp_value_part: "exp_value (exp_part e) = (case e of None \<Rightarrow> 0 | Some z \<Rightarrow> z)"
  by (auto simp: exp_value_def exp_part_def split: option.splits)

lemma lit_value_numlit:
  assumes "int_part i" and "digits f"
  shows "lit_value (numlit neg i f e) =
    (if neg then - 1 else 1) * of_nat (digs (i @ f)) *
      pow10 ((case e of None \<Rightarrow> 0 | Some z \<Rightarrow> z) - int (length f))"
proof -
  let ?t = "(if f = [] then [] else CHR ''.'' # f) @ exp_part e"
  have i: "digits i" "i \<noteq> []" using assms(1) by (auto simp: int_part_def)
  have n1: "no_digit ?t" by (simp add: is_digit_def)
  have neg: "(numlit neg i f e \<noteq> [] \<and> hd (numlit neg i f e) = CHR ''-'') = neg"
    using digits_dot [OF i] i by (cases i) (auto simp: numlit_def)
  have body: "(if neg then tl (numlit neg i f e) else numlit neg i f e) = i @ ?t"
    by (simp add: numlit_def)
  have frac: "(if ?t \<noteq> [] \<and> hd ?t = CHR ''.'' then span_digits (tl ?t) else ([], ?t)) = (f, exp_part e)"
    using exp_part_shape [of e] span_digits_append [OF assms(2), of "exp_part e"] by auto
  show ?thesis
    unfolding lit_value_def neg body span_digits_append [OF i(1) n1] Let_def prod.case frac exp_value_part
    by simp
qed

lemma parse_numlit:
  assumes "int_part i" and "digits f" and "stops r"
  shows "parse_num (numlit neg i f e @ r) = Some (numlit neg i f e, r)"
proof -
  obtain c cs where r: "r = c # cs" and c: "c \<in> {CHR '','', CHR ''}'', CHR '']'', CHR 0x0A}"
    using assms(3) by (cases r) (auto simp: stops_def)
  have nr: "no_digit r" using c by (auto simp: r is_digit_def)
  let ?e = "exp_part e @ r"
  let ?t = "(if f = [] then [] else CHR ''.'' # f) @ ?e"
  have ne: "no_digit ?e" using nr by (cases e) (auto simp: exp_part_def is_digit_def)
  have nt: "no_digit ?t" using ne by (simp add: is_digit_def)
  have i: "digits i" "i \<noteq> []" using assms(1) by (auto simp: int_part_def)
  have "num_int (i @ ?t) = Some (i, ?t)"
    using assms(1) span_digits_append [OF i(1) nt] by (cases i) (auto simp: num_int_def int_part_def)
  moreover have "num_frac ?t = Some (if f = [] then [] else CHR ''.'' # f, ?e)"
  proof (cases "f = []")
    case True
    have "?e \<noteq> []" "hd ?e \<noteq> CHR ''.''" using c by (cases e; auto simp: exp_part_def r)+
    with True show ?thesis by (simp add: num_frac_def)
  next
    case False
    then show ?thesis using span_digits_append [OF assms(2) ne] by (simp add: num_frac_def)
  qed
  moreover have "num_exp ?e = Some (exp_part e, r)"
  proof (cases e)
    case None
    then show ?thesis using c by (auto simp: num_exp_def exp_part_def r)
  next
    case (Some z)
    have "span_digits (fmt_nat (nat \<bar>z\<bar>) @ r) = (fmt_nat (nat \<bar>z\<bar>), r)"
      by (rule span_digits_append [OF _ nr]) simp
    then show ?thesis by (simp add: Some num_exp_def exp_part_def)
  qed
  moreover have "hd (i @ ?t) \<noteq> CHR ''-''" using digits_dot [OF i] i by simp
  ultimately show ?thesis using i(2) by (simp add: parse_num_def numlit_def)
qed

lemma denotes_numlit:
  assumes "int_part i" and "digits f"
  shows "denotes (numlit neg i f e) (JNum (numlit neg i f e))"
proof (rule denotesI)
  fix r assume r: "stops r"
  have i: "digits i" "i \<noteq> []" using assms(1) by (auto simp: int_part_def)
  obtain c cs where c: "numlit neg i f e @ r = c # cs" "is_digit c \<or> c = CHR ''-''"
    using i by (cases i; cases neg) (auto simp: numlit_def)
  have "\<not> is_ws c" "c \<noteq> CHR ''{''" "c \<noteq> CHR ''[''" "byte c \<noteq> 34"
    "c \<noteq> CHR ''t''" "c \<noteq> CHR ''f''" "c \<noteq> CHR ''n''"
    using c(2) by (auto simp: is_digit_def is_ws_def)
  then show "parse_value (numlit neg i f e @ r) = Some (JNum (numlit neg i f e), r)"
    using parse_numlit [OF assms r, of neg e] unfolding c(1)
    by (simp add: parse_value.simps [of "c # cs"] skip_ws_id)
qed

section \<open>The shortest decimal\<close>

text \<open>\<open>dexp x\<close> is the decimal exponent of a positive rational: \<open>10^k \<le> x < 10^(k+1)\<close>.\<close>

definition ilog10 :: "nat \<Rightarrow> nat" where
  "ilog10 n = length (fmt_nat n) - 1"

definition dexp :: "rat \<Rightarrow> int" where
  "dexp x = (if 1 \<le> x then int (ilog10 (nat \<lfloor>x\<rfloor>))
             else - int (Suc (ilog10 (nat (\<lceil>1 / x\<rceil> - 1)))))"

text \<open>Whether \<open>m \<cdot> 10^e\<close> rounds to \<open>x\<close>, and the best decimal with \<open>n\<close> significant digits.\<close>

definition fits :: "rat \<Rightarrow> int \<Rightarrow> int \<Rightarrow> bool" where
  "fits x e m \<longleftrightarrow> rnd_rat (of_int m * pow10 e) = x"

definition pick :: "rat \<Rightarrow> nat \<Rightarrow> (int \<times> int) option" where
  "pick x n =
     (let e = dexp x + 1 - int n; q = x / pow10 e; lo = fits x e \<lfloor>q\<rfloor>; hi = fits x e (\<lfloor>q\<rfloor> + 1)
      in if lo \<and> hi then Some (rne q, e)
         else if lo then Some (\<lfloor>q\<rfloor>, e)
         else if hi then Some (\<lfloor>q\<rfloor> + 1, e) else None)"

fun search :: "rat \<Rightarrow> nat \<Rightarrow> nat \<Rightarrow> (int \<times> int) option" where
  "search x n 0 = None"
| "search x n (Suc fuel) = (case pick x n of None \<Rightarrow> search x (Suc n) fuel | r \<Rightarrow> r)"

definition shortest :: "rat \<Rightarrow> (int \<times> int) option" where
  "shortest x = search x 1 17"

subsection \<open>Seventeen digits suffice\<close>

lemma ilog10_bounds: "0 < n \<Longrightarrow> 10 ^ ilog10 n \<le> n \<and> n < 10 ^ Suc (ilog10 n)"
proof (induction n rule: fmt_nat.induct)
  case (1 n)
  show ?case
  proof (cases "n < 10")
    case True
    with "1.prems" show ?thesis by (simp add: ilog10_def fmt_nat.simps [of n])
  next
    case False
    have "length (fmt_nat (n div 10)) \<noteq> 0" by simp
    then have "ilog10 n = Suc (ilog10 (n div 10))"
      using False by (simp add: ilog10_def fmt_nat.simps [of n])
    moreover have "0 < n div 10" using False by (simp add: div_greater_zero_iff)
    with "1.IH" False have "10 ^ ilog10 (n div 10) \<le> n div 10 \<and> n div 10 < 10 ^ Suc (ilog10 (n div 10))"
      by blast
    ultimately show ?thesis by (auto simp: div_less_iff_less_mult less_eq_div_iff_mult_less_eq)
  qed
qed

lemma dexp_bounds:
  assumes "0 < x"
  shows "pow10 (dexp x) \<le> x" and "x < pow10 (dexp x + 1)"
proof -
  have "pow10 (dexp x) \<le> x \<and> x < pow10 (dexp x + 1)"
  proof (cases "1 \<le> x")
    case True
    define n where "n = nat \<lfloor>x\<rfloor>"
    have fl: "1 \<le> \<lfloor>x\<rfloor>" using True by (simp add: le_floor_iff)
    then have n: "0 < n" "of_nat n = (of_int \<lfloor>x\<rfloor> :: rat)" by (simp_all add: n_def)
    have d: "dexp x = int (ilog10 n)" using True by (simp add: dexp_def n_def)
    have "(10 :: rat) ^ ilog10 n \<le> of_nat n" "of_nat n + 1 \<le> (10 :: rat) ^ Suc (ilog10 n)"
      using ilog10_bounds [OF n(1)] by (metis of_nat_le_iff of_nat_numeral of_nat_power,
        metis Suc_leI of_nat_Suc add.commute of_nat_le_iff of_nat_numeral of_nat_power)
    moreover have "of_nat n \<le> x" "x < of_nat n + 1" unfolding n(2) by linarith+
    moreover have "pow10 (dexp x) = 10 ^ ilog10 n" "pow10 (dexp x + 1) = 10 ^ Suc (ilog10 n)"
      unfolding d by (simp_all add: power_int_add)
    ultimately show ?thesis by linarith
  next
    case False
    define c where "c = \<lceil>1 / x\<rceil>"
    define n where "n = nat (c - 1)"
    have x1: "1 < 1 / x" using assms False by simp
    then have c1: "1 < c" unfolding c_def by linarith
    then have n: "0 < n" and nc: "of_nat n = (of_int c - 1 :: rat)" by (simp_all add: n_def)
    have d: "dexp x = - int (Suc (ilog10 n))" using False by (simp add: dexp_def n_def c_def)
    have b: "(10 :: rat) ^ ilog10 n \<le> of_nat n" "of_nat n + 1 \<le> (10 :: rat) ^ Suc (ilog10 n)"
      using ilog10_bounds [OF n] by (metis of_nat_le_iff of_nat_numeral of_nat_power,
        metis Suc_leI of_nat_Suc add.commute of_nat_le_iff of_nat_numeral of_nat_power)
    have "1 / x \<le> of_int c" "of_int c - 1 < 1 / x" unfolding c_def by linarith+
    with b nc have up: "1 / x \<le> 10 ^ Suc (ilog10 n)" and lo: "10 ^ ilog10 n < 1 / x" by linarith+
    have "pow10 (dexp x) = 1 / 10 ^ Suc (ilog10 n)"
      unfolding d by (simp only: power_int_minus power_int_of_nat inverse_eq_divide)
    moreover have "pow10 (dexp x + 1) = 1 / 10 ^ ilog10 n"
    proof -
      have "dexp x + 1 = - int (ilog10 n)" by (simp add: d)
      then show ?thesis by (simp only: power_int_minus power_int_of_nat inverse_eq_divide)
    qed
    moreover have "1 / 10 ^ Suc (ilog10 n) \<le> x" using up assms by (simp add: field_simps)
    moreover have "x < 1 / 10 ^ ilog10 n" using lo assms by (simp add: field_simps)
    ultimately show ?thesis by simp
  qed
  then show "pow10 (dexp x) \<le> x" "x < pow10 (dexp x + 1)" by simp_all
qed

lemma rne_near: "\<bar>a - of_int z\<bar> < 1 / 2 \<Longrightarrow> rne a = z"
proof -
  assume "\<bar>a - of_int z\<bar> < 1 / 2"
  moreover have "\<bar>of_int (rne a) - a\<bar> \<le> 1 / 2" by (rule rne_error)
  ultimately have "\<bar>of_int (rne a) - of_int z :: rat\<bar> < 1" by linarith
  then have "\<bar>rne a - z\<bar> < 1" by linarith
  then show ?thesis by simp
qed

lemma rnd_rat_near:
  assumes "y \<noteq> 0" and "x = of_int z * ulp y" and "\<bar>y - x\<bar> < ulp y / 2"
  shows "rnd_rat y = x"
proof -
  have "y / ulp y - of_int z = (y - x) / ulp y" by (simp add: assms(2) diff_divide_distrib)
  then have "\<bar>y / ulp y - of_int z\<bar> = \<bar>y - x\<bar> / ulp y" by (simp add: abs_divide abs_of_pos [OF ulp_pos])
  also have "\<dots> < 1 / 2" using assms(3) ulp_pos [of y] by (simp add: pos_divide_less_eq)
  finally have "rne (y / ulp y) = z" by (rule rne_near)
  then show ?thesis using assms(1,2) by (simp add: rnd_rat_def)
qed

text \<open>What is closer to a representable value than \<open>2^-54\<close> of it rounds to it.\<close>

lemma rnd_rat_close:
  assumes x: "0 < x" "rnd_rat x = x" and xy: "\<bar>y - x\<bar> < x / 2 ^ 54"
  shows "rnd_rat y = x"
proof -
  define q where "q = qexp x"
  define z where "z = rne (x / ulp x)"
  have u: "ulp x = pow2 (max (q - 52) (- 1074))" using x(1) by (simp add: ulp_def q_def)
  have xz: "x = of_int z * ulp x" using x by (simp add: rnd_rat_def z_def)
  have qb: "pow2 q \<le> x" "x < pow2 (q + 1)" unfolding q_def using qexp_bounds [OF x(1)] by auto
  have "x / 2 ^ 54 \<le> x" using x(1) by (simp add: pos_divide_le_eq)
  then have y: "0 < y" using xy by linarith
  have "x / 2 ^ 54 < pow2 (q + 1) / 2 ^ 54" using qb(2) by (simp add: divide_strict_right_mono)
  also have "pow2 (q + 1) / 2 ^ 54 = pow2 (q - 52) / 2"
    by (simp add: power_int_diff power_int_add)
  also have "\<dots> \<le> ulp x / 2" unfolding u by (intro divide_right_mono pow2_mono) auto
  finally have half: "\<bar>y - x\<bar> < ulp x / 2" using xy by linarith
  have "0 < of_int z * ulp x" by (rule subst [where P = "(<) 0", OF xz x(1)])
  then have "0 < z" using ulp_pos [of x] by (auto simp: zero_less_mult_iff)
  then have z1: "(1 :: rat) \<le> of_int z" by simp
  have "1 * ulp x \<le> of_int z * ulp x" by (rule mult_right_mono [OF z1]) simp
  then have ux: "ulp x \<le> x" unfolding xz [symmetric] by simp
  consider (same) "ulp y = ulp x" | (above) "q < qexp y" | (below) "qexp y < q" "ulp y \<noteq> ulp x"
    using y x(1) by (cases "qexp y" q rule: linorder_cases) (auto simp: ulp_def q_def)
  then show ?thesis
  proof cases
    case same
    with xz half y show ?thesis by (intro rnd_rat_near [of y x z]) auto
  next
    case above
    have "pow2 (q + 1) \<le> y" using above qexp_bounds(1) [OF y] pow2_mono [of "q + 1" "qexp y"] by linarith
    moreover have "pow2 (q + 1) = of_int (2 ^ nat (q + 1 - max (q - 52) (- 1074))) * ulp x"
    proof -
      have "pow2 (max (q - 52) (- 1074)) < pow2 (q + 1)" using ux qb(2) by (simp add: u)
      then show ?thesis unfolding u by (intro pow2_split less_imp_le) (rule pow2_less_cancel)
    qed
    then obtain w where w: "pow2 (q + 1) = of_int w * ulp x" by blast
    have "of_int z * ulp x < of_int w * ulp x" using qb(2) xz w by simp
    then have "z < w" using ulp_pos [of x] by (simp add: mult_less_cancel_right)
    then have "of_int z + 1 \<le> (of_int w :: rat)" by (metis of_int_1 of_int_add of_int_le_iff zless_imp_add1_zle)
    then have "(of_int z + 1) * ulp x \<le> of_int w * ulp x" by (simp add: mult_right_mono)
    then have "x + ulp x \<le> pow2 (q + 1)" unfolding w by (subst xz) (simp add: distrib_right)
    ultimately show ?thesis using half ulp_pos [of x] by linarith
  next
    case below
    then have big: "- 1074 < q - 52" using y x(1) by (auto simp: ulp_def q_def max_def split: if_splits)
    then have uq: "ulp x = pow2 (q - 52)" unfolding u by simp
    have yq: "y < pow2 q" using below(1) qexp_bounds(2) [OF y] pow2_mono [of "qexp y + 1" q] by linarith
    have pq: "pow2 q = of_int (2 ^ 52) * ulp x" unfolding uq using pow2_split [of "q - 52" q] by simp
    have xq: "x = pow2 q"
    proof (rule ccontr)
      assume "x \<noteq> pow2 q"
      with qb(1) have "of_int (2 ^ 52) * ulp x < of_int z * ulp x" using xz pq by simp
      then have "2 ^ 52 < z" using ulp_pos [of x] by (simp only: mult_less_cancel_right_pos of_int_less_iff)
      then have "of_int (2 ^ 52) + 1 \<le> (of_int z :: rat)"
        by (metis of_int_1 of_int_add of_int_le_iff zless_imp_add1_zle)
      then have "(of_int (2 ^ 52) + 1) * ulp x \<le> of_int z * ulp x" by (simp add: mult_right_mono)
      then have "pow2 q + ulp x \<le> x" unfolding pq by (subst (3) xz) (simp add: distrib_right)
      with yq half show False using ulp_pos [of x] by linarith
    qed
    have "pow2 (q - 1) = pow2 q / 2" by (simp add: power_int_diff)
    moreover have "x / 2 ^ 54 \<le> x / 2" using x(1) by (simp add: field_simps)
    ultimately have "pow2 (q - 1) \<le> y" using xy xq by linarith
    with yq have "qexp y = q - 1" by (intro qexp_unique) simp_all
    moreover have "max (q - 1 - 52) (- 1074) = q - 53" using big by linarith
    ultimately have uy: "ulp y = pow2 (q - 53)" using y by (simp only: ulp_def abs_of_pos)
    have "pow2 q = of_int (2 ^ 53) * ulp y" unfolding uy using pow2_split [of "q - 53" q] by simp
    moreover have "ulp y / 2 = x / 2 ^ 54" unfolding uy xq by (simp add: power_int_diff)
    ultimately show ?thesis using y xy xq by (intro rnd_rat_near [of y x "2 ^ 53"]) auto
  qed
qed

lemma pick_Some: "pick x n = Some (m, e) \<Longrightarrow> fits x e m"
proof -
  let ?e = "dexp x + 1 - int n"
  let ?q = "x / pow10 ?e"
  have "rne ?q = \<lfloor>?q\<rfloor> \<or> rne ?q = \<lfloor>?q\<rfloor> + 1" by (rule rne_cases)
  then show "pick x n = Some (m, e) \<Longrightarrow> fits x e m"
    by (auto simp: pick_def Let_def split: if_splits)
qed

lemma search_Some: "search x n fuel = Some (m, e) \<Longrightarrow> fits x e m"
  by (induction x n fuel rule: search.induct) (auto split: option.splits dest: pick_Some)

lemma pick_seventeen:
  assumes "0 < x" and "rnd_rat x = x"
  shows "pick x 17 \<noteq> None"
proof -
  let ?e = "dexp x + 1 - int 17"
  define q where "q = x / pow10 ?e"
  have p: "0 < pow10 ?e" by simp
  have "\<bar>of_int (rne q) - q\<bar> * pow10 ?e \<le> 1 / 2 * pow10 ?e" by (rule mult_right_mono [OF rne_error]) simp
  moreover have "\<bar>of_int (rne q) - q\<bar> * pow10 ?e = \<bar>of_int (rne q) * pow10 ?e - x\<bar>"
    using p by (simp add: q_def abs_mult_pos less_imp_le left_diff_distrib)
  ultimately have err: "\<bar>of_int (rne q) * pow10 ?e - x\<bar> \<le> pow10 ?e / 2" by linarith
  have "pow10 ?e = pow10 (dexp x) / 10 ^ 16" by (simp add: power_int_diff)
  also have "\<dots> \<le> x / 10 ^ 16" using dexp_bounds(1) [OF assms(1)] by (intro divide_right_mono) auto
  finally have "pow10 ?e / 2 \<le> x / 10 ^ 16 / 2" by (rule divide_right_mono) simp
  with err have "\<bar>of_int (rne q) * pow10 ?e - x\<bar> \<le> x / 10 ^ 16 / 2" by (rule order_trans)
  also have "\<dots> < x / 2 ^ 54" using assms(1) by simp
  finally have "fits x ?e (rne q)" unfolding fits_def by (rule rnd_rat_close [OF assms])
  moreover have "rne q = \<lfloor>q\<rfloor> \<or> rne q = \<lfloor>q\<rfloor> + 1" by (rule rne_cases)
  ultimately have "fits x ?e \<lfloor>q\<rfloor> \<or> fits x ?e (\<lfloor>q\<rfloor> + 1)" by auto
  then show ?thesis by (auto simp: pick_def Let_def q_def)
qed

lemma search_reaches: "pick x (n + k) \<noteq> None \<Longrightarrow> search x n (Suc k + j) \<noteq> None"
proof (induction k arbitrary: n)
  case (Suc k)
  then show ?case using Suc.IH [of "Suc n"] by (auto split: option.split)
qed (auto split: option.split)

lemma shortest_total:
  assumes "0 < x" and "rnd_rat x = x"
  shows "\<exists>m e. shortest x = Some (m, e) \<and> rnd_rat (of_int m * pow10 e) = x"
proof -
  have "search x 1 (Suc 16 + 0) \<noteq> None"
    by (rule search_reaches) (use pick_seventeen [OF assms] in simp)
  then obtain m e where "shortest x = Some (m, e)" by (auto simp: shortest_def)
  moreover from this have "fits x e m" unfolding shortest_def by (rule search_Some)
  ultimately show ?thesis by (auto simp: fits_def)
qed

section \<open>The encoder's number format\<close>

text \<open>Trailing zeros move from the digits into the exponent.\<close>

function drop_zeros :: "nat \<Rightarrow> int \<Rightarrow> nat \<times> int" where
  "drop_zeros m e = (if m \<noteq> 0 \<and> m mod 10 = 0 then drop_zeros (m div 10) (e + 1) else (m, e))"
  by pat_completeness auto
termination
  by (relation "measure fst") auto

declare drop_zeros.simps [simp del]

text \<open>
  A positive value \<open>m \<cdot> 10^e\<close>. With \<open>dp\<close> the position of the decimal point relative to the digits:
  scientific notation outside \<open>[10^-6, 10^21)\<close>; else the digits with the point inside, or padded by
  zeros on either side.
\<close>

definition fmtDigits :: "rat \<Rightarrow> nat \<Rightarrow> int \<Rightarrow> string" where
  "fmtDigits x m e =
     (let ds = fmt_nat m; dp = int (length ds) + e
      in if x < 1 / 10 ^ 6 \<or> 10 ^ 21 \<le> x then numlit False (take 1 ds) (drop 1 ds) (Some (dp - 1))
         else if dp \<le> 0 then numlit False ''0'' (replicate (nat (- dp)) (CHR ''0'') @ ds) None
         else if int (length ds) \<le> dp
         then numlit False (ds @ replicate (nat dp - length ds) (CHR ''0'')) [] None
         else numlit False (take (nat dp) ds) (drop (nat dp) ds) None)"

definition fmtPositive :: "rat \<Rightarrow> string" where
  "fmtPositive x =
     (case shortest x of None \<Rightarrow> [] | Some (m, e) \<Rightarrow> (case drop_zeros (nat m) e of (m', e') \<Rightarrow> fmtDigits x m' e'))"

definition fmtFloat :: "rat \<Rightarrow> string" where
  "fmtFloat x = (if x = 0 then ''0'' else if 0 < x then fmtPositive x else CHR ''-'' # fmtPositive (- x))"

lemma drop_zeros_value:
  "drop_zeros m e = (m', e') \<Longrightarrow> of_nat m' * pow10 e' = of_nat m * pow10 e \<and> (m \<noteq> 0 \<longrightarrow> m' \<noteq> 0)"
proof (induction m e arbitrary: m' e' rule: drop_zeros.induct)
  case (1 m e)
  show ?case
  proof (cases "m \<noteq> 0 \<and> m mod 10 = 0")
    case True
    then have "m = m div 10 * 10" "m div 10 \<noteq> 0" by auto
    then have "(of_nat m :: rat) = of_nat (m div 10) * 10" by (metis of_nat_mult of_nat_numeral)
    moreover have "of_nat m' * pow10 e' = of_nat (m div 10) * pow10 (e + 1) \<and> (m div 10 \<noteq> 0 \<longrightarrow> m' \<noteq> 0)"
      using "1.IH" "1.prems" True by (simp add: drop_zeros.simps [of m e])
    ultimately show ?thesis using \<open>m div 10 \<noteq> 0\<close> by (simp add: power_int_add)
  next
    case False
    with "1.prems" show ?thesis by (auto simp: drop_zeros.simps [of m e])
  qed
qed

subsection \<open>What is printed\<close>

lemma fmt_nat_int_part: "int_part (fmt_nat n)"
  using fmt_nat_zero_first [of n] digits_simps(2) [of n]
  by (cases "fmt_nat n") (auto simp: int_part_def simp del: digits_simps(2))

lemma fmt_nat_first: "n \<noteq> 0 \<Longrightarrow> hd (fmt_nat n) \<noteq> CHR ''0''"
proof
  assume "n \<noteq> 0" and "hd (fmt_nat n) = CHR ''0''"
  then have "fmt_nat n = ''0''" using fmt_nat_zero_first [of n] by (cases "fmt_nat n") auto
  then have "digs (fmt_nat n) = 0" by (simp add: digit_val_def)
  with \<open>n \<noteq> 0\<close> show False by simp
qed

lemma digits_sub [simp]: "digits s \<Longrightarrow> digits (take k s)" "digits s \<Longrightarrow> digits (drop k s)"
  "digits (replicate k (CHR ''0''))"
  by (auto simp: digits_def is_digit_def dest: in_set_takeD in_set_dropD)

lemma int_part_nonzero: "digits s \<Longrightarrow> s \<noteq> [] \<Longrightarrow> hd s \<noteq> CHR ''0'' \<Longrightarrow> int_part s"
  by (simp add: int_part_def)

text \<open>Every positive value is printed as a literal with the value \<open>m \<cdot> 10^e\<close>.\<close>

lemma fmtDigits_shape:
  assumes "m \<noteq> 0"
  shows "\<exists>i f z. fmtDigits x m e = numlit False i f z \<and> int_part i \<and> digits f \<and>
    of_nat (digs (i @ f)) * pow10 ((case z of None \<Rightarrow> 0 | Some z \<Rightarrow> z) - int (length f)) = of_nat m * pow10 e"
proof -
  define ds where "ds = fmt_nat m"
  define dp where "dp = int (length ds) + e"
  have d: "digits ds" "ds \<noteq> []" "hd ds \<noteq> CHR ''0''" "digs ds = m"
    using assms by (simp_all add: ds_def fmt_nat_first)
  have len: "length ds \<noteq> 0" using d(2) by simp
  consider (sci) "x < 1 / 10 ^ 6 \<or> 10 ^ 21 \<le> x"
    | (small) "\<not> (x < 1 / 10 ^ 6 \<or> 10 ^ 21 \<le> x)" "dp \<le> 0"
    | (big) "\<not> (x < 1 / 10 ^ 6 \<or> 10 ^ 21 \<le> x)" "0 < dp" "int (length ds) \<le> dp"
    | (mid) "\<not> (x < 1 / 10 ^ 6 \<or> 10 ^ 21 \<le> x)" "0 < dp" "dp < int (length ds)" by linarith
  then show ?thesis
  proof cases
    case sci
    have "int_part (take 1 ds)" using d by (intro int_part_nonzero) (cases ds; simp)+
    moreover have "dp - 1 - int (length (drop 1 ds)) = e" using len by (simp add: dp_def of_nat_diff Suc_le_eq)
    moreover have "fmtDigits x m e = numlit False (take 1 ds) (drop 1 ds) (Some (dp - 1))"
      using sci by (simp add: fmtDigits_def ds_def dp_def Let_def)
    moreover have "digits (drop 1 ds)" using d by simp
    moreover have "digs (take 1 ds @ drop 1 ds) = m" using d by (simp only: append_take_drop_id)
    ultimately show ?thesis by (metis option.case(2))
  next
    case small
    have "fmtDigits x m e = numlit False ''0'' (replicate (nat (- dp)) (CHR ''0'') @ ds) None"
      using small by (simp add: fmtDigits_def ds_def dp_def Let_def)
    moreover have "int_part ''0''" "digits (replicate (nat (- dp)) (CHR ''0'') @ ds)"
      using d by (simp_all add: int_part_def is_digit_def)
    moreover have "digs (''0'' @ replicate (nat (- dp)) (CHR ''0'') @ ds) = m"
      using d by (simp add: digs_Cons digs_append digit_val_def)
    moreover have "0 - int (length (replicate (nat (- dp)) (CHR ''0'') @ ds)) = e"
      using small(2) by (simp add: dp_def)
    ultimately show ?thesis by (metis option.case(1))
  next
    case big
    let ?i = "ds @ replicate (nat dp - length ds) (CHR ''0'')"
    have "fmtDigits x m e = numlit False ?i [] None"
      using big by (simp add: fmtDigits_def ds_def dp_def Let_def)
    moreover have "int_part ?i" using d by (intro int_part_nonzero) auto
    moreover have "of_nat (digs (?i @ [])) * pow10 (0 - int (length [])) = of_nat m * pow10 e"
    proof -
      have "nat dp - length ds = nat e" "0 \<le> e" using big by (auto simp: dp_def)
      then show ?thesis using d(4) by (simp add: digs_append power_int_nonneg_exp)
    qed
    ultimately show ?thesis by (metis option.case(1) digits_simps(1))
  next
    case mid
    let ?i = "take (nat dp) ds" and ?f = "drop (nat dp) ds"
    have "fmtDigits x m e = numlit False ?i ?f None"
      using mid by (simp add: fmtDigits_def ds_def dp_def Let_def)
    moreover have "int_part ?i" using d mid by (intro int_part_nonzero) (auto simp: hd_take)
    moreover have "digits ?f" using d by simp
    moreover have "0 - int (length ?f) = e" using mid by (simp add: dp_def)
    moreover have "digs (?i @ ?f) = m" using d by simp
    ultimately show ?thesis by (metis option.case(1))
  qed
qed

lemma fmtPositive_shape:
  assumes "0 < x" and "rnd_rat x = x"
  shows "\<exists>i f z. fmtPositive x = numlit False i f z \<and> int_part i \<and> digits f \<and>
    rnd_rat (lit_value (numlit False i f z)) = x"
proof -
  obtain m e where s: "shortest x = Some (m, e)" and r: "rnd_rat (of_int m * pow10 e) = x"
    using shortest_total [OF assms] by blast
  have "0 < m"
  proof (rule ccontr)
    assume "\<not> 0 < m"
    then have "of_int m * pow10 e \<le> 0" by (intro mult_nonpos_nonneg) auto
    then have "rnd_rat (of_int m * pow10 e) \<le> 0" by (rule rnd_rat_nonpos)
    with r assms(1) show False by simp
  qed
  obtain m' e' where z: "drop_zeros (nat m) e = (m', e')" by force
  from drop_zeros_value [OF z] \<open>0 < m\<close> have v: "of_nat m' * pow10 e' = of_int m * pow10 e" and "m' \<noteq> 0" by auto
  from fmtDigits_shape [OF \<open>m' \<noteq> 0\<close>, of x e'] obtain i f y where
    t: "fmtDigits x m' e' = numlit False i f y" "int_part i" "digits f" and
    w: "of_nat (digs (i @ f)) * pow10 ((case y of None \<Rightarrow> 0 | Some z \<Rightarrow> z) - int (length f)) = of_nat m' * pow10 e'"
    by blast
  have "lit_value (numlit False i f y) = of_int m * pow10 e"
    unfolding lit_value_numlit [OF t(2,3)] using w v by simp
  moreover have "fmtPositive x = numlit False i f y" using s z t(1) by (simp add: fmtPositive_def)
  ultimately show ?thesis using r t by metis
qed

text \<open>A finite value, printed, is a number literal of JSON that reads back as the same value.\<close>

theorem fmtFloat_reads:
  assumes "rnd x = Fin x"
  shows "denotes (fmtFloat x) (JNum (fmtFloat x)) \<and> parse_float (fmtFloat x) = Some (Fin x)"
proof -
  have rx: "rnd_rat x = x" using assms by (auto simp: rnd_def Let_def split: if_splits)
  have ok: "parse_float lit = Some (Fin x)" if "rnd_rat (lit_value lit) = x" for lit
    using that assms rx by (simp add: parse_float_def rnd_def Let_def)
  consider "x = 0" | "0 < x" | "x < 0" by linarith
  then show ?thesis
  proof cases
    case 1
    have "fmtFloat x = numlit False ''0'' [] None" using 1 by (simp add: fmtFloat_def numlit_def exp_part_def)
    moreover have "int_part ''0''" by (simp add: int_part_def is_digit_def)
    ultimately show ?thesis
      using denotes_numlit [of "''0''" "[]" False None] lit_value_numlit [of "''0''" "[]" False None] ok 1
      by (simp add: digit_val_def)
  next
    case 2
    from fmtPositive_shape [OF 2 rx] 2 show ?thesis
      using denotes_numlit ok by (auto simp: fmtFloat_def)
  next
    case 3
    have "rnd_rat (- x) = - x" using rx by (simp add: rnd_rat_minus)
    from fmtPositive_shape [OF _ this] 3 obtain i f z where
      t: "fmtPositive (- x) = numlit False i f z" "int_part i" "digits f"
      and v: "rnd_rat (lit_value (numlit False i f z)) = - x" by auto
    have "fmtFloat x = numlit True i f z" using 3 t(1) by (simp add: fmtFloat_def numlit_def)
    moreover have "lit_value (numlit True i f z) = - lit_value (numlit False i f z)"
      by (simp add: lit_value_numlit [OF t(2,3)])
    ultimately show ?thesis using denotes_numlit [OF t(2,3)] ok v by (simp add: rnd_rat_minus)
  qed
qed

end
