(* ===== verification/Api_V1.thy ===== *)
theory Api_V1
  imports Create_Invoice Go_Float_Text
begin

text \<open>
  The JSON interface of the server: the messages of \<open>rpc/lprpc_v1/rpc.go\<close> with \<open>Encode\<close> and
  \<open>Decode\<close>, and the handlers of \<open>server/api-v1.go\<close>. Every message is an instance of the interface
  \<open>json_struct\<close>, whose theorem is that what one side encodes the other side decodes.
\<close>

section \<open>Structs as JSON objects\<close>

text \<open>\<open>Encode\<close>: the members in the order of the fields, and a newline.\<close>

definition encodeStruct :: "(string \<times> string) list \<Rightarrow> string" where
  "encodeStruct ms = jsonObj ms @ [CHR 0x0A]"

text \<open>
  \<open>Decode\<close> into a struct: each member in turn sets the field it names, up to case; a member that
  names none is skipped; a value that does not fit its field is an error. JSON null decodes into
  every struct and changes nothing. What follows the value in the stream is not read.
\<close>

fun setFields :: "('a \<Rightarrow> string \<times> json \<Rightarrow> 'a option) \<Rightarrow> 'a \<Rightarrow> (string \<times> json) list \<Rightarrow> 'a option" where
  "setFields f w [] = Some w"
| "setFields f w (m # ms) = (case f w m of None \<Rightarrow> None | Some w' \<Rightarrow> setFields f w' ms)"

definition decodeStruct :: "('a \<Rightarrow> string \<times> json \<Rightarrow> 'a option) \<Rightarrow> 'a \<Rightarrow> string \<Rightarrow> 'a option" where
  "decodeStruct f zero s =
     (case parse_value s of
        Some (JObj ms, _) \<Rightarrow> setFields f zero ms
      | Some (JNull, _) \<Rightarrow> Some zero
      | _ \<Rightarrow> None)"

text \<open>The decoders of the field types; a null leaves the field as it was.\<close>

fun unmarshalString :: "string \<Rightarrow> json \<Rightarrow> string option" where
  "unmarshalString old (JStr s) = Some s"
| "unmarshalString old JNull = Some old"
| "unmarshalString old _ = None"

fun unmarshalI64 :: "i64 \<Rightarrow> json \<Rightarrow> i64 option" where
  "unmarshalI64 old (JNum lit) = (case atoi lit of (None, n) \<Rightarrow> Some n | _ \<Rightarrow> None)"
| "unmarshalI64 old JNull = Some old"
| "unmarshalI64 old _ = None"

fun unmarshalF64 :: "f64 \<Rightarrow> json \<Rightarrow> f64 option" where
  "unmarshalF64 old (JNum lit) = parse_float lit"
| "unmarshalF64 old JNull = Some old"
| "unmarshalF64 old _ = None"

text \<open>
  A slice is decoded into the memory of the slice that the field held before (\<open>mem\<close>, its backing
  array as far as it was ever written): a null element keeps what is stored at its position.
\<close>

fun fillStrings :: "string list \<Rightarrow> json list \<Rightarrow> string list option" where
  "fillStrings mem [] = Some mem"
| "fillStrings mem (v # vs) =
     (case unmarshalString (case mem of [] \<Rightarrow> [] | m # _ \<Rightarrow> m) v of
        None \<Rightarrow> None
      | Some s \<Rightarrow> map_option (Cons s) (fillStrings (tl mem) vs))"

text \<open>
  The contract of a message type: \<open>texts\<close> are the member texts of the encoder, \<open>vals\<close> the members
  they stand for, \<open>set\<close> and \<open>zero\<close> the decoder. \<open>kept\<close> is what decoding ensures of any input.
\<close>

locale json_struct =
  fixes texts :: "'a \<Rightarrow> (string \<times> string) list" and vals :: "'a \<Rightarrow> (string \<times> json) list"
    and set_field :: "'b \<Rightarrow> string \<times> json \<Rightarrow> 'b option" and zero :: 'b and view :: "'b \<Rightarrow> 'a"
    and good :: "'a \<Rightarrow> bool" and kept :: "'b \<Rightarrow> bool"
  assumes texts_denote: "good x \<Longrightarrow> list_all2 member_denotes (texts x) (vals x)"
    and vals_set: "good x \<Longrightarrow> \<exists>w. setFields set_field zero (vals x) = Some w \<and> view w = x"
    and zero_kept: "kept zero"
    and set_kept: "kept w \<Longrightarrow> set_field w m = Some w' \<Longrightarrow> kept w'"
begin

lemma decode_encode:
  assumes "good x"
  shows "\<exists>w. decodeStruct set_field zero (encodeStruct (texts x)) = Some w \<and> view w = x"
proof -
  have "denotes (jsonObj (texts x)) (JObj (vals x))" by (rule denotes_obj [OF texts_denote [OF assms]])
  then have "parse_value (encodeStruct (texts x)) = Some (JObj (vals x), [CHR 0x0A])"
    unfolding encodeStruct_def by (rule denotes_parse) simp
  with vals_set [OF assms] show ?thesis by (simp add: decodeStruct_def)
qed

lemma setFields_kept: "kept w \<Longrightarrow> setFields set_field w ms = Some w' \<Longrightarrow> kept w'"
  by (induction ms arbitrary: w) (auto split: option.splits dest: set_kept)

lemma decode_kept: "decodeStruct set_field zero s = Some w \<Longrightarrow> kept w"
  using setFields_kept zero_kept by (auto simp: decodeStruct_def split: option.splits json.splits)

end

lemma member_nat: "\<forall>c \<in> set k. plain c \<Longrightarrow> member_denotes (k, fmt_u64 n) (k, JNum (fmt_u64 n))"
  by (simp add: member_denotesI fmt_u64_def denotes_nat)

lemma member_string:
  "\<forall>c \<in> set k. plain c \<Longrightarrow> valid_utf8 s \<Longrightarrow> member_denotes (k, jsonQuote s) (k, JStr s)"
  by (simp add: member_denotesI denotes_string)

lemma member_node:
  "\<forall>c \<in> set k. plain c \<Longrightarrow> member_denotes (k, marshalNodeID u) (k, JStr (nodeString u))"
  using parse_value_plain [OF nodeString_plain [of u]]
  by (auto intro!: member_denotesI denotesI simp: marshalNodeID_def)

text \<open>Signed integers (\<open>time.Duration\<close> is one).\<close>

definition fmt_i64 :: "i64 \<Rightarrow> string" where
  "fmt_i64 n = (if sint n < 0 then ''-'' else []) @ fmt_nat (nat \<bar>sint n\<bar>)"

lemma member_i64: "\<forall>c \<in> set k. plain c \<Longrightarrow> member_denotes (k, fmt_i64 n) (k, JNum (fmt_i64 n))"
  using denotes_numlit [of "fmt_nat (nat \<bar>sint n\<bar>)" "[]" "sint n < 0" None]
  by (simp add: member_denotesI numlit_def exp_part_def fmt_i64_def fmt_nat_int_part)

lemma atoi_fmt_i64: "atoi (fmt_i64 n) = (None, n)"
proof -
  have b: "- (2 ^ 63) \<le> sint n" "sint n < 2 ^ 63" by (rule i64_bounds)+
  have "nat \<bar>sint n\<bar> < 2 ^ 64" using b by simp
  then have u: "parseUint 64 (fmt_nat (nat \<bar>sint n\<bar>)) = Inr (nat \<bar>sint n\<bar>)" by (rule parseUint_fmt)
  show ?thesis
  proof (cases "sint n < 0")
    case True
    have "nat \<bar>sint n\<bar> \<le> 2 ^ 63" using b by simp
    with True u show ?thesis by (simp add: atoi_def fmt_i64_def)
  next
    case False
    then have "fmt_i64 n = fmt_nat (nat (sint n))" by (simp add: fmt_i64_def)
    moreover have "nat (sint n) < 2 ^ 63" using b by simp
    ultimately show ?thesis using False by (simp add: atoi_fmt_nat of_nat_nat)
  qed
qed

section \<open>The invoice request\<close>

record invoiceRequest =
  ir_TargetNode :: nodeID
  ir_ChannelSize :: u64
  ir_Key :: string

definition requestTexts :: "invoiceRequest \<Rightarrow> (string \<times> string) list" where
  "requestTexts r = [(''target_node'', marshalNodeID (ir_TargetNode r)),
     (''channel_size'', fmt_u64 (ir_ChannelSize r)), (''key'', jsonQuote (ir_Key r))]"

definition requestVals :: "invoiceRequest \<Rightarrow> (string \<times> json) list" where
  "requestVals r = [(''target_node'', JStr (nodeString (ir_TargetNode r))),
     (''channel_size'', JNum (fmt_u64 (ir_ChannelSize r))), (''key'', JStr (ir_Key r))]"

fun setRequestField :: "invoiceRequest \<Rightarrow> string \<times> json \<Rightarrow> invoiceRequest option" where
  "setRequestField w (k, v) =
     (if is_field ''target_node'' k then map_option (\<lambda>u. w\<lparr>ir_TargetNode := u\<rparr>) (unmarshalNodeID v)
      else if is_field ''channel_size'' k
      then map_option (\<lambda>n. w\<lparr>ir_ChannelSize := n\<rparr>) (unmarshalU64 (ir_ChannelSize w) v)
      else if is_field ''key'' k
      then map_option (\<lambda>x. w\<lparr>ir_Key := x\<rparr>) (unmarshalString (ir_Key w) v)
      else Some w)"

definition zeroRequest :: invoiceRequest where
  "zeroRequest = \<lparr>ir_TargetNode = zeroNodeID, ir_ChannelSize = 0, ir_Key = []\<rparr>"

definition encodeInvoiceRequest :: "invoiceRequest \<Rightarrow> string" where
  "encodeInvoiceRequest r = encodeStruct (requestTexts r)"

definition decodeInvoiceRequest :: "string \<Rightarrow> invoiceRequest option" where
  "decodeInvoiceRequest s = decodeStruct setRequestField zeroRequest s"

definition good_request :: "invoiceRequest \<Rightarrow> bool" where
  "good_request r \<longleftrightarrow> wf_nodeID (ir_TargetNode r) \<and> valid_utf8 (ir_Key r)"

lemma nodeOf_nodeString: "wf_nodeID u \<Longrightarrow> nodeOf (nodeString u) = Some u"
  by (rule node.dec_enc)

lemma unmarshalNodeID_wf: "unmarshalNodeID v = Some u \<Longrightarrow> wf_nodeID u"
  by (cases v) (auto dest: node.dec_ok)

lemma unmarshalU64_fmt [simp]: "unmarshalU64 old (JNum (fmt_u64 n)) = Some n"
  using decimal.dec_enc [of n] by simp

lemmas field_simps_json = is_field_def upper_char_def

interpretation request: json_struct requestTexts requestVals setRequestField zeroRequest id
  good_request "\<lambda>w. wf_nodeID (ir_TargetNode w)"
proof
  fix x assume x: "good_request x"
  show "list_all2 member_denotes (requestTexts x) (requestVals x)"
    using x by (auto simp: requestTexts_def requestVals_def good_request_def plain_def
        intro!: member_node member_nat member_string)
  show "\<exists>w. setFields setRequestField zeroRequest (requestVals x) = Some w \<and> id w = x"
    using x by (simp add: requestVals_def good_request_def nodeOf_nodeString field_simps_json zeroRequest_def
        del: unmarshalU64.simps)
next
  show "wf_nodeID (ir_TargetNode zeroRequest)" by (simp add: zeroRequest_def)
next
  fix w m w' assume w: "wf_nodeID (ir_TargetNode w)" and m: "setRequestField w m = Some w'"
  obtain k v where kv: "m = (k, v)" by force
  from m w show "wf_nodeID (ir_TargetNode w')"
    by (auto simp: kv dest: unmarshalNodeID_wf split: if_splits)
qed

lemma decode_encode_request: "good_request r \<Longrightarrow> decodeInvoiceRequest (encodeInvoiceRequest r) = Some r"
  using request.decode_encode by (simp add: decodeInvoiceRequest_def encodeInvoiceRequest_def)

section \<open>The invoice response\<close>

text \<open>\<open>InvoiceResponse\<close> has the one field \<open>invoice\<close>; it is modelled by that string.\<close>

definition responseTexts :: "string \<Rightarrow> (string \<times> string) list" where
  "responseTexts payreq = [(''invoice'', jsonQuote payreq)]"

fun setResponseField :: "string \<Rightarrow> string \<times> json \<Rightarrow> string option" where
  "setResponseField w (k, v) = (if is_field ''invoice'' k then unmarshalString w v else Some w)"

definition encodeInvoiceResponse :: "string \<Rightarrow> string" where
  "encodeInvoiceResponse payreq = encodeStruct (responseTexts payreq)"

definition decodeInvoiceResponse :: "string \<Rightarrow> string option" where
  "decodeInvoiceResponse s = decodeStruct setResponseField [] s"

interpretation response: json_struct responseTexts "\<lambda>x. [(''invoice'', JStr x)]" setResponseField "[]" id
  valid_utf8 "\<lambda>_. True"
  by unfold_locales (auto simp: responseTexts_def plain_def field_simps_json intro!: member_string)

lemma decode_encode_response: "valid_utf8 x \<Longrightarrow> decodeInvoiceResponse (encodeInvoiceResponse x) = Some x"
  using response.decode_encode by (simp add: decodeInvoiceResponse_def encodeInvoiceResponse_def)

section \<open>The policy response\<close>

record policyResponse =
  pr_Node :: nodeID
  pr_NodeAddresses :: "string list"
  pr_MinChanSize :: u64
  pr_MaxChanSize :: u64
  pr_MaxNbChannels :: u64
  pr_MinChanLifetime :: i64
  pr_ChanInvoiceFeeRate :: f64

text \<open>
  The encoder refuses an infinite or undefined rate. An empty list of addresses is a nil slice (the
  configuration never makes another), printed as null.
\<close>

definition addressesText :: "string list \<Rightarrow> string" where
  "addressesText as = (if as = [] then ''null'' else jsonArr (map jsonQuote as))"

definition policyTexts :: "rat \<Rightarrow> policyResponse \<Rightarrow> (string \<times> string) list" where
  "policyTexts rate p = [(''node'', marshalNodeID (pr_Node p)),
     (''addresses'', addressesText (pr_NodeAddresses p)),
     (''min_chan_size'', fmt_u64 (pr_MinChanSize p)), (''max_chan_size'', fmt_u64 (pr_MaxChanSize p)),
     (''max_nb_channels'', fmt_u64 (pr_MaxNbChannels p)),
     (''min_chan_lifetime'', fmt_i64 (pr_MinChanLifetime p)),
     (''chan_invoice_fee_rate'', fmtFloat rate)]"

definition encodePolicyResponse :: "policyResponse \<Rightarrow> string option" where
  "encodePolicyResponse p =
     (case pr_ChanInvoiceFeeRate p of
        Fin rate \<Rightarrow> Some (encodeStruct (policyTexts rate p))
      | _ \<Rightarrow> None)"

text \<open>While decoding, the memory behind the slice of addresses is kept beside the struct.\<close>

fun setAddresses :: "policyResponse \<times> string list \<Rightarrow> json \<Rightarrow> (policyResponse \<times> string list) option" where
  "setAddresses (p, mem) (JArr vs) =
     (if vs = [] then Some (p\<lparr>pr_NodeAddresses := []\<rparr>, [])
      else map_option (\<lambda>mem'. (p\<lparr>pr_NodeAddresses := take (length vs) mem'\<rparr>, mem')) (fillStrings mem vs))"
| "setAddresses (p, mem) JNull = Some (p\<lparr>pr_NodeAddresses := []\<rparr>, [])"
| "setAddresses (p, mem) _ = None"

fun setPolicyField :: "policyResponse \<times> string list \<Rightarrow> string \<times> json \<Rightarrow> (policyResponse \<times> string list) option" where
  "setPolicyField (p, mem) (k, v) =
     (if is_field ''node'' k
      then map_option (\<lambda>u. (p\<lparr>pr_Node := u\<rparr>, mem)) (unmarshalNodeID v)
      else if is_field ''addresses'' k then setAddresses (p, mem) v
      else if is_field ''min_chan_size'' k
      then map_option (\<lambda>n. (p\<lparr>pr_MinChanSize := n\<rparr>, mem)) (unmarshalU64 (pr_MinChanSize p) v)
      else if is_field ''max_chan_size'' k
      then map_option (\<lambda>n. (p\<lparr>pr_MaxChanSize := n\<rparr>, mem)) (unmarshalU64 (pr_MaxChanSize p) v)
      else if is_field ''max_nb_channels'' k
      then map_option (\<lambda>n. (p\<lparr>pr_MaxNbChannels := n\<rparr>, mem)) (unmarshalU64 (pr_MaxNbChannels p) v)
      else if is_field ''min_chan_lifetime'' k
      then map_option (\<lambda>n. (p\<lparr>pr_MinChanLifetime := n\<rparr>, mem)) (unmarshalI64 (pr_MinChanLifetime p) v)
      else if is_field ''chan_invoice_fee_rate'' k
      then map_option (\<lambda>x. (p\<lparr>pr_ChanInvoiceFeeRate := x\<rparr>, mem)) (unmarshalF64 (pr_ChanInvoiceFeeRate p) v)
      else Some (p, mem))"

definition zeroPolicy :: policyResponse where
  "zeroPolicy = \<lparr>pr_Node = zeroNodeID, pr_NodeAddresses = [], pr_MinChanSize = 0, pr_MaxChanSize = 0,
     pr_MaxNbChannels = 0, pr_MinChanLifetime = 0, pr_ChanInvoiceFeeRate = Fin 0\<rparr>"

definition decodePolicyResponse :: "string \<Rightarrow> policyResponse option" where
  "decodePolicyResponse s = map_option fst (decodeStruct setPolicyField (zeroPolicy, []) s)"

definition finite_rate :: "policyResponse \<Rightarrow> rat" where
  "finite_rate p = (case pr_ChanInvoiceFeeRate p of Fin r \<Rightarrow> r | _ \<Rightarrow> 0)"

definition policyVals :: "policyResponse \<Rightarrow> (string \<times> json) list" where
  "policyVals p = [(''node'', JStr (nodeString (pr_Node p))),
     (''addresses'', if pr_NodeAddresses p = [] then JNull else JArr (map JStr (pr_NodeAddresses p))),
     (''min_chan_size'', JNum (fmt_u64 (pr_MinChanSize p))),
     (''max_chan_size'', JNum (fmt_u64 (pr_MaxChanSize p))),
     (''max_nb_channels'', JNum (fmt_u64 (pr_MaxNbChannels p))),
     (''min_chan_lifetime'', JNum (fmt_i64 (pr_MinChanLifetime p))),
     (''chan_invoice_fee_rate'', JNum (fmtFloat (finite_rate p)))]"

text \<open>A policy that can be sent: its rate is a finite value of the type.\<close>

definition good_policy :: "policyResponse \<Rightarrow> bool" where
  "good_policy p \<longleftrightarrow> wf_nodeID (pr_Node p) \<and> (\<forall>a \<in> set (pr_NodeAddresses p). valid_utf8 a) \<and>
     pr_ChanInvoiceFeeRate p = Fin (finite_rate p) \<and> rnd (finite_rate p) = Fin (finite_rate p)"

lemma denotes_addresses:
  "\<forall>a \<in> set as. valid_utf8 a \<Longrightarrow>
     denotes (addressesText as) (if as = [] then JNull else JArr (map JStr as))"
  by (auto simp: addressesText_def list_all2_map1 list_all2_map2 list.rel_refl_strong
      intro!: denotes_null denotes_arr list.rel_refl_strong denotes_string)

lemma fillStrings_JStr: "fillStrings mem (map JStr as) = Some (as @ drop (length as) mem)"
  by (induction as arbitrary: mem) (auto simp: drop_Suc)

lemma list_all2_ConsI: "P x y \<Longrightarrow> list_all2 P xs ys \<Longrightarrow> list_all2 P (x # xs) (y # ys)"
  and list_all2_NilI: "list_all2 P [] []"
  by simp_all

lemma unmarshalI64_fmt [simp]: "unmarshalI64 old (JNum (fmt_i64 n)) = Some n"
  by (simp add: atoi_fmt_i64)

lemma policy_steps:
  "setPolicyField (p, mem) (''node'', v) = map_option (\<lambda>u. (p\<lparr>pr_Node := u\<rparr>, mem)) (unmarshalNodeID v)"
  "setPolicyField (p, mem) (''addresses'', v) = setAddresses (p, mem) v"
  "setPolicyField (p, mem) (''min_chan_size'', v) =
     map_option (\<lambda>n. (p\<lparr>pr_MinChanSize := n\<rparr>, mem)) (unmarshalU64 (pr_MinChanSize p) v)"
  "setPolicyField (p, mem) (''max_chan_size'', v) =
     map_option (\<lambda>n. (p\<lparr>pr_MaxChanSize := n\<rparr>, mem)) (unmarshalU64 (pr_MaxChanSize p) v)"
  "setPolicyField (p, mem) (''max_nb_channels'', v) =
     map_option (\<lambda>n. (p\<lparr>pr_MaxNbChannels := n\<rparr>, mem)) (unmarshalU64 (pr_MaxNbChannels p) v)"
  "setPolicyField (p, mem) (''min_chan_lifetime'', v) =
     map_option (\<lambda>n. (p\<lparr>pr_MinChanLifetime := n\<rparr>, mem)) (unmarshalI64 (pr_MinChanLifetime p) v)"
  "setPolicyField (p, mem) (''chan_invoice_fee_rate'', v) =
     map_option (\<lambda>x. (p\<lparr>pr_ChanInvoiceFeeRate := x\<rparr>, mem)) (unmarshalF64 (pr_ChanInvoiceFeeRate p) v)"
  by (simp_all add: field_simps_json)

interpretation policy: json_struct "\<lambda>p. policyTexts (finite_rate p) p" policyVals setPolicyField
  "(zeroPolicy, [])" fst good_policy "\<lambda>w. wf_nodeID (pr_Node (fst w))"
proof
  fix p assume p: "good_policy p"
  have "member_denotes (''addresses'', addressesText (pr_NodeAddresses p))
     (''addresses'', if pr_NodeAddresses p = [] then JNull else JArr (map JStr (pr_NodeAddresses p)))"
    using p by (intro member_denotesI denotes_addresses) (auto simp: good_policy_def plain_def)
  moreover have "member_denotes (''chan_invoice_fee_rate'', fmtFloat (finite_rate p))
     (''chan_invoice_fee_rate'', JNum (fmtFloat (finite_rate p)))"
    using p fmtFloat_reads [of "finite_rate p"] by (intro member_denotesI) (auto simp: good_policy_def plain_def)
  ultimately show "list_all2 member_denotes (policyTexts (finite_rate p) p) (policyVals p)"
    unfolding policyTexts_def policyVals_def
    by (intro list_all2_ConsI list_all2_NilI member_node member_nat member_i64) (simp_all add: plain_def)
  show "\<exists>w. setFields setPolicyField (zeroPolicy, []) (policyVals p) = Some w \<and> fst w = p"
    using p fmtFloat_reads [of "finite_rate p"]
    by (simp add: policyVals_def good_policy_def nodeOf_nodeString policy_steps zeroPolicy_def
        fillStrings_JStr del: setPolicyField.simps unmarshalU64.simps unmarshalI64.simps)
next
  show "wf_nodeID (pr_Node (fst (zeroPolicy, [])))" by (simp add: zeroPolicy_def)
next
  fix w m w' assume w: "wf_nodeID (pr_Node (fst w))" and m: "setPolicyField w m = Some w'"
  obtain p mem k v where kv: "m = (k, v)" "w = (p, mem)" by (metis prod.exhaust)
  have "wf_nodeID (pr_Node (fst y))" if "setAddresses (p, mem) v = Some y" for y
    using that w by (cases v) (auto simp: kv split: if_splits)
  with m w show "wf_nodeID (pr_Node (fst w'))"
    by (auto simp: kv dest: unmarshalNodeID_wf split: if_splits)
qed

lemma decode_encode_policy:
  assumes "good_policy p"
  shows "\<exists>t. encodePolicyResponse p = Some t \<and> decodePolicyResponse t = Some p"
proof -
  have "encodePolicyResponse p = Some (encodeStruct (policyTexts (finite_rate p) p))"
    using assms by (auto simp: encodePolicyResponse_def good_policy_def split: f64.split)
  then show ?thesis using policy.decode_encode [OF assms] by (auto simp: decodePolicyResponse_def)
qed

lemma decodePolicyResponse_wf: "decodePolicyResponse s = Some p \<Longrightarrow> wf_nodeID (pr_Node p)"
  using policy.decode_kept by (auto simp: decodePolicyResponse_def)

section \<open>The handlers\<close>

text \<open>\<open>subtle.ConstantTimeCompare\<close> answers 1 exactly on equal byte strings.\<close>

definition keyOk :: "config \<Rightarrow> string \<Rightarrow> bool" where
  "keyOk cfg key = (case CreateKey cfg of None \<Rightarrow> True | Some k \<Rightarrow> k = key)"

definition handleInvoice :: "'w env \<Rightarrow> config \<Rightarrow> string \<Rightarrow> 'w sys \<Rightarrow> string res \<times> 'w sys" where
  "handleInvoice E cfg body s =
     (case decodeInvoiceRequest body of
        None \<Rightarrow> (Err ErrDecode, s)
      | Some r \<Rightarrow>
          if \<not> keyOk cfg (ir_Key r) then (Err ErrWrongKey, s)
          else CreateInvoice E cfg (ir_TargetNode r) (ir_ChannelSize r) s)"

text \<open>\<open>node\<close> is \<open>Server.nodeID\<close>.\<close>

definition handlePolicy :: "nodeID \<Rightarrow> config \<Rightarrow> policyResponse" where
  "handlePolicy node cfg =
     \<lparr>pr_Node = node, pr_NodeAddresses = LNNodeAddrs cfg, pr_MinChanSize = MinChanSize cfg,
      pr_MaxChanSize = MaxChanSize cfg, pr_MaxNbChannels = MaxNbChannels cfg,
      pr_MinChanLifetime = MinChanLifetime cfg, pr_ChanInvoiceFeeRate = ChanInvoiceFeeRate cfg\<rparr>"

text \<open>
  What the client gets: a status with the message of an error, a JSON text, or an empty body. An
  answer that cannot be encoded leaves the body empty, and \<open>net/http\<close> then sends the status 200. A
  panic of the handler closes the connection.
\<close>

datatype body = ErrBody err | JsonBody string | EmptyBody

datatype reply = Reply nat body | Dropped

fun handlerFunc :: "('a \<Rightarrow> string option) \<Rightarrow> 'a res \<Rightarrow> reply" where
  "handlerFunc encode (Ok x) =
     (case encode x of Some t \<Rightarrow> Reply 200 (JsonBody t) | None \<Rightarrow> Reply 200 EmptyBody)"
| "handlerFunc encode (Err e) =
     (if e = ErrDecode \<or> isErrPolicy e then Reply 400 (ErrBody e)
      else if e = ErrWrongKey then Reply 403 (ErrBody e)
      else Reply 500 EmptyBody)"
| "handlerFunc encode (Panic m) = Dropped"

definition serveInvoice :: "'w env \<Rightarrow> config \<Rightarrow> string \<Rightarrow> 'w sys \<Rightarrow> reply \<times> 'w sys" where
  "serveInvoice E cfg body s =
     (case handleInvoice E cfg body s of (r, t) \<Rightarrow> (handlerFunc (\<lambda>x. Some (encodeInvoiceResponse x)) r, t))"

definition servePolicy :: "nodeID \<Rightarrow> config \<Rightarrow> reply" where
  "servePolicy node cfg = handlerFunc encodePolicyResponse (Ok (handlePolicy node cfg))"

section \<open>Properties of the interface\<close>

lemma CreateInvoice_Err_kind:
  "CreateInvoice E cfg node n s = (Err e, t) \<Longrightarrow> e \<noteq> ErrDecode \<and> e \<noteq> ErrWrongKey"
  by (auto simp: CreateInvoice_Err_iff issueInvoice_def Let_def bindR_iffs admit_def
      dest!: rpc_Err writeJsonFile_Err_other canCreateChannel_Err)

lemma CreateInvoice_Err_policy_quiet:
  "CreateInvoice E cfg node n s = (Err e, t) \<Longrightarrow> isErrPolicy e \<Longrightarrow> quiet s t"
  by (auto simp: CreateInvoice_Err_iff issueInvoice_def Let_def bindR_iffs
      dest!: rpc_Err writeJsonFile_Err_other dest: admit_Err_quiet)

lemma serveInvoice_cases:
  assumes "serveInvoice E cfg body s = (rep, t)"
  obtains (undecodable) "decodeInvoiceRequest body = None" "rep = Reply 400 (ErrBody ErrDecode)" "t = s"
  | (forbidden) r where "decodeInvoiceRequest body = Some r" "\<not> keyOk cfg (ir_Key r)"
      "rep = Reply 403 (ErrBody ErrWrongKey)" "t = s"
  | (created) r p where "decodeInvoiceRequest body = Some r" "keyOk cfg (ir_Key r)"
      "CreateInvoice E cfg (ir_TargetNode r) (ir_ChannelSize r) s = (Ok p, t)"
      "rep = Reply 200 (JsonBody (encodeInvoiceResponse p))"
  | (refused) r e where "decodeInvoiceRequest body = Some r" "keyOk cfg (ir_Key r)"
      "CreateInvoice E cfg (ir_TargetNode r) (ir_ChannelSize r) s = (Err e, t)" "isErrPolicy e"
      "rep = Reply 400 (ErrBody e)"
  | (failed) r e where "decodeInvoiceRequest body = Some r" "keyOk cfg (ir_Key r)"
      "CreateInvoice E cfg (ir_TargetNode r) (ir_ChannelSize r) s = (Err e, t)" "\<not> isErrPolicy e"
      "rep = Reply 500 EmptyBody"
proof (cases "decodeInvoiceRequest body")
  case None
  with assms show thesis by (intro undecodable) (auto simp: serveInvoice_def handleInvoice_def)
next
  case (Some r)
  show thesis
  proof (cases "keyOk cfg (ir_Key r)")
    case False
    with assms Some show thesis by (intro forbidden) (auto simp: serveInvoice_def handleInvoice_def)
  next
    case True
    obtain x t' where c: "CreateInvoice E cfg (ir_TargetNode r) (ir_ChannelSize r) s = (x, t')" by force
    then have rep: "rep = handlerFunc (\<lambda>x. Some (encodeInvoiceResponse x)) x" "t' = t"
      using assms Some True by (auto simp: serveInvoice_def handleInvoice_def)
    show thesis
    proof (cases x)
      case (Ok p)
      with Some True c rep show thesis by (intro created) auto
    next
      case (Err e)
      then show thesis using refused [of r e] failed [of r e] Some True c rep CreateInvoice_Err_kind [of E cfg _ _ s e t]
        by (cases "isErrPolicy e") auto
    next
      case (Panic m)
      with c CreateInvoice_not_Panic show thesis by blast
    qed
  qed
qed

text \<open>
  C10. The server answers every request for an invoice, whatever its body: 200 with an invoice exactly
  when the body decodes, the key is right and \<open>CreateInvoice\<close> succeeds for the decoded node and size;
  400 and 403 leave the server as it was; 403 is the answer to a wrong key and 500 to a failure
  behind the policy checks.
\<close>

theorem invoice_api:
  assumes "serveInvoice E cfg body s = (rep, t)"
  shows "(\<exists>st b. rep = Reply st b \<and> st \<in> {200, 400, 403, 500}) \<and>
    (\<forall>b. rep = Reply 200 b \<longleftrightarrow> (\<exists>r p. decodeInvoiceRequest body = Some r \<and> keyOk cfg (ir_Key r) \<and>
       wf_nodeID (ir_TargetNode r) \<and> b = JsonBody (encodeInvoiceResponse p) \<and>
       CreateInvoice E cfg (ir_TargetNode r) (ir_ChannelSize r) s = (Ok p, t))) \<and>
    (\<forall>b. rep = Reply 400 b \<or> rep = Reply 403 b \<longrightarrow> quiet s t) \<and>
    ((\<exists>b. rep = Reply 403 b) \<longleftrightarrow>
       (\<exists>r. decodeInvoiceRequest body = Some r \<and> \<not> keyOk cfg (ir_Key r)))"
proof -
  have wf: "wf_nodeID (ir_TargetNode r)" if "decodeInvoiceRequest body = Some r" for r
    using that request.decode_kept by (auto simp: decodeInvoiceRequest_def)
  from assms show ?thesis
    by (cases rule: serveInvoice_cases) (auto simp: wf dest: CreateInvoice_Err_policy_quiet)
qed

definition sampleRequest :: invoiceRequest where
  "sampleRequest = \<lparr>ir_TargetNode = sampleNode, ir_ChannelSize = 1048576, ir_Key = ''secret''\<rparr>"

lemma sample_good_request: "good_request sampleRequest"
  by (simp add: good_request_def sampleRequest_def valid_utf8_def Let_def)

theorem invoice_api_witness:
  "\<exists>p. fst (serveInvoice sampleEnv sampleCfg (encodeInvoiceRequest sampleRequest) sampleState) =
     Reply 200 (JsonBody (encodeInvoiceResponse p))"
proof -
  have k: "keyOk sampleCfg key" for key by (simp add: keyOk_def sampleCfg_def)
  have d: "decodeInvoiceRequest (encodeInvoiceRequest sampleRequest) = Some sampleRequest"
    by (rule decode_encode_request [OF sample_good_request])
  have r: "ir_TargetNode sampleRequest = sampleNode" "ir_ChannelSize sampleRequest = 1048576"
    by (simp_all add: sampleRequest_def)
  obtain rep t where e: "serveInvoice sampleEnv sampleCfg (encodeInvoiceRequest sampleRequest) sampleState = (rep, t)"
    by force
  then have "CreateInvoice sampleEnv sampleCfg sampleNode 1048576 sampleState = (Ok ''payreq'', t)"
    unfolding serveInvoice_def handleInvoice_def d sample_CreateInvoice by (simp add: k r sample_CreateInvoice)
  then have "\<exists>b. rep = Reply 200 (JsonBody (encodeInvoiceResponse b))"
    using invoice_api [OF e] d k r by auto
  with e show ?thesis by simp
qed

text \<open>
  C11. What the client asks for is what the server decides on: for a well-formed request, encoded as
  the client encodes it, the answer is the one for exactly this node, size and key, and the payment
  request in an answer of 200 reads back unchanged.
\<close>

theorem request_transported:
  assumes "good_request r"
  shows "serveInvoice E cfg (encodeInvoiceRequest r) s =
     (if keyOk cfg (ir_Key r)
      then (case CreateInvoice E cfg (ir_TargetNode r) (ir_ChannelSize r) s of
              (x, t) \<Rightarrow> (handlerFunc (\<lambda>p. Some (encodeInvoiceResponse p)) x, t))
      else (Reply 403 (ErrBody ErrWrongKey), s)) \<and>
    (valid_utf8 payreq \<longrightarrow> decodeInvoiceResponse (encodeInvoiceResponse payreq) = Some payreq)"
  using decode_encode_request [OF assms] decode_encode_response [of payreq]
  by (simp add: serveInvoice_def handleInvoice_def)

theorem request_transported_witness:
  "fst (serveInvoice sampleEnv (sampleCfg\<lparr>CreateKey := Some ''other''\<rparr>) (encodeInvoiceRequest sampleRequest) sampleState) =
     Reply 403 (ErrBody ErrWrongKey)"
  using request_transported [OF sample_good_request, of sampleEnv "sampleCfg\<lparr>CreateKey := Some ''other''\<rparr>" sampleState "[]"]
  by (simp add: keyOk_def sampleRequest_def)

text \<open>
  C12. The policy that the client decodes from the server's answer is the server's configuration,
  field by field, including the fee rate to the last bit, for every finite rate. With an infinite or
  undefined rate the answer is an empty body with status 200.
\<close>

theorem policy_transported:
  assumes "wf_nodeID node" and "\<forall>a \<in> set (LNNodeAddrs cfg). valid_utf8 a"
    and "\<forall>r. ChanInvoiceFeeRate cfg = Fin r \<longrightarrow> rnd r = Fin r"
  shows "(case ChanInvoiceFeeRate cfg of
      Fin r \<Rightarrow> \<exists>t. servePolicy node cfg = Reply 200 (JsonBody t) \<and>
        decodePolicyResponse t = Some (handlePolicy node cfg)
    | _ \<Rightarrow> servePolicy node cfg = Reply 200 EmptyBody)"
proof (cases "ChanInvoiceFeeRate cfg")
  case (Fin r)
  with assms have "good_policy (handlePolicy node cfg)"
    by (simp add: good_policy_def handlePolicy_def finite_rate_def)
  from decode_encode_policy [OF this] Fin show ?thesis by (auto simp: servePolicy_def)
qed (simp_all add: servePolicy_def handlePolicy_def encodePolicyResponse_def)

theorem policy_transported_witness:
  "\<exists>t. servePolicy sampleNode sampleCfg = Reply 200 (JsonBody t) \<and>
     decodePolicyResponse t = Some (handlePolicy sampleNode sampleCfg)"
proof -
  have "rnd (1 / 16) = Fin (1 / 16)"
    using rnd_rat_dyadic [of 1 "- 4" "1 / 16"] rnd_bounded [of "1 / 16"] by (simp add: power_int_minus)
  moreover have r: "ChanInvoiceFeeRate sampleCfg = Fin (1 / 16)" and a: "LNNodeAddrs sampleCfg = []"
    by (simp_all add: sampleCfg_def)
  ultimately have "\<forall>r. ChanInvoiceFeeRate sampleCfg = Fin r \<longrightarrow> rnd r = Fin r" by (metis f64.inject)
  from policy_transported [OF _ _ this, of sampleNode] show ?thesis by (simp add: r a)
qed

end
