(* ===== verification/Client_Lib.thy ===== *)
theory Client_Lib
  imports Api_V1
begin

text \<open>
  \<open>client/lpdclient.go\<close>: the client that asks a liquidity provider for a channel. \<open>'w\<close> is the
  client's outside world, its own dcrlnd node and the HTTP connection to the provider; every call is
  a field of \<open>cenv\<close>, as on the server's side. \<open>RequestChannel\<close> is modelled in two parts: the
  sequential part up to the checked invoice (\<open>prepare\<close>), and the payment, which runs beside the
  goroutine \<open>watchForChannel\<close> and is a step relation over all their interleavings.
\<close>

section \<open>State and environment\<close>

datatype cevent =
    CvCall string string
  | CvPolicyFetched policyResponse
  | CvConnect string string
  | CvPayingInvoice string
  | CvSend string i64
  | CvPayReply string
  | CvInvoicePaid
  | CvPendingChannel string u64
  | CvOpenSeen

record 'w cli =
  cworld :: 'w
  cevents :: "cevent list"

text \<open>
  The effects of the client, in the order they happen; \<open>CvPayReply\<close> is the field \<open>PaymentError\<close> of dcrlnd's answer
  to the payment, \<open>CvOpenSeen\<close> the reading of an open event.
\<close>

text \<open>
  An event of the channel stream, by its type; the flag of the first says whether the event's
  payload is the one of that type (the code asserts it).
\<close>

datatype chanEvent = EvOpenChan bool | EvPendingOpen | EvOtherChan

text \<open>
  \<open>c_Do\<close> is \<open>http.NewRequestWithContext\<close> with \<open>Client.Do\<close> and reading the body: an error, or the
  status and the bytes of the body. \<open>c_ChannelBalance\<close> is \<open>MaxOutboundAmount\<close>, \<open>c_DecodePayReq\<close> the
  amount and payment hash, \<open>c_RecvPayment\<close> the field \<open>PaymentError\<close> of the update. The callbacks of
  the configuration are optional.
\<close>

record 'w cenv =
  c_Do :: "string \<Rightarrow> string \<Rightarrow> 'w \<Rightarrow> (string + (nat \<times> string)) \<times> 'w"
  c_ListChannels :: "nodeID \<Rightarrow> 'w \<Rightarrow> (string + channel list) \<times> 'w"
  c_ChannelBalance :: "'w \<Rightarrow> (string + i64) \<times> 'w"
  c_QueryRoutes :: "i64 \<Rightarrow> i64 \<Rightarrow> string \<Rightarrow> 'w \<Rightarrow> (string + unit) \<times> 'w"
  c_ConnectPeer :: "string \<Rightarrow> string \<Rightarrow> 'w \<Rightarrow> (string + unit) \<times> 'w"
  c_GetInfo :: "'w \<Rightarrow> (string + getInfo) \<times> 'w"
  c_DecodePayReq :: "string \<Rightarrow> 'w \<Rightarrow> (string + (i64 \<times> string)) \<times> 'w"
  c_Subscribe :: "'w \<Rightarrow> (string + unit) \<times> 'w"
  c_RecvEvent :: "'w \<Rightarrow> (string + chanEvent) \<times> 'w"
  c_PendingChannels :: "'w \<Rightarrow> (string + pendingOpenChannel list) \<times> 'w"
  c_SendPayment :: "'w \<Rightarrow> (string + unit) \<times> 'w"
  c_Send :: "string \<Rightarrow> i64 \<Rightarrow> 'w \<Rightarrow> (string + unit) \<times> 'w"
  c_RecvPayment :: "'w \<Rightarrow> (string + string) \<times> 'w"
  c_PolicyFetched :: "(policyResponse \<Rightarrow> 'w \<Rightarrow> (string + unit) \<times> 'w) option"
  c_PayingInvoice :: "(string \<Rightarrow> 'w \<Rightarrow> 'w) option"
  c_InvoicePaid :: "('w \<Rightarrow> 'w) option"
  c_PendingChannel :: "(string \<Rightarrow> u64 \<Rightarrow> 'w \<Rightarrow> 'w) option"
  c_u64_oor :: "f64 \<Rightarrow> u64"

record cconfig =
  Address :: string
  Key :: string

definition cemit :: "cevent \<Rightarrow> 'w cli \<Rightarrow> 'w cli" where
  "cemit e s = s\<lparr>cevents := cevents s @ [e]\<rparr>"

definition call :: "('w \<Rightarrow> (string + 'a) \<times> 'w) \<Rightarrow> 'w cli \<Rightarrow> 'a res \<times> 'w cli" where
  "call f s = (case f (cworld s) of
      (Inl m, w) \<Rightarrow> (Err (ErrRpc m), s\<lparr>cworld := w\<rparr>)
    | (Inr x, w) \<Rightarrow> (Ok x, s\<lparr>cworld := w\<rparr>))"

text \<open>\<open>New\<close>: a configured certificate chain that does not parse is an error. \<open>pemOk\<close> is
  \<open>CertPool.AppendCertsFromPEM\<close>.\<close>

definition newClient :: "(string \<Rightarrow> bool) \<Rightarrow> string \<Rightarrow> unit res" where
  "newClient pemOk certs =
     (if certs \<noteq> [] \<and> \<not> pemOk certs then Err (ErrOther ''failed to parse certificates'') else Ok ())"

section \<open>Calls to the provider\<close>

text \<open>\<open>lprpcV1Call\<close>, for a request body and the decoder of the response.\<close>

definition lprpcV1Call ::
  "'w cenv \<Rightarrow> cconfig \<Rightarrow> string \<Rightarrow> string \<Rightarrow> (string \<Rightarrow> 'a option) \<Rightarrow> 'w cli \<Rightarrow> 'a res \<times> 'w cli" where
  "lprpcV1Call E cfg path req decode s =
     (let url = Address cfg @ path in
      bindR (call (c_Do E url req) (cemit (CvCall url req) s)) (\<lambda>(status, body) s1.
        if status \<noteq> 200 then (Err (ErrOther ''LP responded with error''), s1)
        else (case decode body of
                None \<Rightarrow> (Err (ErrOther ''unable to decode response''), s1)
              | Some x \<Rightarrow> (Ok x, s1))))"

definition EstimatedInvoiceAmount :: "(f64 \<Rightarrow> u64) \<Rightarrow> u64 \<Rightarrow> f64 \<Rightarrow> u64" where
  "EstimatedInvoiceAmount oor channelSize feeRate =
     f64_to_u64 oor (f64_mul (f64_of_u64 channelSize) feeRate)"

section \<open>Up to the invoice\<close>

abbreviation feeLimitAtoms :: i64 where "feeLimitAtoms \<equiv> 20"

text \<open>The body of the policy request is the JSON of a nil request.\<close>

definition fetchPolicy :: "'w cenv \<Rightarrow> cconfig \<Rightarrow> 'w cli \<Rightarrow> policyResponse res \<times> 'w cli" where
  "fetchPolicy E cfg s =
     lprpcV1Call E cfg ''/api/v1/policy'' (''null'' @ [CHR 0x0A]) decodePolicyResponse s"

definition checkPolicy :: "policyResponse \<Rightarrow> u64 \<Rightarrow> unit res" where
  "checkPolicy policy channelSize =
     (if pr_NodeAddresses policy = [] then Err (ErrOther ''policy without public node addresses'')
      else if channelSize < pr_MinChanSize policy then Err (ErrOther ''channel size is smaller than required'')
      else if pr_MaxChanSize policy < channelSize then Err (ErrOther ''channel size is larger than allowed'')
      else Ok ())"

definition checkWallet :: "'w cenv \<Rightarrow> policyResponse \<Rightarrow> u64 \<Rightarrow> 'w cli \<Rightarrow> unit res \<times> 'w cli" where
  "checkWallet E policy wantAtoms s =
     bindR (call (c_ListChannels E (pr_Node policy)) s) (\<lambda>chans s1.
       if pr_MaxNbChannels policy \<le> of_nat (length chans) then (Err (ErrOther ''too many channels opened to LP node''), s1)
       else bindR (call (c_ChannelBalance E) s1) (\<lambda>bal s2.
         if i64_lt bal wantAtoms then (Err (ErrOther ''outbound capacity too low''), s2)
         else call (c_QueryRoutes E wantAtoms feeLimitAtoms (nodeString (pr_Node policy))) s2))"

definition policyCallback :: "'w cenv \<Rightarrow> policyResponse \<Rightarrow> 'w cli \<Rightarrow> unit res \<times> 'w cli" where
  "policyCallback E policy s =
     (case c_PolicyFetched E of
        None \<Rightarrow> (Ok (), s)
      | Some f \<Rightarrow> call (f policy) (cemit (CvPolicyFetched policy) s))"

text \<open>\<open>strings.Contains\<close>\<close>

fun contains :: "string \<Rightarrow> string \<Rightarrow> bool" where
  "contains p [] = (p = [])"
| "contains p (c # s) = (take (length p) (c # s) = p \<or> contains p s)"

definition connectPeer :: "'w cenv \<Rightarrow> policyResponse \<Rightarrow> 'w cli \<Rightarrow> unit res \<times> 'w cli" where
  "connectPeer E policy s =
     (let node = nodeString (pr_Node policy); host = hd (pr_NodeAddresses policy)
      in case call (c_ConnectPeer E node host) (cemit (CvConnect node host) s) of
           (Err (ErrRpc m), s1) \<Rightarrow>
             if contains ''already connected to peer:'' m then (Ok (), s1) else (Err (ErrRpc m), s1)
         | r \<Rightarrow> r)"

definition requestInvoice :: "'w cenv \<Rightarrow> cconfig \<Rightarrow> u64 \<Rightarrow> 'w cli \<Rightarrow> string res \<times> 'w cli" where
  "requestInvoice E cfg channelSize s =
     bindR (call (c_GetInfo E) s) (\<lambda>info s1.
     bindR (fromString (IdentityPubkey info), s1) (\<lambda>myID s2.
       lprpcV1Call E cfg ''/api/v1/invoice''
         (encodeInvoiceRequest \<lparr>ir_TargetNode = myID, ir_ChannelSize = channelSize, ir_Key = Key cfg\<rparr>)
         decodeInvoiceResponse s2))"

text \<open>What the payment goes on with: the policy, the payment request and its hash.\<close>

definition prepare ::
  "'w cenv \<Rightarrow> cconfig \<Rightarrow> u64 \<Rightarrow> 'w cli \<Rightarrow> (policyResponse \<times> string \<times> string) res \<times> 'w cli" where
  "prepare E cfg channelSize s =
     bindR (fetchPolicy E cfg s) (\<lambda>policy s1.
     bindR (checkPolicy policy channelSize, s1) (\<lambda>_ s2.
     let wantAtoms = EstimatedInvoiceAmount (c_u64_oor E) channelSize (pr_ChanInvoiceFeeRate policy) in
     bindR (checkWallet E policy wantAtoms s2) (\<lambda>_ s3.
     bindR (policyCallback E policy s3) (\<lambda>_ s4.
     bindR (connectPeer E policy s4) (\<lambda>_ s5.
     bindR (requestInvoice E cfg channelSize s5) (\<lambda>payreq s6.
     bindR (call (c_DecodePayReq E payreq) s6) (\<lambda>(atoms, hash) s7.
       if wantAtoms \<noteq> atoms then (Err (ErrOther ''LP sent a different invoice amount''), s7)
       else (Ok (policy, payreq, hash), s7))))))))"

section \<open>The payment beside the watcher\<close>

text \<open>The points of the main goroutine after \<open>go c.watchForChannel\<close>; \<open>PayDone\<close> is its return.\<close>

datatype payPhase = PayAnnounce | PayOpen | PaySend | PayRecv | PayNotify | PayWait | PayDone "unit res"

definition failOr :: "unit res \<times> 's \<Rightarrow> payPhase \<Rightarrow> payPhase \<times> 's" where
  "failOr r nxt = (case r of (Ok _, s) \<Rightarrow> (nxt, s) | (e, s) \<Rightarrow> (PayDone e, s))"

text \<open>A callback without a result, when one is configured.\<close>

definition notify :: "('w \<Rightarrow> 'w) option \<Rightarrow> cevent \<Rightarrow> 'w cli \<Rightarrow> 'w cli" where
  "notify f e s = (case f of None \<Rightarrow> s | Some g \<Rightarrow> (cemit e s)\<lparr>cworld := g (cworld s)\<rparr>)"

fun payStep :: "'w cenv \<Rightarrow> string \<Rightarrow> string \<Rightarrow> payPhase \<Rightarrow> 'w cli \<Rightarrow> payPhase \<times> 'w cli" where
  "payStep E payreq hash PayAnnounce s = (PayOpen, notify (map_option (\<lambda>f. f hash) (c_PayingInvoice E)) (CvPayingInvoice hash) s)"
| "payStep E payreq hash PayOpen s = failOr (call (c_SendPayment E) s) PaySend"
| "payStep E payreq hash PaySend s =
     failOr (call (c_Send E payreq feeLimitAtoms) (cemit (CvSend payreq feeLimitAtoms) s)) PayRecv"
| "payStep E payreq hash PayRecv s =
     (case call (c_RecvPayment E) s of
        (Ok perr, s1) \<Rightarrow> (if perr \<noteq> [] then PayDone (Err (ErrOther perr)) else PayNotify, cemit (CvPayReply perr) s1)
      | (Err e, s1) \<Rightarrow> (PayDone (Err e), s1)
      | (Panic m, s1) \<Rightarrow> (PayDone (Panic m), s1))"
| "payStep E payreq hash PayNotify s = (PayWait, notify (c_InvoicePaid E) CvInvoicePaid s)"
| "payStep E payreq hash ph s = (ph, s)"

text \<open>
  \<open>watchForChannel\<close>: it subscribes, reads events, and ends by offering its result on the unbuffered
  channel, where it stays until the main goroutine takes it.
\<close>

datatype watchPhase = WSubscribe | WReading | WOffer "unit res" | WDone | WPanic

definition reportOne :: "'w cenv \<Rightarrow> nodeID \<Rightarrow> pendingOpenChannel \<Rightarrow> 'w cli \<Rightarrow> 'w cli" where
  "reportOne E node ch s =
     (if po_RemoteNodePub ch = nodeString node
      then notify (map_option (\<lambda>f. f (po_ChannelPoint ch) (po_Capacity ch)) (c_PendingChannel E))
             (CvPendingChannel (po_ChannelPoint ch) (po_Capacity ch)) s
      else s)"

definition reportPending :: "'w cenv \<Rightarrow> nodeID \<Rightarrow> 'w cli \<Rightarrow> 'w cli" where
  "reportPending E node s =
     (if c_PendingChannel E = None then s
      else case call (c_PendingChannels E) s of
          (Ok chans, s1) \<Rightarrow> fold (reportOne E node) chans s1
        | (_, s1) \<Rightarrow> s1)"

fun watchStep :: "'w cenv \<Rightarrow> nodeID \<Rightarrow> watchPhase \<Rightarrow> 'w cli \<Rightarrow> watchPhase \<times> 'w cli" where
  "watchStep E node WSubscribe s =
     (case call (c_Subscribe E) s of (Ok _, s1) \<Rightarrow> (WReading, s1) | (e, s1) \<Rightarrow> (WOffer e, s1))"
| "watchStep E node WReading s =
     (case call (c_RecvEvent E) s of
        (Ok (EvOpenChan matches), s1) \<Rightarrow>
          if matches then (WOffer (Ok ()), cemit CvOpenSeen s1) else (WPanic, s1)
      | (Ok EvPendingOpen, s1) \<Rightarrow> (WReading, reportPending E node s1)
      | (Ok EvOtherChan, s1) \<Rightarrow> (WReading, s1)
      | (Err e, s1) \<Rightarrow> (WOffer (Err e), s1)
      | (Panic m, s1) \<Rightarrow> (WPanic, s1))"
| "watchStep E node ph s = (ph, s)"

text \<open>
  One step of the client: the main goroutine or the watcher moves, or the watcher's result is handed
  over. After the return of the main goroutine the watcher goes on.
\<close>

type_synonym 'w session = "payPhase \<times> watchPhase \<times> 'w cli"

inductive cstep :: "'w cenv \<Rightarrow> policyResponse \<times> string \<times> string \<Rightarrow> 'w session \<Rightarrow> 'w session \<Rightarrow> bool"
  for E plan where
  main: "payStep E (fst (snd plan)) (snd (snd plan)) ph s = (ph', t) \<Longrightarrow> ph \<noteq> PayWait \<Longrightarrow>
     (\<And>r. ph \<noteq> PayDone r) \<Longrightarrow> wp \<noteq> WPanic \<Longrightarrow> cstep E plan (ph, wp, s) (ph', wp, t)"
| watch: "watchStep E (pr_Node (fst plan)) wp s = (wp', t) \<Longrightarrow> wp = WSubscribe \<or> wp = WReading \<Longrightarrow>
     cstep E plan (ph, wp, s) (ph, wp', t)"
| handover: "cstep E plan (PayWait, WOffer r, s) (PayDone r, WDone, s)"

inductive session :: "'w cenv \<Rightarrow> cconfig \<Rightarrow> u64 \<Rightarrow> 'w cli \<Rightarrow> 'w session \<Rightarrow> bool"
  for E cfg chanSize s0 where
  start: "prepare E cfg chanSize s0 = (Ok plan, s) \<Longrightarrow> session E cfg chanSize s0 (PayAnnounce, WSubscribe, s)"
| aborted: "prepare E cfg chanSize s0 = (Err e, s) \<Longrightarrow> session E cfg chanSize s0 (PayDone (Err e), WDone, s)"
| move: "session E cfg chanSize s0 x \<Longrightarrow> prepare E cfg chanSize s0 = (Ok plan, s) \<Longrightarrow> cstep E plan x y \<Longrightarrow>
     session E cfg chanSize s0 y"

section \<open>Lemmas\<close>

lemma call_frame [simp]: "call f s = (r, t) \<Longrightarrow> cevents t = cevents s"
  by (auto simp: call_def split: prod.splits sum.splits)

lemma call_cases:
  assumes "call f s = (r, t)"
  obtains (ok) x w where "r = Ok x" "f (cworld s) = (Inr x, w)" "t = s\<lparr>cworld := w\<rparr>"
    | (err) m w where "r = Err (ErrRpc m)" "f (cworld s) = (Inl m, w)" "t = s\<lparr>cworld := w\<rparr>"
  using assms by (auto simp: call_def split: prod.splits sum.splits)

lemma call_Ok: "call f s = (Ok x, t) \<Longrightarrow> \<exists>w w'. f w = (Inr x, w')"
  by (elim call_cases) auto

lemma call_not_Panic: "call f s \<noteq> (Panic m, t)"
  by (auto elim: call_cases)

text \<open>The payments among the effects, with dcrlnd's answers to them, and the open events.\<close>

fun is_pay :: "cevent \<Rightarrow> bool" where
  "is_pay (CvSend p f) = True"
| "is_pay (CvPayReply e) = True"
| "is_pay _ = False"

definition payments :: "'w cli \<Rightarrow> cevent list" where
  "payments s = filter is_pay (cevents s)"

definition opens :: "'w cli \<Rightarrow> cevent list" where
  "opens s = filter ((=) CvOpenSeen) (cevents s)"

text \<open>Both together, for the steps that have none of them.\<close>

definition marks :: "'w cli \<Rightarrow> cevent list" where
  "marks s = filter (\<lambda>e. is_pay e \<or> e = CvOpenSeen) (cevents s)"

lemma marks_payments: "marks t = marks s \<Longrightarrow> payments t = payments s" "marks t = marks s \<Longrightarrow> opens t = opens s"
proof -
  have "payments u = filter is_pay (marks u)" "opens u = filter ((=) CvOpenSeen) (marks u)" for u :: "'w cli"
    by (auto simp: payments_def opens_def marks_def intro!: filter_cong)
  from this [of s] this [of t]
  show "marks t = marks s \<Longrightarrow> payments t = payments s" "marks t = marks s \<Longrightarrow> opens t = opens s" by simp_all
qed

lemma marks_simps [simp]:
  "marks (cemit e s) = marks s @ (if is_pay e \<or> e = CvOpenSeen then [e] else [])"
  "payments (cemit e s) = payments s @ (if is_pay e then [e] else [])"
  "opens (cemit e s) = opens s @ (if e = CvOpenSeen then [e] else [])"
  "marks (s\<lparr>cworld := w\<rparr>) = marks s" "payments (s\<lparr>cworld := w\<rparr>) = payments s" "opens (s\<lparr>cworld := w\<rparr>) = opens s"
  by (simp_all add: marks_def payments_def opens_def cemit_def)

lemma marks_call: "call f s = (r, t) \<Longrightarrow> marks t = marks s \<and> payments t = payments s \<and> opens t = opens s"
  by (simp_all add: marks_def payments_def opens_def)

lemma marks_notify [simp]: "\<not> is_pay e \<Longrightarrow> e \<noteq> CvOpenSeen \<Longrightarrow> marks (notify f e s) = marks s"
  by (simp add: notify_def split: option.split)

lemma marks_reportPending [simp]: "marks (reportPending E node s) = marks s"
proof -
  have "marks (fold (reportOne E node) chans t) = marks t" for chans t
    by (induction chans arbitrary: t) (auto simp: reportOne_def)
  then show ?thesis by (auto simp: reportPending_def split: prod.split res.split dest: marks_call)
qed

lemma notify_payments [simp]: "\<not> is_pay e \<Longrightarrow> e \<noteq> CvOpenSeen \<Longrightarrow> payments (notify f e s) = payments s"
  "\<not> is_pay e \<Longrightarrow> e \<noteq> CvOpenSeen \<Longrightarrow> opens (notify f e s) = opens s"
  by (rule marks_payments; simp)+

lemma reportPending_payments [simp]: "payments (reportPending E node s) = payments s" "opens (reportPending E node s) = opens s"
  by (rule marks_payments; simp)+

lemma payments_watchStep: "watchStep E node wp s = (wp', t) \<Longrightarrow> payments t = payments s"
  by (cases wp) (auto split: prod.splits res.splits chanEvent.splits if_splits dest!: marks_call)

subsection \<open>What a successful preparation has checked\<close>

lemma lprpcV1Call_Ok:
  assumes "lprpcV1Call E cfg path req dec s = (Ok x, t)"
  shows "cevents t = cevents s @ [CvCall (Address cfg @ path) req] \<and>
    (\<exists>w w' body. c_Do E (Address cfg @ path) req w = (Inr (200, body), w') \<and> dec body = Some x)"
proof -
  from assms obtain body s1 where
    c: "call (c_Do E (Address cfg @ path) req) (cemit (CvCall (Address cfg @ path) req) s) = (Ok (200, body), s1)"
    and d: "dec body = Some x" "t = s1"
    by (auto simp: lprpcV1Call_def Let_def bindR_iffs split: if_splits option.splits)
  from call_Ok [OF c] d call_frame [OF c] show ?thesis by (auto simp: cemit_def)
qed

lemma keeps_call [simp]: "marks (snd (call f s)) = marks s"
  by (cases "call f s") (auto dest: marks_call)

lemma keeps_bind:
  "marks (snd m) = S \<Longrightarrow> (\<And>x u. marks u = S \<Longrightarrow> marks (snd (k x u)) = S) \<Longrightarrow> marks (snd (bindR m k)) = S"
  by (cases m rule: prod.exhaust, rename_tac r t, case_tac r) auto

lemma keeps_lprpcV1Call [simp]: "marks (snd (lprpcV1Call E cfg path req dec s)) = marks s"
  unfolding lprpcV1Call_def Let_def by (rule keeps_bind) (auto split: prod.split option.split)

lemma keeps_steps:
  "marks (snd (fetchPolicy E cfg s)) = marks s"
  "marks (snd (checkWallet E policy n s)) = marks s"
  "marks (snd (policyCallback E policy s)) = marks s"
  "marks (snd (requestInvoice E cfg chanSize s)) = marks s"
  unfolding fetchPolicy_def checkWallet_def policyCallback_def requestInvoice_def
  by (auto intro!: keeps_bind split: option.split)

lemma keeps_connectPeer: "marks (snd (connectPeer E policy s)) = marks s"
  by (auto simp: connectPeer_def Let_def split: prod.split res.split err.split dest: marks_call)

lemma prepare_marks: "prepare E cfg chanSize s = (r, t) \<Longrightarrow> marks t = marks s"
proof -
  have "marks (snd (prepare E cfg chanSize s)) = marks s"
    unfolding prepare_def Let_def
    by (intro keeps_bind) (auto simp: keeps_steps keeps_connectPeer split: prod.split)
  then show "prepare E cfg chanSize s = (r, t) \<Longrightarrow> marks t = marks s" by simp
qed

lemma connectPeer_Ok:
  "connectPeer E policy s = (Ok (), t) \<Longrightarrow>
     cevents t = cevents s @ [CvConnect (nodeString (pr_Node policy)) (hd (pr_NodeAddresses policy))]"
  by (auto simp: connectPeer_def Let_def cemit_def split: prod.splits res.splits err.splits if_splits
      dest!: call_frame)

lemma checkWallet_Ok:
  assumes "checkWallet E policy n s = (Ok (), t)"
  shows "cevents t = cevents s \<and>
    (\<exists>chans bal w1 w1' w2 w2' w3 w3'. c_ListChannels E (pr_Node policy) w1 = (Inr chans, w1') \<and>
       of_nat (length chans) < pr_MaxNbChannels policy \<and>
       c_ChannelBalance E w2 = (Inr bal, w2') \<and> i64_le n bal \<and>
       c_QueryRoutes E n feeLimitAtoms (nodeString (pr_Node policy)) w3 = (Inr (), w3'))"
proof -
  from assms obtain chans s1 bal s2 where
    a: "call (c_ListChannels E (pr_Node policy)) s = (Ok chans, s1)" and
    b: "\<not> pr_MaxNbChannels policy \<le> of_nat (length chans)" and
    c: "call (c_ChannelBalance E) s1 = (Ok bal, s2)" and d: "\<not> i64_lt bal n" and
    e: "call (c_QueryRoutes E n feeLimitAtoms (nodeString (pr_Node policy))) s2 = (Ok (), t)"
    by (auto simp: checkWallet_def bindR_iffs split: if_splits)
  from call_Ok [OF a] call_Ok [OF c] call_Ok [OF e] b d call_frame [OF a] call_frame [OF c] call_frame [OF e]
  show ?thesis by (fastforce simp: not_le i64_not_lt)
qed

lemma checkPolicy_Ok:
  "checkPolicy policy chanSize = Ok () \<longleftrightarrow> pr_NodeAddresses policy \<noteq> [] \<and>
     pr_MinChanSize policy \<le> chanSize \<and> chanSize \<le> pr_MaxChanSize policy"
  by (auto simp: checkPolicy_def not_less)

lemma requestInvoice_Ok:
  assumes "requestInvoice E cfg chanSize s = (Ok payreq, t)"
  shows "\<exists>myID. wf_nodeID myID \<and> cevents t = cevents s @ [CvCall (Address cfg @ ''/api/v1/invoice'')
     (encodeInvoiceRequest \<lparr>ir_TargetNode = myID, ir_ChannelSize = chanSize, ir_Key = Key cfg\<rparr>)]"
  using assms
  by (auto simp: requestInvoice_def bindR_iffs dest!: lprpcV1Call_Ok dest: fromString_wf)

subsection \<open>The session\<close>

inductive_cases cstepE: "cstep E plan x y"
inductive_simps cstep_returned: "cstep E plan (PayDone r, WOffer x, s) y"

text \<open>
  The payments that the main goroutine can have made at each point, and the open events the watcher can have read.
\<close>

definition paid_so_far :: "string \<Rightarrow> cevent list \<Rightarrow> payPhase \<Rightarrow> cevent list \<Rightarrow> bool" where
  "paid_so_far payreq before ph now \<longleftrightarrow>
     (case ph of
        PayRecv \<Rightarrow> now = before @ [CvSend payreq feeLimitAtoms]
      | PayNotify \<Rightarrow> now = before @ [CvSend payreq feeLimitAtoms, CvPayReply []]
      | PayWait \<Rightarrow> now = before @ [CvSend payreq feeLimitAtoms, CvPayReply []]
      | PayDone r \<Rightarrow> now = before @ [CvSend payreq feeLimitAtoms, CvPayReply []] \<or>
          r \<noteq> Ok () \<and> (now = before \<or> now = before @ [CvSend payreq feeLimitAtoms] \<or>
            (\<exists>perr. now = before @ [CvSend payreq feeLimitAtoms, CvPayReply perr]))
      | _ \<Rightarrow> now = before)"

definition open_seen :: "cevent list \<Rightarrow> payPhase \<Rightarrow> watchPhase \<Rightarrow> cevent list \<Rightarrow> bool" where
  "open_seen before ph wp now \<longleftrightarrow>
     (wp = WSubscribe \<or> wp = WReading \<longrightarrow> now = before) \<and>
     (wp = WOffer (Ok ()) \<longrightarrow> now = before @ [CvOpenSeen]) \<and>
     (ph = PayDone (Ok ()) \<longrightarrow> wp = WDone \<and> now = before @ [CvOpenSeen])"

lemma payStep_paid:
  assumes "payStep E payreq hash ph s = (ph', t)" and "paid_so_far payreq before ph (payments s)"
  shows "paid_so_far payreq before ph' (payments t)"
  using assms
  by (cases ph) (auto simp: paid_so_far_def failOr_def split: prod.splits res.splits if_splits dest!: marks_call)

lemma payStep_opens:
  assumes "payStep E payreq hash ph s = (ph', t)"
  shows "opens t = opens s"
  using assms
  by (cases ph) (auto simp: failOr_def split: prod.splits res.splits if_splits dest!: marks_call)

lemma payStep_success:
  assumes "payStep E payreq hash ph s = (ph', t)" and "ph' = PayDone (Ok ())"
  shows "ph = PayDone (Ok ())"
  using assms
  by (cases ph) (auto simp: failOr_def split: prod.splits res.splits if_splits)

lemma watchStep_opens:
  assumes "watchStep E node wp s = (wp', t)" and "wp = WSubscribe \<or> wp = WReading"
  shows "(wp' = WSubscribe \<or> wp' = WReading \<longrightarrow> opens t = opens s) \<and> (wp' = WOffer (Ok ()) \<longrightarrow> opens t = opens s @ [CvOpenSeen])"
  using assms
  by (cases wp) (auto split: prod.splits res.splits chanEvent.splits if_splits dest!: marks_call)

lemma session_invariant:
  assumes "session E cfg chanSize s0 x" and "prepare E cfg chanSize s0 = (Ok (policy, payreq, hash), s1)"
  shows "case x of (ph, wp, s) \<Rightarrow> paid_so_far payreq (payments s0) ph (payments s) \<and> open_seen (opens s0) ph wp (opens s)"
  using assms
proof (induction rule: session.induct)
  case (start plan s)
  then have "payments s = payments s0" "opens s = opens s0" using marks_payments prepare_marks by blast+
  then show ?case by (simp add: paid_so_far_def open_seen_def)
next
  case (move x plan s y)
  then have plan: "plan = (policy, payreq, hash)" by simp
  from move have IH: "case x of (ph, wp, s) \<Rightarrow> paid_so_far payreq (payments s0) ph (payments s) \<and> open_seen (opens s0) ph wp (opens s)"
    by simp
  from move.hyps(3) show ?case
  proof (cases rule: cstep.cases)
    case (main ph s ph' t wp)
    with IH plan payStep_paid payStep_opens payStep_success show ?thesis
      by (fastforce simp: open_seen_def)
  next
    case (watch wp s wp' t ph)
    from watch(3) have "payments t = payments s" by (rule payments_watchStep)
    with watchStep_opens [OF watch(3,4)] watch(1,2,4) IH show ?thesis by (auto simp: open_seen_def)
  next
    case (handover r s)
    with IH show ?thesis by (auto simp: paid_so_far_def open_seen_def)
  qed
qed simp

text \<open>
  The order in which everything goes well: the channel opens at once and the payment goes through.
\<close>

lemma session_succeeds:
  assumes p: "prepare E cfg chanSize s0 = (Ok plan, t)"
    and "\<And>w. c_Subscribe E w = (Inr (), w)" "\<And>w. c_RecvEvent E w = (Inr (EvOpenChan True), w)"
    and "\<And>w. c_SendPayment E w = (Inr (), w)" "\<And>req f w. c_Send E req f w = (Inr (), w)"
    and "\<And>w. c_RecvPayment E w = (Inr [], w)"
  shows "\<exists>s. session E cfg chanSize s0 (PayDone (Ok ()), WDone, s)"
proof -
  have go: "session E cfg chanSize s0 x \<Longrightarrow> cstep E plan x y \<Longrightarrow> session E cfg chanSize s0 y" for x y
    by (rule session.move [OF _ p])
  have main: "session E cfg chanSize s0 (ph, wp, s) \<Longrightarrow> ph \<noteq> PayWait \<Longrightarrow> (\<And>r. ph \<noteq> PayDone r) \<Longrightarrow> wp \<noteq> WPanic \<Longrightarrow>
      fst (payStep E (fst (snd plan)) (snd (snd plan)) ph s) = ph' \<Longrightarrow> \<exists>u. session E cfg chanSize s0 (ph', wp, u)"
    for ph ph' wp s
    using go cstep.main [of E plan ph s] by (metis prod.collapse)
  have watch: "session E cfg chanSize s0 (ph, wp, s) \<Longrightarrow> wp = WSubscribe \<or> wp = WReading \<Longrightarrow>
      fst (watchStep E (pr_Node (fst plan)) wp s) = wp' \<Longrightarrow> \<exists>u. session E cfg chanSize s0 (ph, wp', u)"
    for ph wp wp' s
    using go cstep.watch [of E plan wp s] by (metis prod.collapse)
  note run = call_def failOr_def assms(2-)
  from watch [OF session.start [OF p], of WReading] obtain a where
    "session E cfg chanSize s0 (PayAnnounce, WReading, a)" by (auto simp: run)
  from watch [OF this, of "WOffer (Ok ())"] obtain b where
    "session E cfg chanSize s0 (PayAnnounce, WOffer (Ok ()), b)" by (auto simp: run)
  from main [OF this, of PayOpen] obtain c where "session E cfg chanSize s0 (PayOpen, WOffer (Ok ()), c)" by auto
  from main [OF this, of PaySend] obtain d where "session E cfg chanSize s0 (PaySend, WOffer (Ok ()), d)"
    by (auto simp: run)
  from main [OF this, of PayRecv] obtain e where "session E cfg chanSize s0 (PayRecv, WOffer (Ok ()), e)"
    by (auto simp: run)
  from main [OF this, of PayNotify] obtain f where "session E cfg chanSize s0 (PayNotify, WOffer (Ok ()), f)"
    by (auto simp: run)
  from main [OF this, of PayWait] obtain g where "session E cfg chanSize s0 (PayWait, WOffer (Ok ()), g)" by auto
  from go [OF this cstep.handover] show ?thesis by blast
qed

lemma session_prepared:
  "session E cfg chanSize s0 x \<Longrightarrow>
     (\<exists>plan t. prepare E cfg chanSize s0 = (Ok plan, t)) \<or>
     (\<exists>e t. prepare E cfg chanSize s0 = (Err e, t) \<and> x = (PayDone (Err e), WDone, t))"
  by (induction rule: session.induct) auto

lemma prepare_Ok:
  assumes "prepare E cfg chanSize s = (Ok (policy, payreq, hash), t)"
  obtains s1 s2 s3 s4 s5 where "fetchPolicy E cfg s = (Ok policy, s1)" "checkPolicy policy chanSize = Ok ()"
    "checkWallet E policy (EstimatedInvoiceAmount (c_u64_oor E) chanSize (pr_ChanInvoiceFeeRate policy)) s1 = (Ok (), s2)"
    "policyCallback E policy s2 = (Ok (), s3)" "connectPeer E policy s3 = (Ok (), s4)"
    "requestInvoice E cfg chanSize s4 = (Ok payreq, s5)"
    "call (c_DecodePayReq E payreq) s5 =
       (Ok (EstimatedInvoiceAmount (c_u64_oor E) chanSize (pr_ChanInvoiceFeeRate policy), hash), t)"
  using assms by (auto simp: prepare_def Let_def bindR_iffs split: if_splits)

text \<open>A policy that the server encoded and the client decoded is the server's.\<close>

lemma policy_received:
  assumes "servePolicy node scfg = Reply 200 (JsonBody tx)" and "decodePolicyResponse tx = Some policy"
    and "wf_nodeID node" and "\<forall>a \<in> set (LNNodeAddrs scfg). valid_utf8 a"
    and "\<forall>r. ChanInvoiceFeeRate scfg = Fin r \<longrightarrow> rnd r = Fin r"
  shows "policy = handlePolicy node scfg"
proof -
  obtain r where r: "ChanInvoiceFeeRate scfg = Fin r"
    using assms(1) by (cases "ChanInvoiceFeeRate scfg") (auto simp: servePolicy_def handlePolicy_def encodePolicyResponse_def)
  then have "good_policy (handlePolicy node scfg)"
    using assms(3-5) by (simp add: good_policy_def handlePolicy_def finite_rate_def)
  from decode_encode_policy [OF this] assms(1,2) show ?thesis by (auto simp: servePolicy_def)
qed

section \<open>A client and a server together\<close>

text \<open>
  A concrete client whose HTTP connection is the model of the server, in the world of
  \<open>Sample_World\<close>; the client's node is already connected to the provider.
\<close>

definition lpCfg :: config where
  "lpCfg = sampleCfg\<lparr>LNNodeAddrs := [''lp'']\<rparr>"

fun httpOf :: "reply \<Rightarrow> string + (nat \<times> string)" where
  "httpOf (Reply st (JsonBody t)) = Inr (st, t)"
| "httpOf (Reply st b) = Inr (st, [])"
| "httpOf Dropped = Inl ''EOF''"

definition sampleClient :: "int sys cenv" where
  "sampleClient = \<lparr>
     c_Do = \<lambda>url body w. if url = ''lp/api/v1/policy'' then (httpOf (servePolicy sampleNode lpCfg), w)
        else (case serveInvoice sampleEnv lpCfg body w of (r, t) \<Rightarrow> (httpOf r, t)),
     c_ListChannels = \<lambda>_ w. (Inr [], w), c_ChannelBalance = \<lambda>w. (Inr 100000, w),
     c_QueryRoutes = \<lambda>_ _ _ w. (Inr (), w),
     c_ConnectPeer = \<lambda>_ _ w. (Inl ''already connected to peer: lp'', w),
     c_GetInfo = \<lambda>w. (Inr \<lparr>IdentityPubkey = nodeString sampleNode, gi_BlockHeight = 7201, gi_Chains = []\<rparr>, w),
     c_DecodePayReq = \<lambda>_ w. (Inr (65536, ''hash''), w),
     c_Subscribe = \<lambda>w. (Inr (), w), c_RecvEvent = \<lambda>w. (Inr (EvOpenChan True), w),
     c_PendingChannels = \<lambda>w. (Inr [], w), c_SendPayment = \<lambda>w. (Inr (), w),
     c_Send = \<lambda>_ _ w. (Inr (), w), c_RecvPayment = \<lambda>w. (Inr [], w),
     c_PolicyFetched = None, c_PayingInvoice = None, c_InvoicePaid = None, c_PendingChannel = None,
     c_u64_oor = \<lambda>_. 0\<rparr>"

definition sampleClientCfg :: cconfig where
  "sampleClientCfg = \<lparr>Address = ''lp'', Key = ''secret''\<rparr>"

definition sampleClientState :: "int sys cli" where
  "sampleClientState = \<lparr>cworld = sampleState, cevents = []\<rparr>"

lemma rnd_sixteenth: "rnd (1 / 16) = Fin (1 / 16)"
  using rnd_rat_dyadic [of 1 "- 4" "1 / 16"] rnd_bounded [of "1 / 16"] by (simp add: power_int_minus)

lemma sample_policy:
  "\<exists>t. servePolicy sampleNode lpCfg = Reply 200 (JsonBody t) \<and>
     decodePolicyResponse t = Some (handlePolicy sampleNode lpCfg)"
proof -
  have "good_policy (handlePolicy sampleNode lpCfg)"
    using rnd_sixteenth by (simp add: good_policy_def handlePolicy_def finite_rate_def lpCfg_def sampleCfg_def
        valid_utf8_def Let_def)
  from decode_encode_policy [OF this] show ?thesis by (auto simp: servePolicy_def)
qed

lemma sample_lp_invoice:
  "CreateInvoice sampleEnv lpCfg sampleNode 1048576 sampleState =
     (Ok ''payreq'', snd (CreateInvoice sampleEnv lpCfg sampleNode 1048576 sampleState))"
  by (simp add: CreateInvoice_def issueInvoice_def Let_def admit_def canCreateChannel_def isConnectedToNode_def
      hasUnspentForNewChannel_def hasMaxPendingChannels_def hasPendingCreateChanReqs_def trackPending_def rpc_def
      ask_def requireR_def refuseR_def writeJsonFile_def emit_def sample_defs lpCfg_def)

lemma sample_served:
  "\<exists>t. serveInvoice sampleEnv lpCfg (encodeInvoiceRequest sampleRequest) sampleState =
     (Reply 200 (JsonBody (encodeInvoiceResponse ''payreq'')), t)"
proof -
  have "keyOk lpCfg key" for key by (simp add: keyOk_def lpCfg_def sampleCfg_def)
  moreover obtain t where "CreateInvoice sampleEnv lpCfg sampleNode 1048576 sampleState = (Ok ''payreq'', t)"
    using sample_lp_invoice by blast
  ultimately show ?thesis
    using decode_encode_request [OF sample_good_request]
    by (simp add: serveInvoice_def handleInvoice_def sampleRequest_def)
qed

lemma sample_estimate: "EstimatedInvoiceAmount (\<lambda>_. 0) 1048576 (Fin (1 / 16)) = 65536"
  using sample_price [of sampleEnv]
  by (simp add: EstimatedInvoiceAmount_def amountForNewChan_def sample_defs)

lemma sample_prepare_with:
  assumes "\<And>f. pf = Some f \<Longrightarrow> f = (\<lambda>_ w. (Inr (), w))"
  shows "\<exists>t. prepare (sampleClient\<lparr>c_PolicyFetched := pf, c_PayingInvoice := ann, c_InvoicePaid := paid,
       c_PendingChannel := pend\<rparr>) sampleClientCfg 1048576 (sampleClientState\<lparr>cevents := evs\<rparr>) =
     (Ok (handlePolicy sampleNode lpCfg, ''payreq'', ''hash''), t)"
proof -
  obtain tx where p: "servePolicy sampleNode lpCfg = Reply 200 (JsonBody tx)"
    "decodePolicyResponse tx = Some (handlePolicy sampleNode lpCfg)" using sample_policy by blast
  obtain t where i: "serveInvoice sampleEnv lpCfg (encodeInvoiceRequest sampleRequest) sampleState =
     (Reply 200 (JsonBody (encodeInvoiceResponse ''payreq'')), t)" using sample_served by blast
  have "decodeInvoiceResponse (encodeInvoiceResponse ''payreq'') = Some ''payreq''"
    by (rule decode_encode_response) (simp add: valid_utf8_def Let_def)
  moreover have "pr_NodeAddresses (handlePolicy sampleNode lpCfg) = [''lp'']"
    "pr_MinChanSize (handlePolicy sampleNode lpCfg) = 1000" "pr_MaxChanSize (handlePolicy sampleNode lpCfg) = 2000000"
    "pr_MaxNbChannels (handlePolicy sampleNode lpCfg) = 1" "pr_Node (handlePolicy sampleNode lpCfg) = sampleNode"
    "pr_ChanInvoiceFeeRate (handlePolicy sampleNode lpCfg) = Fin (1 / 16)"
    by (simp_all add: handlePolicy_def lpCfg_def sampleCfg_def)
  ultimately show ?thesis
    using p i [unfolded sampleRequest_def] assms
    by (cases pf) (simp_all add: prepare_def fetchPolicy_def checkPolicy_def checkWallet_def policyCallback_def connectPeer_def
        requestInvoice_def lprpcV1Call_def call_def cemit_def Let_def sampleClient_def sampleClientCfg_def
        sampleClientState_def sample_estimate fromString_nodeString i64_lt_def)
qed

lemma sample_prepare:
  "\<exists>t. prepare sampleClient sampleClientCfg 1048576 sampleClientState =
     (Ok (handlePolicy sampleNode lpCfg, ''payreq'', ''hash''), t)"
  using sample_prepare_with [of None None None None "[]"] by (simp add: sampleClient_def sampleClientState_def)

section \<open>Properties\<close>

text \<open>
  C8. Before anything is paid the client has checked everything it can: the policy it decoded from the
  provider has an address and admits the size, the wallet has fewer channels with the provider than
  the policy allows, the balance and a route for the price, the invoice it asked for names itself,
  the size and the configured key, and the invoice it got costs exactly the price computed from the
  policy.
\<close>

theorem client_checks:
  assumes "prepare E cfg chanSize s = (Ok (policy, payreq, hash), t)"
  shows "\<exists>price bal chans myID body w1 w2 w3 w4 w5 w1' w2' w3' w4' w5' cb.
    price = EstimatedInvoiceAmount (c_u64_oor E) chanSize (pr_ChanInvoiceFeeRate policy) \<and>
    c_Do E (Address cfg @ ''/api/v1/policy'') (''null'' @ [CHR 0x0A]) w1 = (Inr (200, body), w1') \<and>
    decodePolicyResponse body = Some policy \<and>
    pr_NodeAddresses policy \<noteq> [] \<and> pr_MinChanSize policy \<le> chanSize \<and> chanSize \<le> pr_MaxChanSize policy \<and>
    c_ListChannels E (pr_Node policy) w2 = (Inr chans, w2') \<and> of_nat (length chans) < pr_MaxNbChannels policy \<and>
    c_ChannelBalance E w3 = (Inr bal, w3') \<and> i64_le price bal \<and>
    c_QueryRoutes E price feeLimitAtoms (nodeString (pr_Node policy)) w4 = (Inr (), w4') \<and>
    c_DecodePayReq E payreq w5 = (Inr (price, hash), w5') \<and> wf_nodeID myID \<and>
    cb = (case c_PolicyFetched E of None \<Rightarrow> [] | _ \<Rightarrow> [CvPolicyFetched policy]) \<and>
    cevents t = cevents s @ [CvCall (Address cfg @ ''/api/v1/policy'') (''null'' @ [CHR 0x0A])] @ cb @
      [CvConnect (nodeString (pr_Node policy)) (hd (pr_NodeAddresses policy)),
       CvCall (Address cfg @ ''/api/v1/invoice'')
         (encodeInvoiceRequest \<lparr>ir_TargetNode = myID, ir_ChannelSize = chanSize, ir_Key = Key cfg\<rparr>)]"
  using assms
proof (cases rule: prepare_Ok)
  case (1 s1 s2 s3 s4 s5)
  have "cevents s3 = cevents s2 @ (case c_PolicyFetched E of None \<Rightarrow> [] | _ \<Rightarrow> [CvPolicyFetched policy])"
    using 1(4) by (auto simp: policyCallback_def cemit_def split: option.splits dest: call_frame)
  with lprpcV1Call_Ok [OF 1(1) [unfolded fetchPolicy_def]] 1(2) [unfolded checkPolicy_Ok]
    checkWallet_Ok [OF 1(3)] connectPeer_Ok [OF 1(5)] requestInvoice_Ok [OF 1(6)] call_Ok [OF 1(7)]
    call_frame [OF 1(7)]
  show ?thesis by simp blast
qed

theorem client_checks_witness:
  "\<exists>bal w w'. c_ChannelBalance sampleClient w = (Inr bal, w') \<and> i64_le 65536 bal"
proof -
  obtain t where p: "prepare sampleClient sampleClientCfg 1048576 sampleClientState =
     (Ok (handlePolicy sampleNode lpCfg, ''payreq'', ''hash''), t)" using sample_prepare by blast
  have "EstimatedInvoiceAmount (c_u64_oor sampleClient) 1048576
      (pr_ChanInvoiceFeeRate (handlePolicy sampleNode lpCfg)) = 65536"
    using sample_estimate by (simp add: handlePolicy_def lpCfg_def sampleCfg_def sampleClient_def)
  with client_checks [OF p] show ?thesis by (simp only:) blast
qed

text \<open>
  C6. In every interleaving of the payment with the watcher, whatever the node and the provider
  answer, at most one payment is sent: the one of the checked invoice, with a fee limit of 20 atoms;
  without a checked invoice none is. The call returns success only when that payment was sent, dcrlnd
  answered it without a payment error, and an open event was read during the call.
\<close>

theorem client_pays_once:
  assumes "session E cfg chanSize s0 (ph, wp, s)"
  shows "(payments s = payments s0 \<or>
      (\<exists>policy payreq hash t. prepare E cfg chanSize s0 = (Ok (policy, payreq, hash), t) \<and>
         (payments s = payments s0 @ [CvSend payreq 20] \<or>
          (\<exists>perr. payments s = payments s0 @ [CvSend payreq 20, CvPayReply perr])))) \<and>
    (ph = PayDone (Ok ()) \<longrightarrow>
      (\<exists>policy payreq hash t. prepare E cfg chanSize s0 = (Ok (policy, payreq, hash), t) \<and>
         payments s = payments s0 @ [CvSend payreq 20, CvPayReply []]) \<and>
      opens s = opens s0 @ [CvOpenSeen])"
proof (cases "\<exists>plan t. prepare E cfg chanSize s0 = (Ok plan, t)")
  case True
  then obtain policy payreq hash t where p: "prepare E cfg chanSize s0 = (Ok (policy, payreq, hash), t)" by auto
  from session_invariant [OF assms p] have "paid_so_far payreq (payments s0) ph (payments s)"
    "open_seen (opens s0) ph wp (opens s)" by simp_all
  then show ?thesis using p by (cases ph) (auto simp: paid_so_far_def open_seen_def)
next
  case False
  with session_prepared [OF assms] obtain e where "prepare E cfg chanSize s0 = (Err e, s)" "ph = PayDone (Err e)" by auto
  then show ?thesis using marks_payments(1) [OF prepare_marks] by simp
qed

lemma sample_session:
  "\<exists>s. session sampleClient sampleClientCfg 1048576 sampleClientState (PayDone (Ok ()), WDone, s)"
proof -
  obtain t where p: "prepare sampleClient sampleClientCfg 1048576 sampleClientState =
     (Ok (handlePolicy sampleNode lpCfg, ''payreq'', ''hash''), t)" using sample_prepare by blast
  show ?thesis by (rule session_succeeds [OF p]) (simp_all add: sampleClient_def)
qed

theorem client_pays_once_witness:
  "\<exists>s. session sampleClient sampleClientCfg 1048576 sampleClientState (PayDone (Ok ()), WDone, s) \<and>
     (\<exists>payreq. payments s = [CvSend payreq 20, CvPayReply []]) \<and> opens s = [CvOpenSeen]"
proof -
  obtain s where s: "session sampleClient sampleClientCfg 1048576 sampleClientState (PayDone (Ok ()), WDone, s)"
    using sample_session by blast
  have "payments sampleClientState = []" "opens sampleClientState = []"
    by (simp_all add: payments_def opens_def sampleClientState_def)
  with client_pays_once [OF s] s show ?thesis by auto
qed

text \<open>
  C9. What a client concludes from the policy it was sent is what the server does: when the server's answer to a
  policy request decodes, the client's checks accept a size exactly when the provider has an address and \<open>CreateInvoice\<close> does
  not refuse the size as too small or too large; and every invoice that the server creates for the client's size asks dcrlnd for exactly
  the client's price.
\<close>

theorem price_agreed:
  assumes "servePolicy node scfg = Reply 200 (JsonBody tx)" and "decodePolicyResponse tx = Some policy"
    and "wf_nodeID node" and "\<forall>a \<in> set (LNNodeAddrs scfg). valid_utf8 a"
    and "\<forall>r. ChanInvoiceFeeRate scfg = Fin r \<longrightarrow> rnd r = Fin r"
    and "c_u64_oor E = e_u64_oor S"
  shows "(checkPolicy policy chanSize = Ok () \<longleftrightarrow>
      LNNodeAddrs scfg \<noteq> [] \<and> fst (CreateInvoice S scfg u chanSize s) \<notin> {Err ErrTooSmallChan, Err ErrTooLargeChan}) \<and>
    (\<forall>payreq t. CreateInvoice S scfg u chanSize s = (Ok payreq, t) \<longrightarrow>
      (\<exists>memo expiry evs. events t = events s @ EvAddInvoice memo
         (EstimatedInvoiceAmount (c_u64_oor E) chanSize (pr_ChanInvoiceFeeRate policy)) expiry # evs))"
proof (intro conjI allI impI)
  note p = policy_received [OF assms(1-5)]
  show "checkPolicy policy chanSize = Ok () \<longleftrightarrow>
      LNNodeAddrs scfg \<noteq> [] \<and> fst (CreateInvoice S scfg u chanSize s) \<notin> {Err ErrTooSmallChan, Err ErrTooLargeChan}"
    unfolding CreateInvoice_size_refused by (auto simp: checkPolicy_Ok p handlePolicy_def not_less)
  fix payreq t
  let ?w = "\<lparr>TargetNode = u, ChannelSize = chanSize\<rparr>"
  assume "CreateInvoice S scfg u chanSize s = (Ok payreq, t)"
  then obtain s1 where a: "admit S scfg ?w s = (Ok (), s1)" and i: "issueInvoice S scfg ?w s1 = (Ok payreq, t)"
    by (auto simp: CreateInvoice_Ok_iff)
  have "EstimatedInvoiceAmount (c_u64_oor E) chanSize (pr_ChanInvoiceFeeRate policy) = amountForNewChan S scfg chanSize"
    by (simp add: EstimatedInvoiceAmount_def amountForNewChan_def p handlePolicy_def assms(6))
  moreover from i have "\<exists>evs. events t = events s1 @ addInvoiceEv S scfg ?w # evs"
    by (cases rule: issueInvoice_cases) auto
  moreover have "events s1 = events s" using admit_frame [OF a] by simp
  ultimately show "\<exists>memo expiry evs. events t = events s @ EvAddInvoice memo
      (EstimatedInvoiceAmount (c_u64_oor E) chanSize (pr_ChanInvoiceFeeRate policy)) expiry # evs"
    by (auto simp: addInvoiceEv_def)
qed

theorem price_agreed_witness:
  "\<exists>memo expiry evs. events (snd (CreateInvoice sampleEnv lpCfg sampleNode 1048576 sampleState)) =
     EvAddInvoice memo 65536 expiry # evs"
proof -
  obtain tx where p: "servePolicy sampleNode lpCfg = Reply 200 (JsonBody tx)"
    "decodePolicyResponse tx = Some (handlePolicy sampleNode lpCfg)" using sample_policy by blast
  have r: "ChanInvoiceFeeRate lpCfg = Fin (1 / 16)" and a: "LNNodeAddrs lpCfg = [''lp'']"
    by (simp_all add: lpCfg_def sampleCfg_def)
  have fin: "\<forall>r. ChanInvoiceFeeRate lpCfg = Fin r \<longrightarrow> rnd r = Fin r" using r rnd_sixteenth by (metis f64.inject)
  have oor: "c_u64_oor sampleClient = e_u64_oor sampleEnv" by (simp add: sampleClient_def sampleEnv_def)
  have utf: "\<forall>x \<in> set (LNNodeAddrs lpCfg). valid_utf8 x" by (simp add: a valid_utf8_def Let_def)
  have est: "EstimatedInvoiceAmount (c_u64_oor sampleClient) 1048576
      (pr_ChanInvoiceFeeRate (handlePolicy sampleNode lpCfg)) = 65536"
    using sample_estimate r by (simp add: handlePolicy_def sampleClient_def)
  from price_agreed [OF p sample_simps(1) utf fin oor, of 1048576 sampleNode sampleState] sample_lp_invoice show ?thesis
    unfolding est by (auto simp: sampleState_def)
qed

section \<open>A watcher left behind\<close>

text \<open>
  When the main goroutine has returned, a watcher that still has to hand over its result never gets
  rid of it: there is no step from such a state, and it is reached whenever the payment fails first.
\<close>

lemma watcher_stuck: "\<not> cstep E plan (PayDone r, WOffer x, s) y"
  by (auto elim: cstepE)

end
