(* ===== verification/Go_Net.thy ===== *)
theory Go_Net
  imports Go_Json
begin

text \<open>
  What the program uses of Go's \<open>net\<close> and \<open>strings\<close>: \<open>JoinHostPort\<close>, \<open>SplitHostPort\<close>, \<open>ParseIP\<close> with
  \<open>IsLoopback\<close>, \<open>Split\<close> and \<open>TrimSpace\<close>. An address is its sixteen bytes, as in Go.
\<close>

section \<open>Strings\<close>

text \<open>\<open>strings.Split\<close> by a separator of one byte.\<close>

fun split_at :: "char \<Rightarrow> string \<Rightarrow> string list" where
  "split_at d [] = [[]]"
| "split_at d (c # cs) =
     (if c = d then [] # split_at d cs
      else (case split_at d cs of [] \<Rightarrow> [[c]] | p # ps \<Rightarrow> (c # p) # ps))"

lemma split_at_ne [simp]: "split_at d s \<noteq> []"
  by (induction s) (auto split: list.split)

lemma split_at_none: "d \<notin> set s \<Longrightarrow> split_at d s = [s]"
  by (induction s) auto

lemma split_at_append: "d \<notin> set a \<Longrightarrow> split_at d (a @ d # b) = a # split_at d b"
  by (induction a) (auto split: list.split)

text \<open>The encodings of the characters that \<open>unicode.IsSpace\<close> accepts.\<close>

definition spaces :: "string list" where
  "spaces = map utf8_encode ([9, 10, 11, 12, 13, 32, 133, 160, 5760] @ [8192..<8203] @ [8232, 8233, 8239, 8287, 12288])"

definition is_prefix_of :: "string \<Rightarrow> string \<Rightarrow> bool" where
  "is_prefix_of p s \<longleftrightarrow> p \<noteq> [] \<and> take (length p) s = p"

function trim_front :: "string list \<Rightarrow> string \<Rightarrow> string" where
  "trim_front ws s = (case List.find (\<lambda>w. is_prefix_of w s) ws of
      None \<Rightarrow> s
    | Some w \<Rightarrow> trim_front ws (drop (length w) s))"
  by pat_completeness auto
termination
proof (relation "measure (\<lambda>(_, s). length s)")
  fix ws s w assume "List.find (\<lambda>w. is_prefix_of w s) ws = Some w"
  then have "is_prefix_of w s" by (auto simp: find_Some_iff)
  then have "w \<noteq> []" "length w \<le> length s" by (auto simp: is_prefix_of_def) (metis length_take min.cobounded1)
  then show "((ws, drop (length w) s), ws, s) \<in> measure (\<lambda>(_, s). length s)" by (cases w) auto
qed simp

declare trim_front.simps [simp del]

definition trimSpace :: "string \<Rightarrow> string" where
  "trimSpace s = rev (trim_front (map rev spaces) (rev (trim_front spaces s)))"

lemma trim_front_stop: "\<forall>w \<in> set ws. w \<noteq> [] \<longrightarrow> hd w \<noteq> hd s \<Longrightarrow> s \<noteq> [] \<Longrightarrow> trim_front ws s = s"
proof -
  assume h: "\<forall>w \<in> set ws. w \<noteq> [] \<longrightarrow> hd w \<noteq> hd s" and s: "s \<noteq> []"
  have "\<not> is_prefix_of w s" if "w \<in> set ws" for w
    using h s that by (cases w; cases s) (auto simp: is_prefix_of_def)
  then have "List.find (\<lambda>w. is_prefix_of w s) ws = None" by (auto simp: find_None_iff)
  then show ?thesis by (simp add: trim_front.simps)
qed

lemma spaces_bytes: "\<forall>w \<in> set spaces. w \<noteq> [] \<and> \<not> is_digit (hd w) \<and> \<not> is_digit (last w)"
  by (simp add: spaces_def utf8_encode_def is_digit_def upt_conv_Cons)

lemma trimSpace_digits: "s \<noteq> [] \<Longrightarrow> is_digit (hd s) \<Longrightarrow> is_digit (last s) \<Longrightarrow> trimSpace s = s"
proof -
  assume s: "s \<noteq> []" "is_digit (hd s)" "is_digit (last s)"
  have "trim_front spaces s = s" using spaces_bytes s by (intro trim_front_stop) auto
  moreover have "trim_front (map rev spaces) (rev s) = rev s"
    using spaces_bytes s by (intro trim_front_stop) (auto simp: hd_rev)
  ultimately show ?thesis by (simp add: trimSpace_def)
qed

section \<open>Host and port\<close>

definition joinHostPort :: "string \<Rightarrow> string \<Rightarrow> string" where
  "joinHostPort host port =
     (if CHR '':'' \<in> set host then ''['' @ host @ '']:'' @ port else host @ '':'' @ port)"

text \<open>The parts before and after the first, and the last, occurrence of a byte.\<close>

definition cut :: "char \<Rightarrow> string \<Rightarrow> (string \<times> string) option" where
  "cut d s = (if d \<in> set s then Some (takeWhile (\<lambda>c. c \<noteq> d) s, tl (dropWhile (\<lambda>c. c \<noteq> d) s)) else None)"

definition cut_last :: "char \<Rightarrow> string \<Rightarrow> (string \<times> string) option" where
  "cut_last d s = map_option (\<lambda>(b, a). (rev a, rev b)) (cut d (rev s))"

text \<open>
  \<open>SplitHostPort\<close>; all of its errors are one. With a leading bracket the host is what the first
  closing bracket ends, and the last colon must follow it; brackets are allowed nowhere else.
\<close>

definition splitHostPort :: "string \<Rightarrow> (string \<times> string) option" where
  "splitHostPort s =
     (case cut_last (CHR '':'') s of
        None \<Rightarrow> None
      | Some (before, port) \<Rightarrow>
          if hd s = CHR ''['' then
            (case cut (CHR '']'') s of
               None \<Rightarrow> None
             | Some (inner, rest) \<Rightarrow>
                 if rest = CHR '':'' # port \<and> CHR ''['' \<notin> set (tl s) \<and> CHR '']'' \<notin> set rest
                 then Some (tl inner, port) else None)
          else if CHR '':'' \<in> set before \<or> CHR ''['' \<in> set s \<or> CHR '']'' \<in> set s then None
          else Some (before, port))"

section \<open>Addresses\<close>

text \<open>One octet: digits without a leading zero, at most 255.\<close>

definition octet :: "string \<Rightarrow> u8 option" where
  "octet s =
     (if s = [] \<or> (hd s = CHR ''0'' \<and> tl s \<noteq> []) then None
      else case parse_digits 255 0 s of Inl _ \<Rightarrow> None | Inr n \<Rightarrow> Some (of_nat n))"

definition parseIPv4 :: "string \<Rightarrow> u8 list option" where
  "parseIPv4 s =
     (case split_at (CHR ''.'') s of
        [a, b, c, d] \<Rightarrow>
          (case (octet a, octet b, octet c, octet d) of
             (Some w, Some x, Some y, Some z) \<Rightarrow> Some [w, x, y, z]
           | _ \<Rightarrow> None)
      | _ \<Rightarrow> None)"

definition v4prefix :: "u8 list" where
  "v4prefix = replicate 10 0 @ [255, 255]"

text \<open>The hexadecimal digits at the front and their value.\<close>

definition is_hex :: "char \<Rightarrow> bool" where
  "is_hex c \<longleftrightarrow> fromHexChar c \<noteq> None"

definition hex_val :: "string \<Rightarrow> nat" where
  "hex_val ds = foldl (\<lambda>n c. n * 16 + (case fromHexChar c of Some v \<Rightarrow> unat v | None \<Rightarrow> 0)) 0 ds"

text \<open>
  The loop of \<open>netip.parseIPv6\<close>: \<open>done\<close> are the bytes so far and \<open>ell\<close> the position of \<open>::\<close> in them. A
  group of more than four digits or followed by a wrong character is an error; the result is what
  the loop leaves, with the unread input.
\<close>

function ipv6_groups :: "u8 list \<Rightarrow> nat option \<Rightarrow> string \<Rightarrow> (u8 list \<times> nat option \<times> string) option" where
  "ipv6_groups bs ell s =
     (if 16 \<le> length bs then Some (bs, ell, s)
      else let ds = takeWhile is_hex s; rest = dropWhile is_hex s in
        if ds = [] \<or> 4 < length ds then None
        else if rest \<noteq> [] \<and> hd rest = CHR ''.'' then
          (if (ell = None \<and> length bs \<noteq> 12) \<or> 12 < length bs then None
           else (case parseIPv4 s of None \<Rightarrow> None | Some v \<Rightarrow> Some (bs @ v, ell, [])))
        else
          (let bs' = bs @ [of_nat (hex_val ds div 256), of_nat (hex_val ds mod 256)] in
           case rest of
             [] \<Rightarrow> Some (bs', ell, [])
           | c # cs \<Rightarrow>
               if c \<noteq> CHR '':'' \<or> cs = [] then None
               else if hd cs = CHR '':'' then
                 (if ell \<noteq> None then None
                  else if tl cs = [] then Some (bs', Some (length bs'), [])
                  else ipv6_groups bs' (Some (length bs')) (tl cs))
               else ipv6_groups bs' ell cs))"
  by pat_completeness auto
termination
  by (relation "measure (\<lambda>(bs, _, _). 16 - length bs)") auto

declare ipv6_groups.simps [simp del]

definition parseIPv6 :: "string \<Rightarrow> u8 list option" where
  "parseIPv6 s =
     (let lead = (take 2 s = ''::'');
          body = (if lead then drop 2 s else s)
      in if lead \<and> body = [] then Some (replicate 16 0)
         else case ipv6_groups [] (if lead then Some 0 else None) body of
             Some (bs, ell, []) \<Rightarrow>
               if length bs < 16 then
                 (case ell of
                    None \<Rightarrow> None
                  | Some k \<Rightarrow> Some (take k bs @ replicate (16 - length bs) 0 @ drop k bs))
               else if ell \<noteq> None then None else Some bs
           | _ \<Rightarrow> None)"

text \<open>
  \<open>net.ParseIP\<close>: the first dot, colon or percent sign decides the form; an address with a zone is
  none.
\<close>

definition parseIP :: "string \<Rightarrow> u8 list option" where
  "parseIP s =
     (case dropWhile (\<lambda>c. c \<notin> set ''.:%'') s of
        [] \<Rightarrow> None
      | c # _ \<Rightarrow>
          if c = CHR ''.'' then map_option (\<lambda>v. v4prefix @ v) (parseIPv4 s)
          else if c = CHR ''%'' \<or> CHR ''%'' \<in> set s then None
          else parseIPv6 s)"

text \<open>\<open>IP.IsLoopback\<close>: 127/8, also as a mapped address, and ::1.\<close>

definition isLoopbackIP :: "u8 list \<Rightarrow> bool" where
  "isLoopbackIP ip \<longleftrightarrow>
     (if take 12 ip = v4prefix then ip ! 12 = 127 else ip = replicate 15 0 @ [1])"

end
