(* ===== verification/Go_Regexp.thy ===== *)
theory Go_Regexp
  imports Go_Json
begin

text \<open>
  What the program uses of \<open>regexp\<close>: \<open>FindStringSubmatch\<close> with its rule that of all matches it reports the one
  a backtracking search would find first. An expression has its groups numbered by their opening brackets, as in Go.
\<close>

section \<open>Expressions\<close>

text \<open>\<open>RBegin\<close> and \<open>REnd\<close> are \<open>^\<close> and \<open>$\<close> without the multi-line flag. A class is a list of ranges.\<close>

datatype regex =
    RClass "(char \<times> char) list"
  | RBegin
  | REnd
  | RSeq regex regex
  | RAlt regex regex
  | ROpt regex
  | RStar regex
  | RGroup nat regex

definition in_class :: "(char \<times> char) list \<Rightarrow> char \<Rightarrow> bool" where
  "in_class k c \<longleftrightarrow> (\<exists>(a, b) \<in> set k. byte a \<le> byte c \<and> byte c \<le> byte b)"

definition rchar :: "char \<Rightarrow> regex" where
  "rchar c = RClass [(c, c)]"

text \<open>\<open>r+\<close>\<close>

definition rplus :: "regex \<Rightarrow> regex" where
  "rplus r = RSeq r (RStar r)"

primrec groups :: "regex \<Rightarrow> nat" where
  "groups (RClass k) = 0"
| "groups RBegin = 0"
| "groups REnd = 0"
| "groups (RSeq a b) = groups a + groups b"
| "groups (RAlt a b) = groups a + groups b"
| "groups (ROpt a) = groups a"
| "groups (RStar a) = groups a"
| "groups (RGroup i a) = Suc (groups a)"

section \<open>Backtracking\<close>

type_synonym caps = "nat \<rightharpoonup> string"

text \<open>
  All ways to match the front of \<open>s\<close>, in the order of the search: the rest of the text and the groups. \<open>n\<close> is the
  length of the whole text, by which the beginning is known. A repetition that consumes nothing is not repeated.
\<close>

function runs :: "nat \<Rightarrow> regex \<Rightarrow> string \<Rightarrow> caps \<Rightarrow> (string \<times> caps) list" where
  "runs n (RClass k) s g = (case s of [] \<Rightarrow> [] | c # cs \<Rightarrow> if in_class k c then [(cs, g)] else [])"
| "runs n RBegin s g = (if length s = n then [(s, g)] else [])"
| "runs n REnd s g = (if s = [] then [(s, g)] else [])"
| "runs n (RSeq a b) s g = concat (map (\<lambda>(s', g'). runs n b s' g') (runs n a s g))"
| "runs n (RAlt a b) s g = runs n a s g @ runs n b s g"
| "runs n (ROpt a) s g = runs n a s g @ [(s, g)]"
| "runs n (RStar a) s g =
     concat (map (\<lambda>(s', g'). if length s' < length s then runs n (RStar a) s' g' else []) (runs n a s g)) @ [(s, g)]"
| "runs n (RGroup i a) s g = map (\<lambda>(s', g'). (s', g'(i \<mapsto> take (length s - length s') s))) (runs n a s g)"
  by pat_completeness auto
termination
  by (relation "measures [\<lambda>(n, r, s, g). size r, \<lambda>(n, r, s, g). length s]") auto

text \<open>The search from one position after the other; the answer is the whole match and the groups, unset ones empty.\<close>

fun findFrom :: "nat \<Rightarrow> regex \<Rightarrow> string \<Rightarrow> (string \<times> caps) option" where
  "findFrom n r s = (case runs n r s Map.empty of
      (s', g) # _ \<Rightarrow> Some (take (length s - length s') s, g)
    | [] \<Rightarrow> (case s of [] \<Rightarrow> None | c # cs \<Rightarrow> findFrom n r cs))"

definition groupText :: "string option \<Rightarrow> string" where
  "groupText x = (case x of None \<Rightarrow> [] | Some s \<Rightarrow> s)"

definition FindStringSubmatch :: "regex \<Rightarrow> string \<Rightarrow> string list option" where
  "FindStringSubmatch r s =
     map_option (\<lambda>(m, g). m # map (\<lambda>i. groupText (g i)) [1..<Suc (groups r)]) (findFrom (length s) r s)"

declare findFrom.simps [simp del]
declare runs.simps(7) [simp del]

section \<open>The language of an expression\<close>

text \<open>For the parts without groups and anchors the search finds exactly the words of a language.\<close>

primrec plain_re :: "regex \<Rightarrow> bool" where
  "plain_re (RClass k) = True"
| "plain_re RBegin = False"
| "plain_re REnd = False"
| "plain_re (RSeq a b) = (plain_re a \<and> plain_re b)"
| "plain_re (RAlt a b) = (plain_re a \<and> plain_re b)"
| "plain_re (ROpt a) = plain_re a"
| "plain_re (RStar a) = plain_re a"
| "plain_re (RGroup i a) = False"

inductive repeated :: "(string \<Rightarrow> bool) \<Rightarrow> string \<Rightarrow> bool" for p where
  none: "repeated p []"
| more: "p u \<Longrightarrow> u \<noteq> [] \<Longrightarrow> repeated p v \<Longrightarrow> repeated p (u @ v)"

primrec lang :: "regex \<Rightarrow> string \<Rightarrow> bool" where
  "lang (RClass k) = (\<lambda>u. \<exists>c. u = [c] \<and> in_class k c)"
| "lang RBegin = (\<lambda>u. False)"
| "lang REnd = (\<lambda>u. False)"
| "lang (RSeq a b) = (\<lambda>u. \<exists>v w. u = v @ w \<and> lang a v \<and> lang b w)"
| "lang (RAlt a b) = (\<lambda>u. lang a u \<or> lang b u)"
| "lang (ROpt a) = (\<lambda>u. lang a u \<or> u = [])"
| "lang (RStar a) = repeated (lang a)"
| "lang (RGroup i a) = (\<lambda>u. False)"

lemma runs_star_in:
  "(s', g') \<in> set (runs n (RStar a) s g) \<longleftrightarrow> (s', g') = (s, g) \<or>
     (\<exists>s1 g1. (s1, g1) \<in> set (runs n a s g) \<and> length s1 < length s \<and> (s', g') \<in> set (runs n (RStar a) s1 g1))"
  unfolding runs.simps(7) [of n a s g] by (auto split: if_splits)

lemma runs_seq: "(s', g') \<in> set (runs n (RSeq a b) s g) \<longleftrightarrow>
    (\<exists>s1 g1. (s1, g1) \<in> set (runs n a s g) \<and> (s', g') \<in> set (runs n b s1 g1))"
  by auto

lemma runs_plain: "plain_re r \<Longrightarrow> (s', g') \<in> set (runs n r s g) \<longleftrightarrow> g' = g \<and> (\<exists>u. lang r u \<and> s = u @ s')"
proof (induction r arbitrary: s s' g g')
  case (RClass k)
  then show ?case by (cases s) auto
next
  case (RSeq a b)
  then have ab: "(t', h') \<in> set (runs n a t h) \<longleftrightarrow> h' = h \<and> (\<exists>u. lang a u \<and> t = u @ t')"
    "(t', h') \<in> set (runs n b t h) \<longleftrightarrow> h' = h \<and> (\<exists>u. lang b u \<and> t = u @ t')" for t t' h h' by simp_all
  have "(s', g') \<in> set (runs n (RSeq a b) s g) \<longleftrightarrow> g' = g \<and> (\<exists>u v. lang a u \<and> lang b v \<and> s = u @ v @ s')"
    unfolding runs_seq ab by blast
  also have "\<dots> \<longleftrightarrow> g' = g \<and> (\<exists>u. lang (RSeq a b) u \<and> s = u @ s')" by (auto simp flip: append_assoc)
  finally show ?case .
next
  case (RStar a)
  then have a: "(t', h') \<in> set (runs n a t h) \<longleftrightarrow> h' = h \<and> (\<exists>u. lang a u \<and> t = u @ t')" for t t' h h' by simp
  have "g' = g \<and> (\<exists>u. repeated (lang a) u \<and> s = u @ s')" if "(s', g') \<in> set (runs n (RStar a) s g)" for s
    using that
  proof (induction "length s" arbitrary: s rule: less_induct)
    case less
    from less.prems [unfolded runs_star_in [of s' g' n a s g] a] consider "s' = s" "g' = g"
      | s1 u where "lang a u" "s = u @ s1" "length s1 < length s" "(s', g') \<in> set (runs n (RStar a) s1 g)" by blast
    then show ?case
    proof cases
      case 1
      then show ?thesis by (auto intro: repeated.none)
    next
      case (2 s1 u)
      from less.hyps [OF 2(3,4)] obtain v where "g' = g" "repeated (lang a) v" "s1 = v @ s'" by blast
      moreover have "u \<noteq> []" using 2(2,3) by auto
      ultimately show ?thesis using 2(1,2) repeated.more [of "lang a" u v] by (metis append_assoc)
    qed
  qed
  moreover have "(s', g) \<in> set (runs n (RStar a) (u @ s') g)" if "repeated (lang a) u" for u
    using that
  proof (induction rule: repeated.induct)
    case (more u v)
    have "(v @ s', g) \<in> set (runs n a (u @ v @ s') g)" using a more.hyps(1) by blast
    moreover have "length (v @ s') < length (u @ v @ s')" using more.hyps(2) by simp
    ultimately show ?case using more.IH unfolding append_assoc by (subst runs_star_in) blast
  next
    case none
    then show ?case by (subst runs_star_in) simp
  qed
  ultimately show ?case by (simp only: lang.simps) blast
next
  case (RAlt a b)
  then have ab: "(t', h') \<in> set (runs n a t h) \<longleftrightarrow> h' = h \<and> (\<exists>u. lang a u \<and> t = u @ t')"
    "(t', h') \<in> set (runs n b t h) \<longleftrightarrow> h' = h \<and> (\<exists>u. lang b u \<and> t = u @ t')" for t t' h h' by simp_all
  show ?case unfolding runs.simps set_append Un_iff ab lang.simps by blast
next
  case (ROpt a)
  then have a: "(t', h') \<in> set (runs n a t h) \<longleftrightarrow> h' = h \<and> (\<exists>u. lang a u \<and> t = u @ t')" for t t' h h' by simp
  show ?case unfolding runs.simps set_append Un_iff a lang.simps by auto
qed simp_all

lemma runs_group: "plain_re r \<Longrightarrow>
    (s', g') \<in> set (runs n (RGroup i r) s g) \<longleftrightarrow> (\<exists>u. lang r u \<and> s = u @ s' \<and> g' = g(i \<mapsto> u))"
proof -
  have "(s', g') \<in> set (runs n (RGroup i r) s g) \<longleftrightarrow>
      (\<exists>g1. (s', g1) \<in> set (runs n r s g) \<and> g' = g1(i \<mapsto> take (length s - length s') s))" by force
  then show "plain_re r \<Longrightarrow> ?thesis" by (auto simp: runs_plain)
qed

text \<open>An expression that begins with \<open>^\<close> is only matched at the beginning.\<close>

lemma findFrom_later: "length s < n \<Longrightarrow> findFrom n (RSeq RBegin r) s = None"
  by (induction s) (simp_all add: findFrom.simps)

lemma findFrom_begin:
  "findFrom (length s) (RSeq RBegin r) s = (case runs (length s) r s Map.empty of
     [] \<Rightarrow> None | (s', g) # _ \<Rightarrow> Some (take (length s - length s') s, g))"
  by (subst findFrom.simps) (auto simp: findFrom_later split: list.split)

lemma lang_class_star: "lang (RStar (RClass k)) u \<longleftrightarrow> (\<forall>c \<in> set u. in_class k c)"
proof
  assume "lang (RStar (RClass k)) u"
  then have "repeated (lang (RClass k)) u" by simp
  then show "\<forall>c \<in> set u. in_class k c" by induction auto
next
  assume "\<forall>c \<in> set u. in_class k c"
  then have "repeated (lang (RClass k)) u"
  proof (induction u)
    case (Cons c u)
    then have "repeated (lang (RClass k)) ([c] @ u)" by (intro repeated.more) auto
    then show ?case by simp
  qed (rule repeated.none)
  then show "lang (RStar (RClass k)) u" by simp
qed

end
