(* ===== verification/Version.thy ===== *)
theory Version
  imports Go_Net Go_Float_Text Go_Regexp
begin

text \<open>
  \<open>internal/version\<close>: the daemon's version string. \<open>semverRE\<close> is the regular expression of the source, run by
  the search of \<open>Go_Regexp\<close>; \<open>init\<close> adds the commit id of the build. The strings that \<open>parseSemVer\<close>
  accepts are stated apart from the expression, as the rules of semantic versioning give them.
\<close>

section \<open>The expression\<close>

fun rseq :: "regex list \<Rightarrow> regex" where
  "rseq [] = ROpt (RClass [])"
| "rseq [r] = r"
| "rseq (r # r' # rs) = RSeq r (rseq (r' # rs))"

definition reDigit :: regex where
  "reDigit = RClass [(CHR ''0'', CHR ''9'')]"

definition reWord :: regex where
  "reWord = RClass [(CHR ''0'', CHR ''9''), (CHR ''a'', CHR ''z''), (CHR ''A'', CHR ''Z''), (CHR ''-'', CHR ''-'')]"

text \<open>\<open>0|[1-9]\d*\<close>\<close>

definition reNum :: regex where
  "reNum = RAlt (rchar (CHR ''0'')) (RSeq (RClass [(CHR ''1'', CHR ''9'')]) (RStar reDigit))"

text \<open>\<open>0|[1-9]\d*|\d*[a-zA-Z-][0-9a-zA-Z-]*\<close>\<close>

definition rePreIdent :: regex where
  "rePreIdent = RAlt reNum (RSeq (RStar reDigit) (RSeq
     (RClass [(CHR ''a'', CHR ''z''), (CHR ''A'', CHR ''Z''), (CHR ''-'', CHR ''-'')]) (RStar reWord)))"

text \<open>\<open>r(?:\.r)*\<close>\<close>

definition reDotted :: "regex \<Rightarrow> regex" where
  "reDotted r = RSeq r (RStar (RSeq (rchar (CHR ''.'')) r))"

definition semverRE :: regex where
  "semverRE = rseq
     [RBegin,
      RGroup 1 reNum, rchar (CHR ''.''), RGroup 2 reNum, rchar (CHR ''.''), RGroup 3 reNum,
      ROpt (RSeq (rchar (CHR ''-'')) (RGroup 4 (reDotted rePreIdent))),
      ROpt (RSeq (rchar (CHR ''+'')) (RGroup 5 (reDotted (rplus reWord)))),
      REnd]"

section \<open>parseSemVer, init and NormalizeString\<close>

definition semanticAlphabet :: string where
  "semanticAlphabet = ''0123456789ABCDEFGHIJKLMNOPQRSTUVWXYZabcdefghijklmnopqrstuvwxyz-.''"

definition parseUint32 :: "string \<Rightarrow> u32 res" where
  "parseUint32 s = (case parseUint 32 s of Inl _ \<Rightarrow> Err (ErrOther ''malformed semver'') | Inr n \<Rightarrow> Ok (of_nat n))"

definition checkSemString :: "string \<Rightarrow> string \<Rightarrow> unit res" where
  "checkSemString s alphabet =
     (if \<forall>c \<in> set s. c \<in> set alphabet then Ok () else Err (ErrOther ''malformed semver''))"

type_synonym semver = "u32 \<times> u32 \<times> u32 \<times> string \<times> string"

definition parseSemVer :: "string \<Rightarrow> semver res" where
  "parseSemVer s =
     (case FindStringSubmatch semverRE s of
        None \<Rightarrow> Err (ErrOther ''malformed version string'')
      | Some m \<Rightarrow>
          andThen (parseUint32 (m ! 1)) (\<lambda>major.
          andThen (parseUint32 (m ! 2)) (\<lambda>minor.
          andThen (parseUint32 (m ! 3)) (\<lambda>patch.
          let preRel = m ! 4 in
          andThen (checkSemString preRel semanticAlphabet) (\<lambda>_.
          let build = m ! 5 in
          andThen (checkSemString build semanticAlphabet) (\<lambda>_.
            Ok (major, minor, patch, preRel, build)))))))"

text \<open>\<open>vcsCommitID\<close>, from the settings of the build information when there is any.\<close>

definition vcsCommitID :: "(string \<times> string) list option \<Rightarrow> string" where
  "vcsCommitID bi =
     (case bi of
        None \<Rightarrow> []
      | Some settings \<Rightarrow>
          (let pick = (\<lambda>key. fold (\<lambda>(k, v) acc. if k = key then v else acc) settings []);
               vcs = pick ''vcs''; revision = pick ''vcs.revision''
           in if vcs = [] then []
              else if vcs = ''git'' \<and> 9 < length revision then take 9 revision else revision))"

text \<open>\<open>init\<close>: the version string afterwards and its components.\<close>

definition versionInit :: "(string \<times> string) list option \<Rightarrow> string \<Rightarrow> (string \<times> semver) res" where
  "versionInit bi Version =
     (case parseSemVer Version of
        Ok (major, minor, patch, pre, build) \<Rightarrow>
          if build \<noteq> [] then Ok (Version, major, minor, patch, pre, build)
          else (let build' = vcsCommitID bi in
            if build' = [] then Ok (Version, major, minor, patch, pre, build')
            else Ok (fmt_u32 major @ ''.'' @ fmt_u32 minor @ ''.'' @ fmt_u32 patch @
                       (if pre \<noteq> [] then CHR ''-'' # pre else []) @ CHR ''+'' # build',
                     major, minor, patch, pre, build'))
      | Err e \<Rightarrow> Panic ''malformed version''
      | Panic m \<Rightarrow> Panic m)"

definition defaultVersion :: string where
  "defaultVersion = ''0.0.1-pre''"

definition normalizeString :: "string \<Rightarrow> string" where
  "normalizeString str = filter (\<lambda>c. c \<in> set semanticAlphabet) str"

section \<open>The rules of semantic versioning\<close>

definition letter_or_hyphen :: "char \<Rightarrow> bool" where
  "letter_or_hyphen c \<longleftrightarrow> 65 \<le> byte c \<and> byte c \<le> 90 \<or> 97 \<le> byte c \<and> byte c \<le> 122 \<or> c = CHR ''-''"

definition word_char :: "char \<Rightarrow> bool" where
  "word_char c \<longleftrightarrow> is_digit c \<or> letter_or_hyphen c"

text \<open>Identifiers are not empty and of digits, letters and hyphens; one of the pre-release part that is a number
  has no leading zero.\<close>

definition build_ident :: "string \<Rightarrow> bool" where
  "build_ident s \<longleftrightarrow> s \<noteq> [] \<and> (\<forall>c \<in> set s. word_char c)"

definition pre_ident :: "string \<Rightarrow> bool" where
  "pre_ident s \<longleftrightarrow> build_ident s \<and> ((\<forall>c \<in> set s. is_digit c) \<and> hd s = CHR ''0'' \<longrightarrow> s = ''0'')"

definition dotted :: "(string \<Rightarrow> bool) \<Rightarrow> string \<Rightarrow> bool" where
  "dotted p s \<longleftrightarrow> (\<forall>q \<in> set (split_at (CHR ''.'') s). p q)"

text \<open>The parts of a version string; a part that is left out is \<open>None\<close>, and the empty string in Go.\<close>

fun opt_part :: "char \<Rightarrow> string option \<Rightarrow> string" where
  "opt_part c None = []"
| "opt_part c (Some x) = c # x"

definition semver_match :: "string \<Rightarrow> string \<times> string \<times> string \<times> string option \<times> string option \<Rightarrow> bool" where
  "semver_match s m \<longleftrightarrow> (case m of (ma, mi, pa, pre, build) \<Rightarrow>
     s = ma @ ''.'' @ mi @ ''.'' @ pa @ opt_part (CHR ''-'') pre @ opt_part (CHR ''+'') build \<and>
     int_part ma \<and> int_part mi \<and> int_part pa \<and>
     (\<forall>x. pre = Some x \<longrightarrow> dotted pre_ident x) \<and> (\<forall>x. build = Some x \<longrightarrow> dotted build_ident x))"

definition split_opt :: "char \<Rightarrow> string \<Rightarrow> string \<times> string option" where
  "split_opt d s = (case cut d s of None \<Rightarrow> (s, None) | Some (a, b) \<Rightarrow> (a, Some b))"

section \<open>A string has at most one reading\<close>

lemma cut_append: "d \<notin> set a \<Longrightarrow> cut d (a @ d # b) = Some (a, b)"
  by (auto simp: cut_def takeWhile_append dropWhile_append)

lemma cut_Some: "cut d s = Some (a, b) \<longleftrightarrow> s = a @ d # b \<and> d \<notin> set a"
proof
  assume c: "cut d s = Some (a, b)"
  then have d: "d \<in> set s" and ab: "a = takeWhile (\<lambda>c. c \<noteq> d) s" "b = tl (dropWhile (\<lambda>c. c \<noteq> d) s)"
    by (auto simp: cut_def split: if_splits)
  have "dropWhile (\<lambda>c. c \<noteq> d) s \<noteq> []" using d by (auto simp: dropWhile_eq_Nil_conv)
  then have "dropWhile (\<lambda>c. c \<noteq> d) s = d # b"
    using hd_dropWhile [of "\<lambda>c. c \<noteq> d" s] ab(2) by (cases "dropWhile (\<lambda>c. c \<noteq> d) s") auto
  then show "s = a @ d # b \<and> d \<notin> set a"
    using takeWhile_dropWhile_id [of "\<lambda>c. c \<noteq> d" s] ab(1) by (auto dest: set_takeWhileD)
qed (use cut_append in auto)

lemma split_opt_iff:
  "split_opt d s = (a, x) \<longleftrightarrow> s = a @ opt_part d x \<and> d \<notin> set a"
proof (cases "cut d s")
  case None
  then have "d \<notin> set s" by (simp add: cut_def split: if_splits)
  with None show ?thesis by (cases x) (auto simp: split_opt_def)
next
  case (Some ab)
  obtain a' b' where ab: "ab = (a', b')" by force
  show ?thesis
  proof (cases x)
    case None
    have "split_opt d s = (a', Some b')" using Some ab by (simp add: split_opt_def)
    moreover have "d \<in> set s" using Some ab by (auto simp: cut_Some)
    ultimately show ?thesis using None by auto
  next
    fix y assume x: "x = Some y"
    have "split_opt d s = (a, x) \<longleftrightarrow> cut d s = Some (a, y)"
      using Some ab x by (auto simp: split_opt_def)
    also have "\<dots> \<longleftrightarrow> s = a @ opt_part d x \<and> d \<notin> set a"
      using x by (simp add: cut_Some)
    finally show ?thesis .
  qed
qed

lemma split_at_Cons:
  "split_at d (c # s) = (if c = d then [] # split_at d s else (c # hd (split_at d s)) # tl (split_at d s))"
  by (cases "split_at d s") auto

lemma split_at_Cons_iff:
  "split_at d s = p # q # ps \<longleftrightarrow> (\<exists>b. s = p @ d # b \<and> d \<notin> set p \<and> split_at d b = q # ps)"
proof (induction s arbitrary: p)
  case (Cons c s)
  obtain h t where ht: "split_at d s = h # t" by (cases "split_at d s") simp_all
  show ?case
  proof (cases "c = d")
    case True
    then show ?thesis by (cases p) (auto simp: split_at_Cons)
  next
    case False
    then show ?thesis
      using Cons.IH [of "tl p"] ht by (cases p) (auto simp: split_at_Cons simp del: split_at.simps)
  qed
qed simp

lemma split_at_single: "split_at d s = [p] \<longleftrightarrow> s = p \<and> d \<notin> set p"
proof (induction s arbitrary: p)
  case (Cons c s)
  obtain h t where ht: "split_at d s = h # t" by (cases "split_at d s") simp_all
  show ?case
  proof (cases "c = d")
    case True
    then show ?thesis using ht by (auto simp: split_at_Cons simp del: split_at.simps)
  next
    case False
    then show ?thesis
      using Cons.IH [of "tl p"] ht by (cases p) (auto simp: split_at_Cons simp del: split_at.simps)
  qed
qed auto

lemma split_three:
  "split_at (CHR ''.'') s = [x, y, z] \<longleftrightarrow> s = x @ ''.'' @ y @ ''.'' @ z \<and>
     CHR ''.'' \<notin> set x \<and> CHR ''.'' \<notin> set y \<and> CHR ''.'' \<notin> set z"
  by (auto simp: split_at_Cons_iff split_at_single)

lemma word_char_not: "word_char c \<Longrightarrow> c \<noteq> CHR ''.'' \<and> c \<noteq> CHR ''+''"
  by (auto simp: word_char_def letter_or_hyphen_def is_digit_def)

lemma int_part_chars: "int_part s \<Longrightarrow> c \<in> set s \<Longrightarrow> is_digit c"
  by (simp add: int_part_def digits_def)

lemma digit_not: "is_digit c \<Longrightarrow> c \<noteq> CHR ''.'' \<and> c \<noteq> CHR ''+'' \<and> c \<noteq> CHR ''-'' \<and> word_char c"
  by (auto simp: word_char_def is_digit_def)

lemma ident_chars: "build_ident s \<Longrightarrow> c \<in> set s \<Longrightarrow> word_char c" "pre_ident s \<Longrightarrow> c \<in> set s \<Longrightarrow> word_char c"
  by (auto simp: build_ident_def pre_ident_def)

lemma dotted_chars:
  assumes "dotted p s" and "\<And>q c. p q \<Longrightarrow> c \<in> set q \<Longrightarrow> word_char c" and "c \<in> set s"
  shows "word_char c \<or> c = CHR ''.''"
proof -
  have "\<forall>q \<in> set (split_at (CHR ''.'') s). p q \<Longrightarrow> \<forall>c \<in> set s. word_char c \<or> c = CHR ''.''"
    if "split_at (CHR ''.'') s = qs" for qs s
    using that
  proof (induction qs arbitrary: s rule: induct_list012)
    case (2 q)
    then show ?case using assms(2) by (auto simp: split_at_single)
  next
    case (3 q q' qs)
    then obtain b where b: "s = q @ CHR ''.'' # b" "split_at (CHR ''.'') b = q' # qs"
      by (auto simp: split_at_Cons_iff)
    with "3.IH"(2) [OF _ b(2)] "3.prems" assms(2) show ?case by auto
  qed simp
  with assms show ?thesis unfolding dotted_def by blast
qed

lemma dotted_not_plus: "dotted pre_ident s \<Longrightarrow> CHR ''+'' \<notin> set s"
  using dotted_chars [of pre_ident s "CHR ''+''"] ident_chars(2) word_char_not [of "CHR ''+''"] by auto

lemma int_part_not: "int_part s \<Longrightarrow> CHR ''.'' \<notin> set s \<and> CHR ''+'' \<notin> set s \<and> CHR ''-'' \<notin> set s"
  using int_part_chars digit_not by blast

lemma semver_match_cuts:
  assumes "semver_match s (ma, mi, pa, pre, build)"
  defines "core \<equiv> ma @ ''.'' @ mi @ ''.'' @ pa"
  shows "split_opt (CHR ''+'') s = (core @ opt_part (CHR ''-'') pre, build)"
    and "split_opt (CHR ''-'') (core @ opt_part (CHR ''-'') pre) = (core, pre)"
    and "split_at (CHR ''.'') core = [ma, mi, pa]"
  using assms int_part_not dotted_not_plus unfolding split_three split_opt_iff
  by (cases pre; auto simp: semver_match_def)+

lemma semver_match_unique: "semver_match s m \<Longrightarrow> semver_match s m' \<Longrightarrow> m' = m"
proof -
  assume m: "semver_match s m" and m': "semver_match s m'"
  obtain ma mi pa pre build where e: "m = (ma, mi, pa, pre, build)" by (cases m) auto
  obtain ma' mi' pa' pre' build' where e': "m' = (ma', mi', pa', pre', build')" by (cases m') auto
  note c = semver_match_cuts [OF m [unfolded e]] and c' = semver_match_cuts [OF m' [unfolded e']]
  from c(1) c'(1) have "ma @ ''.'' @ mi @ ''.'' @ pa = ma' @ ''.'' @ mi' @ ''.'' @ pa'" "build = build'"
    using c(2) c'(2) by (metis prod.inject)+
  moreover from this have "pre = pre'" using c(1,2) c'(1,2) by (metis prod.inject)
  ultimately show ?thesis using c(3) c'(3) unfolding e e' by simp
qed

section \<open>The expression matches the rules\<close>

lemma byte_inj [simp]: "byte c = byte d \<longleftrightarrow> c = d"
  by simp

lemma in_class_simps: "in_class [] c \<longleftrightarrow> False"
  "in_class ((a, b) # k) c \<longleftrightarrow> byte a \<le> byte c \<and> byte c \<le> byte b \<or> in_class k c"
  by (auto simp: in_class_def)

lemma class_char: "in_class [(c, c)] x \<longleftrightarrow> x = c"
  unfolding in_class_simps using byte_inj [of x c] by (auto simp del: byte_inj)

lemma class_digit: "in_class [(CHR ''0'', CHR ''9'')] c \<longleftrightarrow> is_digit c"
  by (auto simp: in_class_simps is_digit_def)

lemma class_letter: "in_class [(CHR ''a'', CHR ''z''), (CHR ''A'', CHR ''Z''), (CHR ''-'', CHR ''-'')] c \<longleftrightarrow> letter_or_hyphen c"
  using class_char [of "CHR ''-''" c] by (auto simp: in_class_simps letter_or_hyphen_def)

lemma class_word:
  "in_class [(CHR ''0'', CHR ''9''), (CHR ''a'', CHR ''z''), (CHR ''A'', CHR ''Z''), (CHR ''-'', CHR ''-'')] c \<longleftrightarrow> word_char c"
  using class_letter [of c] class_digit [of c] by (auto simp: in_class_simps word_char_def)

lemma lang_digits: "lang (RStar reDigit) u \<longleftrightarrow> digits u"
  unfolding reDigit_def lang_class_star class_digit digits_def ..

lemma lang_words: "lang (RStar reWord) u \<longleftrightarrow> (\<forall>c \<in> set u. word_char c)"
  unfolding reWord_def lang_class_star class_word ..

lemma lang_class_seq: "lang (RSeq (RClass k) r) u \<longleftrightarrow> (\<exists>c w. u = c # w \<and> in_class k c \<and> lang r w)"
proof
  assume "\<exists>c w. u = c # w \<and> in_class k c \<and> lang r w"
  then obtain c w where "u = [c] @ w" "in_class k c" "lang r w" by auto
  then show "lang (RSeq (RClass k) r) u" unfolding lang.simps by blast
qed auto

lemma lang_num: "lang reNum u \<longleftrightarrow> int_part u"
proof -
  have nz: "in_class [(CHR ''1'', CHR ''9'')] c \<longleftrightarrow> is_digit c \<and> c \<noteq> CHR ''0''" for c
    using byte_inj [of c "CHR ''0''"] by (auto simp: in_class_simps is_digit_def simp del: byte_inj)
  have "lang reNum u \<longleftrightarrow> u = ''0'' \<or> (\<exists>c v. u = c # v \<and> is_digit c \<and> c \<noteq> CHR ''0'' \<and> digits v)"
    unfolding reNum_def lang.simps(5) lang_class_seq lang_digits nz by (simp add: rchar_def class_char)
  also have "\<dots> \<longleftrightarrow> int_part u" by (cases u) (auto simp: int_part_def is_digit_def)
  finally show ?thesis .
qed

lemma lang_pre_ident: "lang rePreIdent u \<longleftrightarrow> pre_ident u"
proof -
  have "lang rePreIdent u \<longleftrightarrow> int_part u \<or>
      (\<exists>a c b. u = a @ c # b \<and> digits a \<and> letter_or_hyphen c \<and> (\<forall>x \<in> set b. word_char x))"
    unfolding rePreIdent_def lang.simps(5) lang_num lang.simps(4) [of "RStar reDigit"] lang_class_seq
      lang_digits lang_words class_letter by blast
  also have "\<dots> \<longleftrightarrow> pre_ident u" (is "?l \<longleftrightarrow> _")
  proof
    assume ?l
    then show "pre_ident u"
    proof (elim disjE exE conjE)
      assume "int_part u"
      then show ?thesis
        using digit_not by (cases u) (auto simp: pre_ident_def build_ident_def int_part_def digits_def)
    next
      fix a c b
      assume u: "u = a @ c # b" "digits a" "letter_or_hyphen c" "\<forall>x \<in> set b. word_char x"
      then have "\<not> is_digit c" by (auto simp: letter_or_hyphen_def is_digit_def)
      with u show ?thesis by (auto simp: pre_ident_def build_ident_def word_char_def digits_def)
    qed
  next
    assume p: "pre_ident u"
    show ?l
    proof (cases "\<exists>c \<in> set u. letter_or_hyphen c")
      case True
      then obtain a x b where s: "u = a @ x # b" "letter_or_hyphen x" "\<forall>y \<in> set a. \<not> letter_or_hyphen y"
        using split_list_first_prop [of u letter_or_hyphen] by blast
      moreover have "digits a" "\<forall>y \<in> set b. word_char y"
        using s p by (auto simp: digits_def pre_ident_def build_ident_def word_char_def)
      ultimately show ?thesis by blast
    next
      case False
      with p show ?thesis by (auto simp: pre_ident_def build_ident_def word_char_def int_part_def digits_def)
    qed
  qed
  finally show ?thesis .
qed

lemma lang_build_ident: "lang (rplus reWord) u \<longleftrightarrow> build_ident u"
proof -
  have "lang (rplus reWord) u \<longleftrightarrow> (\<exists>c v. u = c # v \<and> word_char c \<and> (\<forall>x \<in> set v. word_char x))"
    unfolding rplus_def by (subst reWord_def) (simp only: lang_class_seq class_word lang_words)
  also have "\<dots> \<longleftrightarrow> build_ident u" by (cases u) (auto simp: build_ident_def)
  finally show ?thesis .
qed

lemma lang_dotted:
  assumes "\<And>q. lang r q \<Longrightarrow> CHR ''.'' \<notin> set q"
  shows "lang (reDotted r) u \<longleftrightarrow> dotted (lang r) u"
proof -
  let ?rep = "repeated (\<lambda>u. \<exists>q. u = CHR ''.'' # q \<and> lang r q)"
  have "lang (RSeq (rchar (CHR ''.'')) r) = (\<lambda>u. \<exists>q. u = CHR ''.'' # q \<and> lang r q)"
    by (auto simp: rchar_def class_char)
  then have l: "lang (reDotted r) u \<longleftrightarrow> (\<exists>a v. u = a @ v \<and> lang r a \<and> ?rep v)" for u
    unfolding reDotted_def lang.simps(4) [of r] lang.simps(7) by simp
  have "dotted (lang r) (a @ v)" if "?rep v" "lang r a" for a v
    using that
  proof (induction arbitrary: a rule: repeated.induct)
    case none
    then show ?case using assms by (simp add: dotted_def split_at_none)
  next
    case (more w v)
    then obtain q where "w = CHR ''.'' # q" "lang r q" by blast
    with more.IH [of q] more.prems assms [of a] show ?case by (simp add: dotted_def split_at_append)
  qed
  moreover have "\<forall>q \<in> set (split_at (CHR ''.'') s). lang r q \<Longrightarrow> lang (reDotted r) s"
    if "split_at (CHR ''.'') s = qs" for qs s
    using that
  proof (induction qs arbitrary: s rule: induct_list012)
    case (2 q)
    then show ?case unfolding l by (auto simp: split_at_single intro: repeated.none)
  next
    case (3 q q' qs)
    then obtain b where b: "s = q @ CHR ''.'' # b" "split_at (CHR ''.'') b = q' # qs"
      by (auto simp: split_at_Cons_iff)
    with "3.IH"(2) [OF _ b(2)] "3.prems" obtain a v where av: "b = a @ v" "lang r a" "?rep v"
      unfolding l by auto
    have "?rep ((CHR ''.'' # a) @ v)" using av by (intro repeated.more) auto
    moreover have "lang r q" "s = q @ (CHR ''.'' # a) @ v" using b(1) "3.prems" av(1) by simp_all
    ultimately show ?case unfolding l by blast
  qed simp
  ultimately show ?thesis unfolding l dotted_def by blast
qed

lemma lang_pre: "lang (reDotted rePreIdent) u \<longleftrightarrow> dotted pre_ident u"
proof -
  have "lang rePreIdent = pre_ident" using lang_pre_ident by blast
  then show ?thesis using lang_dotted [of rePreIdent u] ident_chars(2) word_char_not by auto
qed

lemma lang_build: "lang (reDotted (rplus reWord)) u \<longleftrightarrow> dotted build_ident u"
proof -
  have "lang (rplus reWord) = build_ident" using lang_build_ident by blast
  then show ?thesis using lang_dotted [of "rplus reWord" u] ident_chars(1) word_char_not by auto
qed

section \<open>What the search finds\<close>

lemma plain_parts: "plain_re reNum" "plain_re (reDotted rePreIdent)" "plain_re (reDotted (rplus reWord))"
  by (simp_all add: reNum_def rchar_def reDigit_def reDotted_def rePreIdent_def rplus_def reWord_def)

lemma runs_rchar: "(s', g') \<in> set (runs n (rchar c) s g) \<longleftrightarrow> s = c # s' \<and> g' = g"
  by (auto simp: rchar_def class_char split: list.splits)

definition group_if :: "nat \<Rightarrow> string option \<Rightarrow> caps \<Rightarrow> caps" where
  "group_if i x g = (case x of None \<Rightarrow> g | Some y \<Rightarrow> g(i \<mapsto> y))"

lemma runs_opt_group: "plain_re r \<Longrightarrow>
    (s', g') \<in> set (runs n (ROpt (RSeq (rchar c) (RGroup i r))) s g) \<longleftrightarrow>
      (\<exists>x. s = opt_part c x @ s' \<and> g' = group_if i x g \<and> (\<forall>y. x = Some y \<longrightarrow> lang r y))"
proof -
  assume r: "plain_re r"
  have "(s', g') \<in> set (runs n (ROpt (RSeq (rchar c) (RGroup i r))) s g) \<longleftrightarrow>
      (\<exists>y. s = c # y @ s' \<and> lang r y \<and> g' = g(i \<mapsto> y)) \<or> s = s' \<and> g' = g"
    unfolding runs.simps(6) set_append Un_iff runs_seq runs_rchar runs_group [OF r] by auto
  also have "\<dots> \<longleftrightarrow> (\<exists>x. s = opt_part c x @ s' \<and> g' = group_if i x g \<and> (\<forall>y. x = Some y \<longrightarrow> lang r y))"
    (is "?l \<longleftrightarrow> (\<exists>x. ?p x)")
  proof
    assume ?l
    then have "(\<exists>y. ?p (Some y)) \<or> ?p None" by (auto simp: group_if_def)
    then show "\<exists>x. ?p x" by blast
  next
    assume "\<exists>x. ?p x"
    then obtain x where "?p x" by blast
    then show ?l by (cases x) (auto simp: group_if_def)
  qed
  finally show ?thesis .
qed

text \<open>The whole expression: the five groups and nothing left over.\<close>

definition found :: "string \<times> string \<times> string \<times> string option \<times> string option \<Rightarrow> caps" where
  "found m = (case m of (ma, mi, pa, pre, build) \<Rightarrow>
     group_if 5 build (group_if 4 pre (Map.empty(1 \<mapsto> ma, 2 \<mapsto> mi, 3 \<mapsto> pa))))"

definition semverBody :: regex where
  "semverBody = rseq
     [RGroup 1 reNum, rchar (CHR ''.''), RGroup 2 reNum, rchar (CHR ''.''), RGroup 3 reNum,
      ROpt (RSeq (rchar (CHR ''-'')) (RGroup 4 (reDotted rePreIdent))),
      ROpt (RSeq (rchar (CHR ''+'')) (RGroup 5 (reDotted (rplus reWord)))),
      REnd]"

lemma runs_seqs:
  "(s', g') \<in> set (runs n (RSeq (rchar c) k) s g) \<longleftrightarrow> (\<exists>t. s = c # t \<and> (s', g') \<in> set (runs n k t g))"
  "plain_re r \<Longrightarrow> (s', g') \<in> set (runs n (RSeq (RGroup i r) k) s g) \<longleftrightarrow>
     (\<exists>u t. s = u @ t \<and> lang r u \<and> (s', g') \<in> set (runs n k t (g(i \<mapsto> u))))"
  "plain_re r \<Longrightarrow> (s', g') \<in> set (runs n (RSeq (ROpt (RSeq (rchar c) (RGroup i r))) k) s g) \<longleftrightarrow>
     (\<exists>x t. s = opt_part c x @ t \<and> (\<forall>y. x = Some y \<longrightarrow> lang r y) \<and> (s', g') \<in> set (runs n k t (group_if i x g)))"
proof -
  show "(s', g') \<in> set (runs n (RSeq (rchar c) k) s g) \<longleftrightarrow> (\<exists>t. s = c # t \<and> (s', g') \<in> set (runs n k t g))"
    unfolding runs_seq runs_rchar by blast
  show "(s', g') \<in> set (runs n (RSeq (RGroup i r) k) s g) \<longleftrightarrow>
      (\<exists>u t. s = u @ t \<and> lang r u \<and> (s', g') \<in> set (runs n k t (g(i \<mapsto> u))))" if "plain_re r"
    unfolding runs_seq runs_group [OF that] by blast
  show "(s', g') \<in> set (runs n (RSeq (ROpt (RSeq (rchar c) (RGroup i r))) k) s g) \<longleftrightarrow>
      (\<exists>x t. s = opt_part c x @ t \<and> (\<forall>y. x = Some y \<longrightarrow> lang r y) \<and> (s', g') \<in> set (runs n k t (group_if i x g)))"
    if "plain_re r"
    unfolding runs_seq [of _ _ _ "ROpt _"] runs_opt_group [OF that] by blast
qed

lemma runs_body: "(s', g) \<in> set (runs n semverBody s Map.empty) \<longleftrightarrow> s' = [] \<and> (\<exists>m. semver_match s m \<and> g = found m)"
proof -
  have e: "(s', g') \<in> set (runs n REnd s g) \<longleftrightarrow> s = [] \<and> s' = [] \<and> g' = g" for s s' and g g' :: caps by auto
  have "(s', g) \<in> set (runs n semverBody s Map.empty) \<longleftrightarrow>
      s' = [] \<and> (\<exists>ma mi pa pre build. semver_match s (ma, mi, pa, pre, build) \<and> g = found (ma, mi, pa, pre, build))"
    unfolding semverBody_def rseq.simps runs_seqs(1) e
      runs_seqs(2) [OF plain_parts(1)] runs_seqs(3) [OF plain_parts(2)] runs_seqs(3) [OF plain_parts(3)]
      lang_num lang_pre lang_build semver_match_def found_def prod.case
    by (simp, (intro iffI; elim exE conjE; intro exI conjI; (assumption | rule refl | simp)))
  then show ?thesis by auto
qed

lemma submatch:
  "FindStringSubmatch semverRE s = Some xs \<longleftrightarrow>
     (\<exists>ma mi pa pre build. semver_match s (ma, mi, pa, pre, build) \<and> xs = [s, ma, mi, pa, groupText pre, groupText build])"
proof -
  have re: "semverRE = RSeq RBegin semverBody" by (simp add: semverRE_def semverBody_def)
  have "groups semverRE = 5"
    by (simp add: semverRE_def reNum_def rchar_def reDigit_def reDotted_def rePreIdent_def rplus_def reWord_def)
  then have idx: "[1..<Suc (groups semverRE)] = [1, 2, 3, 4, 5]" by (simp add: upt_conv_Cons)
  have txt_of: "map (\<lambda>i. groupText (found (ma, mi, pa, pre, build) i)) [1, 2, 3, 4, 5] =
      [ma, mi, pa, groupText pre, groupText build]" for ma mi pa pre build
    by (simp add: found_def group_if_def groupText_def split: option.splits)
  show ?thesis
  proof (cases "runs (length s) semverBody s Map.empty")
    case Nil
    then have "\<not> semver_match s m" for m using runs_body [of "[]" "found m" "length s" s] by (metis empty_iff empty_set)
    with Nil show ?thesis by (simp add: FindStringSubmatch_def re findFrom_begin)
  next
    case (Cons h t)
    obtain s' g where h: "h = (s', g)" by force
    from Cons h have "(s', g) \<in> set (runs (length s) semverBody s Map.empty)" by simp
    then obtain ma mi pa pre build where m: "s' = []" "semver_match s (ma, mi, pa, pre, build)"
      "g = found (ma, mi, pa, pre, build)" unfolding runs_body by (metis prod_cases5)
    have "FindStringSubmatch semverRE s = Some (s # map (\<lambda>i. groupText (g i)) [1, 2, 3, 4, 5])"
      using Cons h m(1) unfolding FindStringSubmatch_def idx by (simp add: re findFrom_begin)
    then have "FindStringSubmatch semverRE s = Some [s, ma, mi, pa, groupText pre, groupText build]"
      unfolding m(3) txt_of .
    then show ?thesis using m(2) semver_match_unique [OF m(2)] by (metis option.inject prod.inject)
  qed
qed

lemma char_of_byte: "c \<in> set s \<longleftrightarrow> byte c \<in> set (map byte s)"
  by (auto simp: image_iff)

lemma word_char_alphabet: "word_char c \<or> c = CHR ''.'' \<Longrightarrow> c \<in> set semanticAlphabet"
proof -
  assume "word_char c \<or> c = CHR ''.''"
  then have mem: "byte c \<in> set [45..<47] \<or> byte c \<in> set [48..<58] \<or> byte c \<in> set [65..<91] \<or> byte c \<in> set [97..<123]"
    unfolding set_upt by (auto simp: word_char_def letter_or_hyphen_def is_digit_def)
  have "\<forall>n \<in> set ([45..<47] @ [48..<58] @ [65..<91] @ [97..<123]). n \<in> set (map byte semanticAlphabet)"
    by (simp add: semanticAlphabet_def upt_conv_Cons)
  with mem have "byte c \<in> set (map byte semanticAlphabet)" unfolding set_append by blast
  then show ?thesis using char_of_byte by blast
qed

lemma checkSemString_ok:
  assumes "dotted p s" and "\<And>q c. p q \<Longrightarrow> c \<in> set q \<Longrightarrow> word_char c"
  shows "checkSemString s semanticAlphabet = Ok ()"
  using dotted_chars [OF assms] word_char_alphabet by (simp add: checkSemString_def)

lemma parseSemVer_Ok:
  "parseSemVer s = Ok (ma, mi, pa, pre, build) \<longleftrightarrow>
     (\<exists>m1 m2 m3 m4 m5. semver_match s (m1, m2, m3, m4, m5) \<and>
        parseUint32 m1 = Ok ma \<and> parseUint32 m2 = Ok mi \<and> parseUint32 m3 = Ok pa \<and>
        groupText m4 = pre \<and> groupText m5 = build)"
proof (cases "FindStringSubmatch semverRE s")
  case None
  then have "\<not> semver_match s (m1, m2, m3, m4, m5)" for m1 m2 m3 m4 m5
    using submatch [of s "[s, m1, m2, m3, groupText m4, groupText m5]"] by auto
  then show ?thesis using None by (simp add: parseSemVer_def)
next
  case (Some xs)
  then obtain m1 m2 m3 m4 m5 where m: "semver_match s (m1, m2, m3, m4, m5)"
    and xs: "xs = [s, m1, m2, m3, groupText m4, groupText m5]" unfolding submatch by auto
  have "checkSemString (groupText m4) semanticAlphabet = Ok ()"
    using m checkSemString_ok [of pre_ident] ident_chars(2)
    by (cases m4) (auto simp: semver_match_def groupText_def checkSemString_def [of "[]"])
  moreover have "checkSemString (groupText m5) semanticAlphabet = Ok ()"
    using m checkSemString_ok [of build_ident] ident_chars(1)
    by (cases m5) (auto simp: semver_match_def groupText_def checkSemString_def [of "[]"])
  ultimately have "parseSemVer s = Ok (ma, mi, pa, pre, build) \<longleftrightarrow>
      parseUint32 m1 = Ok ma \<and> parseUint32 m2 = Ok mi \<and> parseUint32 m3 = Ok pa \<and>
      groupText m4 = pre \<and> groupText m5 = build"
    using Some by (auto simp: parseSemVer_def xs andThen_Ok)
  also have "\<dots> \<longleftrightarrow> (\<exists>n1 n2 n3 n4 n5. semver_match s (n1, n2, n3, n4, n5) \<and>
      parseUint32 n1 = Ok ma \<and> parseUint32 n2 = Ok mi \<and> parseUint32 n3 = Ok pa \<and>
      groupText n4 = pre \<and> groupText n5 = build)" (is "?l \<longleftrightarrow> ?r")
  proof
    assume ?l
    with m show ?r by blast
  next
    assume ?r
    then show ?l by (auto dest: semver_match_unique [OF m])
  qed
  finally show ?thesis .
qed

lemma digit_chars: "digit_char 0 = CHR ''0''" "digit_char 1 = CHR ''1''" "digit_char 2 = CHR ''2''"
  "digit_char 3 = CHR ''3''" "digit_char (Suc 0) = CHR ''1''"
  by (simp_all add: digit_char_def char_of_eq_iff)

lemma int_part_fmt: "int_part s \<Longrightarrow> fmt_nat (digs s) = s"
proof -
  have "digits s \<Longrightarrow> s \<noteq> [] \<Longrightarrow> hd s \<noteq> CHR ''0'' \<Longrightarrow> fmt_nat (digs s) = s" for s
  proof (induction s rule: rev_induct)
    case (snoc c s)
    have c: "digit_val c < 10" "digit_char (digit_val c) = c"
      using snoc.prems(1) by (auto simp: is_digit_def digit_val_def digit_char_def)
    have d: "digs (s @ [c]) = digs s * 10 + digit_val c" by (simp add: digs_append)
    show ?case
    proof (cases "s = []")
      case True
      then show ?thesis using c by (subst fmt_nat.simps) simp
    next
      case False
      with snoc have f: "fmt_nat (digs s) = s" by simp
      have "digs s \<noteq> 0"
      proof
        assume "digs s = 0"
        with f have "s = [digit_char 0]" by (simp add: fmt_nat.simps [of 0])
        then have "hd s = CHR ''0''" by (simp add: digit_char_def char_of_eq_iff)
        with False snoc.prems(3) show False by simp
      qed
      then have "\<not> digs (s @ [c]) < 10" unfolding d by simp
      then show ?thesis using c f by (subst fmt_nat.simps) (simp add: d)
    qed
  qed simp
  moreover assume "int_part s"
  ultimately show ?thesis
    by (cases "hd s = CHR ''0''"; cases s)
      (auto simp: int_part_def digit_val_def fmt_nat.simps [of 0] digit_char_def char_of_eq_iff)
qed

lemma parse_digits_value: "parse_digits m n s = Inr k \<Longrightarrow> k = n * 10 ^ length s + digs s"
proof (induction s arbitrary: n)
  case (Cons c s)
  then have "k = (n * 10 + digit_val c) * 10 ^ length s + digs s" by (auto split: if_splits)
  then show ?case by (simp add: digs_Cons algebra_simps)
qed simp

lemma parseUint32_fmt: "int_part s \<Longrightarrow> parseUint32 s = Ok w \<Longrightarrow> s = fmt_u32 w"
proof -
  assume s: "int_part s" and "parseUint32 s = Ok w"
  then obtain k where p: "parseUint 32 s = Inr k" and w: "w = of_nat k"
    by (auto simp: parseUint32_def split: sum.splits)
  then have "k = digs s" using parse_digits_value [of _ 0 s k] by (auto simp: parseUint_def split: if_splits)
  moreover have "k < 2 ^ 32" using parseUint_bound [OF p] by simp
  ultimately show ?thesis using int_part_fmt [OF s] w by (simp add: fmt_u32_def unat_of_nat)
qed

lemma parseUint32_fmt_u32: "parseUint32 (fmt_u32 w) = Ok w"
proof -
  have "unat w < 2 ^ 32" using unsigned_less [of w] by simp
  then show ?thesis by (simp add: parseUint32_def fmt_u32_def parseUint_fmt)
qed

lemma dotted_ne: "dotted pre_ident x \<Longrightarrow> x \<noteq> []" "dotted build_ident x \<Longrightarrow> x \<noteq> []"
  by (auto simp: dotted_def pre_ident_def build_ident_def)

lemma opt_part_text: "(\<exists>x. t = opt_part c x \<and> (\<forall>y. x = Some y \<longrightarrow> p y) \<and> groupText x = v) \<longleftrightarrow>
    t = (if v = [] then [] else c # v) \<and> (v \<noteq> [] \<longrightarrow> p v)" if "\<And>y. p y \<Longrightarrow> y \<noteq> []"
proof
  assume "\<exists>x. t = opt_part c x \<and> (\<forall>y. x = Some y \<longrightarrow> p y) \<and> groupText x = v"
  then obtain x where "t = opt_part c x" "\<forall>y. x = Some y \<longrightarrow> p y" "groupText x = v" by blast
  then show "t = (if v = [] then [] else c # v) \<and> (v \<noteq> [] \<longrightarrow> p v)"
    using that by (cases x) (auto simp: groupText_def)
next
  assume r: "t = (if v = [] then [] else c # v) \<and> (v \<noteq> [] \<longrightarrow> p v)"
  then show "\<exists>x. t = opt_part c x \<and> (\<forall>y. x = Some y \<longrightarrow> p y) \<and> groupText x = v"
    by (intro exI [of _ "if v = [] then None else Some v"]) (simp add: groupText_def)
qed

text \<open>C39. The version strings that \<open>parseSemVer\<close> accepts, and what it makes of them: three decimal numbers of 32
  bits without leading zeros and between dots, then after a hyphen the pre-release part and after a plus sign the
  build metadata, where they are not empty; each of these is made of identifiers between dots, every one not empty,
  of digits, letters and hyphens, and in the pre-release part without a leading zero where it is a number. So the
  expression's greedy and alternative parts never take a string apart in another way, and every other string is an
  error.\<close>

theorem semver_regex:
  "parseSemVer s = Ok (ma, mi, pa, pre, build) \<longleftrightarrow>
     s = fmt_u32 ma @ ''.'' @ fmt_u32 mi @ ''.'' @ fmt_u32 pa @
       (if pre = [] then [] else CHR ''-'' # pre) @ (if build = [] then [] else CHR ''+'' # build) \<and>
     (pre \<noteq> [] \<longrightarrow> (\<forall>q \<in> set (split_at (CHR ''.'') pre). q \<noteq> [] \<and> (\<forall>c \<in> set q. word_char c) \<and>
        ((\<forall>c \<in> set q. is_digit c) \<and> hd q = CHR ''0'' \<longrightarrow> q = ''0''))) \<and>
     (build \<noteq> [] \<longrightarrow> (\<forall>q \<in> set (split_at (CHR ''.'') build). q \<noteq> [] \<and> (\<forall>c \<in> set q. word_char c)))"
proof -
  have pre: "(\<exists>x. t = opt_part c x \<and> (\<forall>y. x = Some y \<longrightarrow> dotted pre_ident y) \<and> groupText x = pre) \<longleftrightarrow>
      t = (if pre = [] then [] else c # pre) \<and> (pre \<noteq> [] \<longrightarrow> dotted pre_ident pre)" for t c
    by (rule opt_part_text) (rule dotted_ne(1))
  have build: "(\<exists>x. t = opt_part c x \<and> (\<forall>y. x = Some y \<longrightarrow> dotted build_ident y) \<and> groupText x = build) \<longleftrightarrow>
      t = (if build = [] then [] else c # build) \<and> (build \<noteq> [] \<longrightarrow> dotted build_ident build)" for t c
    by (rule opt_part_text) (rule dotted_ne(2))
  have n: "int_part m \<and> parseUint32 m = Ok w \<longleftrightarrow> m = fmt_u32 w" for m w
    using parseUint32_fmt [of m w] parseUint32_fmt_u32 [of w] by (auto simp: fmt_u32_def fmt_nat_int_part)
  have "parseSemVer s = Ok (ma, mi, pa, pre, build) \<longleftrightarrow>
      (\<exists>m1 m2 m3 t4 t5. s = m1 @ ''.'' @ m2 @ ''.'' @ m3 @ t4 @ t5 \<and>
        (int_part m1 \<and> parseUint32 m1 = Ok ma) \<and> (int_part m2 \<and> parseUint32 m2 = Ok mi) \<and>
        (int_part m3 \<and> parseUint32 m3 = Ok pa) \<and>
        (\<exists>x. t4 = opt_part (CHR ''-'') x \<and> (\<forall>y. x = Some y \<longrightarrow> dotted pre_ident y) \<and> groupText x = pre) \<and>
        (\<exists>x. t5 = opt_part (CHR ''+'') x \<and> (\<forall>y. x = Some y \<longrightarrow> dotted build_ident y) \<and> groupText x = build))"
    unfolding parseSemVer_Ok semver_match_def prod.case by blast
  then show ?thesis
    unfolding n pre build unfolding dotted_def pre_ident_def build_ident_def by (simp add: conj_ac)
qed

theorem semver_regex_witness:
  "parseSemVer ''1.20.3-rc.1-x+b.007'' = Ok (1, 20, 3, ''rc.1-x'', ''b.007'') \<and>
   parseSemVer ''1.20.3-rc.01'' \<noteq> Ok (1, 20, 3, ''rc.01'', [])"
  unfolding semver_regex
  by (simp_all add: fmt_u32_def fmt_nat.simps digit_chars word_char_def letter_or_hyphen_def is_digit_def)

text \<open>C40. The version string that \<open>init\<close> leaves reads back as the components it stored: the same
  numbers and pre-release, and as build metadata the commit id where the build had none.\<close>

theorem version_reads_back:
  assumes "versionInit bi V = Ok (V', ma, mi, pa, pre, build)"
    and "\<forall>c \<in> set (vcsCommitID bi). word_char c"
  shows "parseSemVer V' = Ok (ma, mi, pa, pre, build)"
proof -
  obtain b0 where p: "parseSemVer V = Ok (ma, mi, pa, pre, b0)"
    and cases: "(V' = V \<and> build = b0) \<or>
      (build = vcsCommitID bi \<and> build \<noteq> [] \<and> V' = fmt_u32 ma @ ''.'' @ fmt_u32 mi @ ''.'' @ fmt_u32 pa @
        (if pre \<noteq> [] then CHR ''-'' # pre else []) @ CHR ''+'' # build)"
    using assms(1) by (auto simp: versionInit_def Let_def split: res.splits if_splits)
  show ?thesis
  proof (cases "V' = V \<and> build = b0")
    case True
    with p show ?thesis by simp
  next
    case False
    with cases have b: "build = vcsCommitID bi" "build \<noteq> []"
      and V': "V' = fmt_u32 ma @ ''.'' @ fmt_u32 mi @ ''.'' @ fmt_u32 pa @
        (if pre \<noteq> [] then CHR ''-'' # pre else []) @ CHR ''+'' # build"
      by auto
    from p obtain m1 m2 m3 m4 m5 where m: "semver_match V (m1, m2, m3, m4, m5)"
      "parseUint32 m1 = Ok ma" "parseUint32 m2 = Ok mi" "parseUint32 m3 = Ok pa" "groupText m4 = pre"
      unfolding parseSemVer_Ok by blast
    let ?p = "if pre = [] then None else Some pre"
    have pre: "\<forall>x. ?p = Some x \<longrightarrow> dotted pre_ident x"
      using m(1,5) by (cases m4) (auto simp: semver_match_def groupText_def)
    have w: "\<forall>c \<in> set build. word_char c" using assms(2) unfolding b(1) .
    then have "CHR ''.'' \<notin> set build" using word_char_not by blast
    with w b(2) have "dotted build_ident build" by (simp add: dotted_def build_ident_def split_at_none)
    with pre have "semver_match V' (fmt_u32 ma, fmt_u32 mi, fmt_u32 pa, ?p, Some build)"
      by (auto simp: semver_match_def V' fmt_u32_def fmt_nat_int_part)
    moreover have "parseUint32 (fmt_u32 ma) = Ok ma" "parseUint32 (fmt_u32 mi) = Ok mi" "parseUint32 (fmt_u32 pa) = Ok pa"
      by (rule parseUint32_fmt_u32)+
    moreover have "groupText ?p = pre" "groupText (Some build) = build" by (simp_all add: groupText_def)
    ultimately show ?thesis unfolding parseSemVer_Ok by blast
  qed
qed

theorem version_reads_back_witness:
  "\<exists>V'. versionInit (Some [(''vcs'', ''git''), (''vcs.revision'', ''0123456789abcdef'')]) defaultVersion =
      Ok (V', 0, 0, 1, ''pre'', ''012345678'') \<and>
    parseSemVer V' = Ok (0, 0, 1, ''pre'', ''012345678'')"
proof -
  have "semver_match defaultVersion (''0'', ''0'', ''1'', Some ''pre'', None)"
    by (auto simp: semver_match_def defaultVersion_def int_part_def is_digit_def dotted_def pre_ident_def
      build_ident_def letter_or_hyphen_def word_char_def)
  moreover have "parseUint32 ''0'' = Ok 0" "parseUint32 ''1'' = Ok 1"
    by (simp_all add: parseUint32_def parseUint_def is_digit_def digit_val_def)
  ultimately have "parseSemVer defaultVersion = Ok (0, 0, 1, ''pre'', [])"
    unfolding parseSemVer_Ok by (intro exI) (auto simp: groupText_def)
  then have v: "versionInit (Some [(''vcs'', ''git''), (''vcs.revision'', ''0123456789abcdef'')]) defaultVersion =
      Ok (fmt_u32 0 @ ''.'' @ fmt_u32 0 @ ''.'' @ fmt_u32 1 @ ''-pre+012345678'', 0, 0, 1, ''pre'', ''012345678'')"
    by (simp add: versionInit_def vcsCommitID_def Let_def)
  moreover have "\<forall>c \<in> set (vcsCommitID (Some [(''vcs'', ''git''), (''vcs.revision'', ''0123456789abcdef'')])). word_char c"
    by (simp add: vcsCommitID_def word_char_def is_digit_def)
  ultimately show ?thesis using version_reads_back [OF v] by blast
qed

end
