(* ===== verification/Go_Os.thy ===== *)
theory Go_Os
  imports Go_Net Go_Path
begin

text \<open>
  What the daemon's configuration uses of Go's \<open>os\<close>, \<open>path/filepath\<close> and \<open>strings\<close> on a Unix system beyond
  \<open>Go_Path\<close>: the expansion of environment variables, the parts of a path, absolute paths, and the
  replacement of the first occurrence of a string.
\<close>

section \<open>Environment variables\<close>

definition isShellSpecialVar :: "char \<Rightarrow> bool" where
  "isShellSpecialVar c \<longleftrightarrow> c \<in> set ''*#$@!?-0123456789''"

definition isAlphaNum :: "char \<Rightarrow> bool" where
  "isAlphaNum c \<longleftrightarrow> c = CHR ''_'' \<or> is_digit c \<or> 97 \<le> byte c \<and> byte c \<le> 122 \<or> 65 \<le> byte c \<and> byte c \<le> 90"

text \<open>\<open>getShellName\<close>, of a string that is not empty: the name and the number of bytes it takes.\<close>

definition getShellName :: "string \<Rightarrow> string \<times> nat" where
  "getShellName s =
     (if hd s = CHR ''{'' then
        (if 2 < length s \<and> isShellSpecialVar (s ! 1) \<and> s ! 2 = CHR ''}'' then ([s ! 1], 3)
         else (case cut (CHR ''}'') (tl s) of
                 None \<Rightarrow> ([], 1)
               | Some (name, _) \<Rightarrow> if name = [] then ([], 2) else (name, length name + 2)))
      else if isShellSpecialVar (hd s) then ([hd s], 1)
      else (let name = takeWhile isAlphaNum s in (name, length name)))"

text \<open>\<open>os.Expand\<close>: \<open>mapping\<close> gives the value of a variable.\<close>

function expand :: "(string \<Rightarrow> string) \<Rightarrow> string \<Rightarrow> string" where
  "expand mapping [] = []"
| "expand mapping (c # cs) =
     (if c = CHR ''$'' \<and> cs \<noteq> [] then
        (let (name, w) = getShellName cs
         in (if name \<noteq> [] then mapping name else if 0 < w then [] else [c]) @ expand mapping (drop w cs))
      else c # expand mapping cs)"
  by pat_completeness auto
termination
  by (relation "measure (\<lambda>(_, s). length s)") auto

lemma expand_plain: "CHR ''$'' \<notin> set s \<Longrightarrow> expand mapping s = s"
  by (induction s) auto

section \<open>Parts of a path\<close>

text \<open>The directory part, with its final separator, and the file part.\<close>

definition path_Split :: "string \<Rightarrow> string \<times> string" where
  "path_Split p = (case cut_last (CHR ''/'') p of None \<Rightarrow> ([], p) | Some (d, f) \<Rightarrow> (d @ ''/'', f))"

definition path_Base :: "string \<Rightarrow> string" where
  "path_Base p =
     (if p = [] then ''.''
      else let f = snd (path_Split (rev (dropWhile (\<lambda>c. c = CHR ''/'') (rev p))))
           in if f = [] then ''/'' else f)"

definition path_Ext :: "string \<Rightarrow> string" where
  "path_Ext p = (case cut_last (CHR ''.'') (snd (path_Split p)) of None \<Rightarrow> [] | Some (_, e) \<Rightarrow> CHR ''.'' # e)"

definition trimSuffix :: "string \<Rightarrow> string \<Rightarrow> string" where
  "trimSuffix s suf =
     (if length suf \<le> length s \<and> drop (length s - length suf) s = suf then take (length s - length suf) s else s)"

text \<open>\<open>filepath.Abs\<close>; \<open>wd\<close> is the working directory, \<open>None\<close> when it cannot be found.\<close>

definition path_Abs :: "string option \<Rightarrow> string \<Rightarrow> string option" where
  "path_Abs wd p =
     (if p \<noteq> [] \<and> hd p = CHR ''/'' then Some (path_Clean p) else map_option (\<lambda>d. path_Join [d, p]) wd)"

text \<open>\<open>strings.Replace(s, old, new, 1)\<close>\<close>

fun replaceFirst :: "string \<Rightarrow> string \<Rightarrow> string \<Rightarrow> string" where
  "replaceFirst [] old new = (if old = [] then new else [])"
| "replaceFirst (c # cs) old new =
     (if take (length old) (c # cs) = old then new @ drop (length old) (c # cs)
      else c # replaceFirst cs old new)"

section \<open>Clean paths\<close>

text \<open>The elements that \<open>Clean\<close> leaves: no empty one, no dot, and parent steps only in front.\<close>

definition clean_elems :: "bool \<Rightarrow> string list \<Rightarrow> bool" where
  "clean_elems rooted ps \<longleftrightarrow> (\<forall>p \<in> set ps. p \<noteq> [] \<and> p \<noteq> ''.'' \<and> CHR ''/'' \<notin> set p) \<and>
     (\<exists>k rest. ps = replicate k ''..'' @ rest \<and> ''..'' \<notin> set rest \<and> (rooted \<longrightarrow> k = 0))"

lemma clean_elems_Nil [simp]: "clean_elems r []"
  by (auto simp: clean_elems_def)

lemma clean_step_elems:
  assumes c: "clean_elems r acc" and p: "CHR ''/'' \<notin> set p"
  shows "clean_elems r (clean_step r acc p)"
proof -
  obtain k rest where acc: "acc = replicate k ''..'' @ rest" "''..'' \<notin> set rest" "r \<longrightarrow> k = 0"
    and el: "\<forall>p \<in> set acc. p \<noteq> [] \<and> p \<noteq> ''.'' \<and> CHR ''/'' \<notin> set p"
    using c by (auto simp: clean_elems_def)
  consider "p = [] \<or> p = ''.''" | "p = ''..''" "rest \<noteq> []" | "p = ''..''" "rest = []"
    | "p \<noteq> []" "p \<noteq> ''.''" "p \<noteq> ''..''" by blast
  then show ?thesis
  proof cases
    case 1
    then show ?thesis using c by (simp add: clean_step_def)
  next
    case 2
    then have "last rest \<in> set rest" by simp
    with acc(2) have "last rest \<noteq> ''..''" by metis
    then have "last acc \<noteq> ''..''" using acc(1) 2 by simp
    then have s: "clean_step r acc p = replicate k ''..'' @ butlast rest"
      using 2 acc by (simp add: clean_step_def butlast_append)
    have "set (butlast rest) \<subseteq> set rest" by (auto dest: in_set_butlastD)
    then have "\<forall>p \<in> set (replicate k ''..'' @ butlast rest). p \<noteq> [] \<and> p \<noteq> ''.'' \<and> CHR ''/'' \<notin> set p"
      using el acc(1) by auto
    moreover have "''..'' \<notin> set (butlast rest)" using acc(2) by (auto dest: in_set_butlastD)
    ultimately show ?thesis using acc(3) unfolding s clean_elems_def by blast
  next
    case 3
    have "last (replicate k ''..'') = ''..''" if "k \<noteq> 0" using that by (cases k) (simp_all add: last_replicate)
    then have s: "clean_step r acc p = (if r then acc else replicate (Suc k) ''..'')"
      using 3 acc by (auto simp: clean_step_def replicate_append_same)
    show ?thesis
    proof (cases r)
      case False
      then show ?thesis unfolding s clean_elems_def by (auto intro!: exI [of _ "Suc k"])
    qed (use s c in simp)
  next
    case 4
    then have s: "clean_step r acc p = replicate k ''..'' @ (rest @ [p])" by (simp add: clean_step_def acc(1))
    have "''..'' \<notin> set (rest @ [p])" using acc(2) 4 by auto
    moreover have "\<forall>q \<in> set (replicate k ''..'' @ (rest @ [p])). q \<noteq> [] \<and> q \<noteq> ''.'' \<and> CHR ''/'' \<notin> set q"
      using el acc(1) 4 p by auto
    ultimately show ?thesis using acc(3) unfolding s clean_elems_def by blast
  qed
qed

lemma split_slash_elems: "p \<in> set (split_slash s) \<Longrightarrow> CHR ''/'' \<notin> set p"
  by (induction s arbitrary: p) (auto split: if_splits list.splits)

lemma foldl_clean_elems:
  "clean_elems r acc \<Longrightarrow> \<forall>p \<in> set ps. CHR ''/'' \<notin> set p \<Longrightarrow> clean_elems r (foldl (clean_step r) acc ps)"
  by (induction ps arbitrary: acc) (simp_all add: clean_step_elems)

lemma foldl_parents: "foldl (clean_step False) (replicate j ''..'') (replicate k ''..'') = replicate (j + k) ''..''"
proof (induction k arbitrary: j)
  case (Suc k)
  have "clean_step False (replicate j ''..'') ''..'' = replicate (Suc j) ''..''"
    by (auto simp: clean_step_def last_replicate replicate_append_same)
  then show ?case using Suc [of "Suc j"] by simp
qed simp

lemma foldl_plain:
  "\<forall>p \<in> set ps. p \<noteq> [] \<and> p \<noteq> ''.'' \<and> p \<noteq> ''..'' \<Longrightarrow> foldl (clean_step r) acc ps = acc @ ps"
  by (induction ps arbitrary: acc) (simp_all add: clean_step_def)

lemma foldl_clean_id: "clean_elems r ps \<Longrightarrow> foldl (clean_step r) [] ps = ps"
proof -
  assume "clean_elems r ps"
  then obtain k rest where ps: "ps = replicate k ''..'' @ rest" "''..'' \<notin> set rest" "r \<longrightarrow> k = 0"
    and el: "\<forall>p \<in> set ps. p \<noteq> [] \<and> p \<noteq> ''.'' \<and> CHR ''/'' \<notin> set p"
    by (auto simp: clean_elems_def)
  have "foldl (clean_step r) [] (replicate k ''..'') = replicate k ''..''"
    using ps(3) foldl_parents [of 0 k] by (cases r) simp_all
  moreover have "\<forall>p \<in> set rest. p \<noteq> [] \<and> p \<noteq> ''.'' \<and> p \<noteq> ''..''" using el ps(1,2) by auto
  ultimately show ?thesis by (simp add: ps(1) foldl_plain)
qed

lemma split_join: "ps \<noteq> [] \<Longrightarrow> \<forall>p \<in> set ps. CHR ''/'' \<notin> set p \<Longrightarrow> split_slash (join_slash ps) = ps"
proof (induction ps rule: join_slash.induct)
  case (3 p q ps)
  then show ?case using split_slash_append [of p "join_slash (q # ps)"] by (simp add: split_slash_plain)
qed (simp_all add: split_slash_plain)

lemma join_slash_hd: "ps \<noteq> [] \<Longrightarrow> hd ps \<noteq> [] \<Longrightarrow> join_slash ps \<noteq> [] \<and> hd (join_slash ps) = hd (hd ps)"
  by (cases ps rule: join_slash.cases) auto

lemma path_Clean_ne [simp]: "path_Clean p \<noteq> []"
  by (simp add: path_Clean_def Let_def)

lemma path_Join_ne: "e \<noteq> [] \<Longrightarrow> path_Join (e # es) \<noteq> []"
  by (simp add: path_Join_def Let_def)

lemma path_Clean_idem: "path_Clean (path_Clean s) = path_Clean s"
proof (cases "s = []")
  case False
  define r where "r = (hd s = CHR ''/'')"
  define acc where "acc = foldl (clean_step r) [] (split_slash s)"
  have acc: "clean_elems r acc" unfolding acc_def by (rule foldl_clean_elems) (auto dest: split_slash_elems)
  then have slash: "\<forall>p \<in> set acc. CHR ''/'' \<notin> set p" and ne: "\<forall>p \<in> set acc. p \<noteq> []"
    by (auto simp: clean_elems_def)
  have s: "path_Clean s = (if r then ''/'' @ join_slash acc else if join_slash acc = [] then ''.'' else join_slash acc)"
    using False by (simp add: path_Clean_def Let_def acc_def r_def)
  show ?thesis
  proof (cases "acc = []")
    case True
    then show ?thesis unfolding s by (simp add: path_Clean_def clean_step_def)
  next
    case acc_ne: False
    note sj = split_join [OF acc_ne slash]
    have hd: "join_slash acc \<noteq> []" "hd (join_slash acc) \<noteq> CHR ''/''"
      using join_slash_hd [of acc] acc_ne ne slash by (auto simp: neq_Nil_conv)
    show ?thesis
    proof (cases r)
      case True
      have "foldl (clean_step True) [] (split_slash (''/'' @ join_slash acc)) = acc"
        using foldl_clean_id acc True sj by (simp add: clean_step_def)
      then show ?thesis unfolding s by (simp add: path_Clean_def True Let_def)
    next
      case False
      have "foldl (clean_step False) [] (split_slash (join_slash acc)) = acc"
        using foldl_clean_id acc False sj by simp
      then show ?thesis unfolding s using hd by (simp add: path_Clean_def False Let_def)
    qed
  qed
qed (simp add: path_Clean_def clean_step_def)

end
