(* ===== verification/Lpd_Config.thy ===== *)
theory Lpd_Config
  imports Go_Os Daemon_State
begin

text \<open>
  \<open>config.go\<close>, except for \<open>loadConfig\<close> itself: the options of the daemon, the networks, the listeners, the
  conversion to the server's configuration, the debug levels with \<open>log.go\<close>'s loggers, and the expansion of
  paths.
\<close>

section \<open>Networks\<close>

type_synonym chainNetwork = string

definition cnMainNet :: chainNetwork where "cnMainNet = ''mainnet''"
definition cnTestNet :: chainNetwork where "cnTestNet = ''testnet''"
definition cnSimNet :: chainNetwork where "cnSimNet = ''simnet''"

definition defaultActiveNet :: chainNetwork where
  "defaultActiveNet = cnMainNet"

definition defaultListenPort :: "chainNetwork \<Rightarrow> string res" where
  "defaultListenPort c =
     (if c = cnMainNet then Ok ''9130''
      else if c = cnTestNet then Ok ''19130''
      else if c = cnSimNet then Ok ''29130''
      else Panic ''unknown chainNetwork'')"

text \<open>
  What \<open>config.go\<close> takes from \<open>dcrd\<close>: the parameters of the three chains, and \<open>Amount\<close> with its
  conversions from and to coins.
\<close>

record dcrd =
  MainNetParams :: chainParams
  TestNet3Params :: chainParams
  SimNetParams :: chainParams
  NewAmount :: "f64 \<Rightarrow> string + i64"
  ToCoin :: "i64 \<Rightarrow> f64"

definition chainParamsOf :: "dcrd \<Rightarrow> chainNetwork \<Rightarrow> chainParams res" where
  "chainParamsOf D c =
     (if c = cnMainNet then Ok (MainNetParams D)
      else if c = cnTestNet then Ok (TestNet3Params D)
      else if c = cnSimNet then Ok (SimNetParams D)
      else Panic ''unknown chainNetwork'')"

section \<open>The options\<close>

record openChanPolicyCfg =
  oc_MinChanSize :: f64
  oc_MaxChanSize :: f64
  oc_MaxNbChannels :: u64
  oc_MaxPendingChannels :: u64
  oc_InvoiceFeeRate :: f64
  oc_Key :: string
  oc_InvoiceExpiration :: duration

record closeChanPolicyCfg =
  cc_CheckInterval :: duration
  cc_MinChanLifetime :: duration
  cc_MinWalletBalance :: f64

record ignorePolicyCfg =
  ic_Channels :: "string list"
  ic_Nodes :: "string list"

text \<open>\<open>config\<close>, the type of the options; the server's own configuration is \<^typ>\<open>config\<close>.\<close>

record options =
  o_ShowVersion :: bool
  o_AppData :: string
  o_ConfigFile :: string
  o_DebugLevel :: string
  o_Listeners :: "string list"
  o_Profile :: string
  o_TLSCert :: string
  o_TLSKey :: string
  o_DisableTLS :: bool
  o_MainNet :: bool
  o_TestNet :: bool
  o_SimNet :: bool
  o_LNRPCHost :: string
  o_LNTLSCertPath :: string
  o_LNMacaroonPath :: string
  o_LNNodeAddrs :: "string list"
  o_OpenPolicy :: openChanPolicyCfg
  o_ClosePolicy :: closeChanPolicyCfg
  o_IgnorePolicy :: ignorePolicyCfg
  o_activeNet :: chainNetwork

section \<open>Listeners\<close>

text \<open>
  The calls to \<open>net\<close> and \<open>crypto/tls\<close>: \<open>'k\<close> is a key pair, \<open>'l\<close> a listener. The state holds the listeners
  that are open, the same one as often as it was opened.
\<close>

record ('w, 'k, 'l) netCalls =
  n_LoadKeyPair :: "string \<Rightarrow> string \<Rightarrow> 'w \<Rightarrow> (string + 'k) \<times> 'w"
  n_Listen :: "string \<Rightarrow> 'w \<Rightarrow> (string + 'l) \<times> 'w"
  n_TLSListen :: "'k \<Rightarrow> string \<Rightarrow> 'w \<Rightarrow> (string + 'l) \<times> 'w"
  n_Close :: "'l \<Rightarrow> 'w \<Rightarrow> 'w"

record ('w, 'l) netState =
  net_world :: 'w
  net_open :: "'l multiset"

definition openListener :: "(string \<Rightarrow> 'w \<Rightarrow> (string + 'l) \<times> 'w) \<Rightarrow> string \<Rightarrow> ('w, 'l) netState \<Rightarrow>
    'l res \<times> ('w, 'l) netState" where
  "openListener f addr s = (case f addr (net_world s) of
      (Inl m, w) \<Rightarrow> (Err (ErrOther m), s\<lparr>net_world := w\<rparr>)
    | (Inr l, w) \<Rightarrow> (Ok l, s\<lparr>net_world := w, net_open := add_mset l (net_open s)\<rparr>))"

definition closeListener :: "('w, 'k, 'l) netCalls \<Rightarrow> 'l \<Rightarrow> ('w, 'l) netState \<Rightarrow> ('w, 'l) netState" where
  "closeListener N l s = s\<lparr>net_world := n_Close N l (net_world s), net_open := net_open s - {#l#}\<rparr>"

fun listenAll :: "('w, 'k, 'l) netCalls \<Rightarrow> (string \<Rightarrow> 'w \<Rightarrow> (string + 'l) \<times> 'w) \<Rightarrow> string list \<Rightarrow> 'l list \<Rightarrow>
    ('w, 'l) netState \<Rightarrow> 'l list res \<times> ('w, 'l) netState" where
  "listenAll N f [] list s = (Ok list, s)"
| "listenAll N f (addr # addrs) list s = (case openListener f addr s of
      (Ok l, s1) \<Rightarrow> listenAll N f addrs (list @ [l]) s1
    | (Err e, s1) \<Rightarrow> (Err (ErrOther ''unable to listen''), fold (closeListener N) list s1)
    | (Panic m, s1) \<Rightarrow> (Panic m, s1))"

definition listeners :: "('w, 'k, 'l) netCalls \<Rightarrow> options \<Rightarrow> ('w, 'l) netState \<Rightarrow>
    'l list res \<times> ('w, 'l) netState" where
  "listeners N c s =
     (if \<not> o_DisableTLS c then
        (case n_LoadKeyPair N (o_TLSCert c) (o_TLSKey c) (net_world s) of
           (Inl m, w) \<Rightarrow> (Err (ErrOther m), s\<lparr>net_world := w\<rparr>)
         | (Inr keypair, w) \<Rightarrow> listenAll N (n_TLSListen N keypair) (o_Listeners c) [] (s\<lparr>net_world := w\<rparr>))
      else listenAll N (n_Listen N) (o_Listeners c) [] s)"

section \<open>The server's configuration\<close>

definition newAmount :: "dcrd \<Rightarrow> string \<Rightarrow> f64 \<Rightarrow> i64 res" where
  "newAmount D what x = (case NewAmount D x of Inl m \<Rightarrow> Err (ErrOther what) | Inr a \<Rightarrow> Ok a)"

text \<open>The loops that fill the two sets.\<close>

definition stringSet :: "string list \<Rightarrow> string set" where
  "stringSet xs = fold insert xs {}"

definition serverConfig :: "dcrd \<Rightarrow> options \<Rightarrow> config res" where
  "serverConfig D c =
     andThen (newAmount D ''invalid min chan size'' (oc_MinChanSize (o_OpenPolicy c))) (\<lambda>minChanSize.
     andThen (newAmount D ''invalid max chan size'' (oc_MaxChanSize (o_OpenPolicy c))) (\<lambda>maxChanSize.
     andThen (newAmount D ''invalid min wallet balance'' (cc_MinWalletBalance (o_ClosePolicy c))) (\<lambda>minWalletBal.
     andThen (chainParamsOf D (o_activeNet c)) (\<lambda>params.
       Ok \<lparr>ChainParams = params,
           RootDir = path_Join [o_AppData c, o_activeNet c],
           LNRPCHost = o_LNRPCHost c,
           LNTLSCertPath = o_LNTLSCertPath c,
           LNMacaroonPath = o_LNMacaroonPath c,
           LNNodeAddrs = o_LNNodeAddrs c,
           MaxPendingChans = oc_MaxPendingChannels (o_OpenPolicy c),
           MinChanSize = minChanSize,
           MaxChanSize = maxChanSize,
           MaxNbChannels = oc_MaxNbChannels (o_OpenPolicy c),
           MinWalletBalance = minWalletBal,
           CloseCheckInterval = cc_CheckInterval (o_ClosePolicy c),
           MinChanLifetime = cc_MinChanLifetime (o_ClosePolicy c),
           CreateKey = (if oc_Key (o_OpenPolicy c) \<noteq> [] then Some (oc_Key (o_OpenPolicy c)) else None),
           InvoiceExpiration = oc_InvoiceExpiration (o_OpenPolicy c),
           IgnoreChannels = stringSet (ic_Channels (o_IgnorePolicy c)),
           IgnoreNodes = stringSet (ic_Nodes (o_IgnorePolicy c)),
           ChanInvoiceFeeRate = oc_InvoiceFeeRate (o_OpenPolicy c)\<rparr>))))"

section \<open>The selected network\<close>

text \<open>The count of network flags, and the network of the last one that is set.\<close>

definition netFlags :: "options \<Rightarrow> nat \<times> chainNetwork" where
  "netFlags c =
     (let (n, net) = (0, defaultActiveNet);
          (n, net) = (if o_MainNet c then (n + 1, cnMainNet) else (n, net));
          (n, net) = (if o_TestNet c then (n + 1, cnTestNet) else (n, net))
      in if o_SimNet c then (n + 1, cnSimNet) else (n, net))"

definition configuredNetwork :: "options \<Rightarrow> chainNetwork \<times> err option" where
  "configuredNetwork c =
     (let (numNets, net) = netFlags c
      in if 1 < numNets then (net, Some (ErrOther ''networks can't be used together'')) else (net, None))"

section \<open>Debug levels\<close>

text \<open>
  \<open>slog\<close>'s \<open>LevelFromString\<close> (a level, and whether the string names one) is a parameter. The loggers are
  the two of \<open>subsystemLoggers\<close>; the state maps each to its level.
\<close>

type_synonym level = u32
type_synonym levelFromString = "string \<Rightarrow> level \<times> bool"
type_synonym loggers = "string \<rightharpoonup> level"

definition subsystems :: "string list" where
  "subsystems = [''MAIN'', ''SRVR'']"

definition validLogLevel :: "levelFromString \<Rightarrow> string \<Rightarrow> bool" where
  "validLogLevel lf logLevel = snd (lf logLevel)"

definition setLogLevel :: "levelFromString \<Rightarrow> string \<Rightarrow> string \<Rightarrow> loggers \<Rightarrow> loggers" where
  "setLogLevel lf subsystemID logLevel L =
     (case L subsystemID of None \<Rightarrow> L | Some _ \<Rightarrow> L(subsystemID \<mapsto> fst (lf logLevel)))"

definition setLogLevels :: "levelFromString \<Rightarrow> string \<Rightarrow> loggers \<Rightarrow> loggers" where
  "setLogLevels lf logLevel L = fold (\<lambda>subsystemID. setLogLevel lf subsystemID logLevel) subsystems L"

text \<open>The loop over the pairs: what earlier pairs have set stays when a later one is wrong.\<close>

fun setLevelPairs :: "levelFromString \<Rightarrow> string list \<Rightarrow> loggers \<Rightarrow> unit res \<times> loggers" where
  "setLevelPairs lf [] L = (Ok (), L)"
| "setLevelPairs lf (logLevelPair # ps) L =
     (if CHR ''='' \<notin> set logLevelPair then (Err (ErrOther ''invalid subsystem/level pair''), L)
      else (let fields = split_at (CHR ''='') logLevelPair; subsysID = fields ! 0; logLevel = fields ! 1
        in if L subsysID = None then (Err (ErrOther ''invalid subsystem''), L)
           else if \<not> validLogLevel lf logLevel then (Err (ErrOther ''invalid debug level''), L)
           else setLevelPairs lf ps (setLogLevel lf subsysID logLevel L)))"

definition parseAndSetDebugLevels :: "levelFromString \<Rightarrow> string \<Rightarrow> loggers \<Rightarrow> unit res \<times> loggers" where
  "parseAndSetDebugLevels lf debugLevel L =
     (if CHR '','' \<notin> set debugLevel \<and> CHR ''='' \<notin> set debugLevel then
        (if \<not> validLogLevel lf debugLevel then (Err (ErrOther ''invalid debug level''), L)
         else (Ok (), setLogLevels lf debugLevel L))
      else setLevelPairs lf (split_at (CHR '','') debugLevel) L)"

section \<open>Paths\<close>

text \<open>
  What \<open>os\<close> and \<open>os/user\<close> tell the process: the variables of its environment, its working directory, the
  home directories of the current user and of others (\<open>None\<close> when the lookup fails), and \<open>os.Args[0]\<close>.
\<close>

record process =
  p_Getenv :: "string \<Rightarrow> string"
  p_Getwd :: "string option"
  p_CurrentHome :: "string option"
  p_LookupHome :: "string \<Rightarrow> string option"
  p_Arg0 :: string

definition cleanAndExpandPath :: "process \<Rightarrow> string \<Rightarrow> string" where
  "cleanAndExpandPath P path =
     (if path = [] then path
      else let path = expand (p_Getenv P) path in
        if take 1 path \<noteq> ''~'' then path_Clean path
        else let path = tl path;
                 (userName, path) =
                   (if CHR ''/'' \<in> set path
                    then (takeWhile (\<lambda>c. c \<noteq> CHR ''/'') path, dropWhile (\<lambda>c. c \<noteq> CHR ''/'') path)
                    else ([], path));
                 homeDir = (case (if userName = [] then p_CurrentHome P else p_LookupHome P userName) of
                     None \<Rightarrow> [] | Some d \<Rightarrow> d);
                 homeDir = (if homeDir = [] then ''.'' else homeDir)
             in path_Join [homeDir, path])"

section \<open>Laws of listening\<close>

lemma fold_close_open:
  "net_open (fold (closeListener N) ls s) = net_open s - mset ls"
  by (induction ls arbitrary: s) (simp_all add: closeListener_def)

lemma listenAll_open:
  "listenAll N f addrs list s = (r, t) \<Longrightarrow> net_open s = A + mset list \<Longrightarrow>
     (\<forall>ls. r = Ok ls \<longrightarrow> length ls = length list + length addrs \<and> net_open t = A + mset ls) \<and>
     (\<forall>e. r = Err e \<longrightarrow> net_open t = A) \<and> (\<forall>m. r \<noteq> Panic m)"
proof (induction addrs arbitrary: list s)
  case (Cons addr addrs)
  obtain q w where f: "f addr (net_world s) = (q, w)" by force
  show ?case
  proof (cases q)
    case (Inl m)
    with Cons.prems f have "r = Err (ErrOther ''unable to listen'')" "net_open t = net_open s - mset list"
      by (auto simp: openListener_def fold_close_open)
    with Cons.prems(2) show ?thesis by simp
  next
    case (Inr l)
    let ?s = "s\<lparr>net_world := w, net_open := add_mset l (net_open s)\<rparr>"
    have "listenAll N f addrs (list @ [l]) ?s = (r, t)"
      using Cons.prems(1) f Inr by (simp add: openListener_def)
    from Cons.IH [OF this] show ?thesis using Cons.prems(2) by simp
  qed
qed auto

section \<open>Laws of debug levels\<close>

definition levelPair :: "string \<Rightarrow> string \<times> string" where
  "levelPair p = (split_at (CHR ''='') p ! 0, split_at (CHR ''='') p ! 1)"

definition goodPair :: "levelFromString \<Rightarrow> string \<Rightarrow> bool" where
  "goodPair lf p \<longleftrightarrow> CHR ''='' \<in> set p \<and> fst (levelPair p) \<in> set subsystems \<and> validLogLevel lf (snd (levelPair p))"

text \<open>The level that the last of the pairs that name a subsystem gives it.\<close>

definition lastLevel :: "levelFromString \<Rightarrow> string list \<Rightarrow> string \<Rightarrow> level option" where
  "lastLevel lf ps sub =
     map_option (\<lambda>p. fst (lf (snd (levelPair p)))) (List.find (\<lambda>p. fst (levelPair p) = sub) (rev ps))"

lemma setLogLevel_dom: "dom (setLogLevel lf sub lv L) = dom L"
  by (auto simp: setLogLevel_def split: option.splits)

lemma find_append: "List.find P (xs @ ys) = (case List.find P xs of None \<Rightarrow> List.find P ys | Some x \<Rightarrow> Some x)"
  by (induction xs) auto

lemma lastLevel_Cons:
  "lastLevel lf (p # ps) sub = (case lastLevel lf ps sub of
     None \<Rightarrow> if fst (levelPair p) = sub then Some (fst (lf (snd (levelPair p)))) else None | Some l \<Rightarrow> Some l)"
  by (auto simp: lastLevel_def find_append split: option.splits)

lemma setLevelPairs_effect:
  "setLevelPairs lf ps L = (r, L') \<Longrightarrow> dom L = set subsystems \<Longrightarrow>
     (r = Ok () \<longleftrightarrow> (\<forall>p \<in> set ps. goodPair lf p)) \<and> (\<forall>m. r \<noteq> Panic m) \<and> dom L' = set subsystems \<and>
     (\<forall>sub. L' sub = (case lastLevel lf (takeWhile (goodPair lf) ps) sub of None \<Rightarrow> L sub | Some l \<Rightarrow> Some l))"
proof (induction ps arbitrary: L)
  case Nil
  then show ?case by (auto simp: lastLevel_def)
next
  case (Cons p ps)
  show ?case
  proof (cases "goodPair lf p")
    case False
    with Cons.prems have "r \<noteq> Ok ()" "\<forall>m. r \<noteq> Panic m" "L' = L"
      by (auto simp: goodPair_def levelPair_def Let_def dom_def split: if_splits)
    with False Cons.prems(2) show ?thesis by (simp add: lastLevel_def)
  next
    case True
    let ?L = "setLogLevel lf (fst (levelPair p)) (snd (levelPair p)) L"
    from True Cons.prems(2) obtain v where v: "L (fst (levelPair p)) = Some v"
      by (auto simp: goodPair_def)
    have s: "setLevelPairs lf ps ?L = (r, L')"
      using Cons.prems(1) True v by (simp add: goodPair_def levelPair_def Let_def)
    have "dom ?L = set subsystems" using Cons.prems(2) by (simp add: setLogLevel_dom)
    note ih = Cons.IH [OF s this]
    have lev: "?L sub = (if sub = fst (levelPair p) then Some (fst (lf (snd (levelPair p)))) else L sub)" for sub
      using v by (simp add: setLogLevel_def)
    have "L' sub = (case lastLevel lf (takeWhile (goodPair lf) (p # ps)) sub of None \<Rightarrow> L sub | Some l \<Rightarrow> Some l)" for sub
    proof -
      have "L' sub = (case lastLevel lf (takeWhile (goodPair lf) ps) sub of None \<Rightarrow> ?L sub | Some l \<Rightarrow> Some l)"
        using ih by blast
      then show ?thesis
        using True by (cases "lastLevel lf (takeWhile (goodPair lf) ps) sub") (simp_all add: lastLevel_Cons lev)
    qed
    moreover have "(\<forall>q \<in> set (p # ps). goodPair lf q) \<longleftrightarrow> (\<forall>q \<in> set ps. goodPair lf q)" using True by simp
    ultimately show ?thesis using ih by (metis (no_types))
  qed
qed

section \<open>Laws of paths\<close>

lemma cleanAndExpandPath_ne: "cleanAndExpandPath P p = [] \<longleftrightarrow> p = []"
  by (simp add: cleanAndExpandPath_def Let_def path_Join_ne split: prod.split)

lemma path_Join_clean: "e \<noteq> [] \<Longrightarrow> path_Clean (path_Join (e # es)) = path_Join (e # es)"
  by (simp add: path_Join_def Let_def path_Clean_idem)

lemma cleanAndExpandPath_clean:
  "path \<noteq> [] \<Longrightarrow> path_Clean (cleanAndExpandPath P path) = cleanAndExpandPath P path"
  by (simp add: cleanAndExpandPath_def Let_def path_Join_clean path_Clean_idem split: prod.split)

lemma expand_tilde:
  assumes "CHR ''$'' \<notin> set p"
  shows "cleanAndExpandPath P (CHR ''~'' # p) =
    (let (u, q) = (if CHR ''/'' \<in> set p
           then (takeWhile (\<lambda>c. c \<noteq> CHR ''/'') p, dropWhile (\<lambda>c. c \<noteq> CHR ''/'') p) else ([], p));
         h = (case (if u = [] then p_CurrentHome P else p_LookupHome P u) of None \<Rightarrow> [] | Some d \<Rightarrow> d)
     in path_Join [if h = [] then ''.'' else h, q])"
  using expand_plain [of "CHR ''~'' # p" "p_Getenv P"] assms
  by (simp add: cleanAndExpandPath_def Let_def)

text \<open>
  Listening is all or nothing: \<open>listeners\<close> gives one open listener for every configured address, or
  it fails and every listener it had opened is closed again; what else was open stays as it was.
\<close>

lemma listeners_all_or_none:
  assumes "listeners N c s = (r, t)"
  shows "(\<forall>ls. r = Ok ls \<longrightarrow> length ls = length (o_Listeners c) \<and> net_open t = net_open s + mset ls) \<and>
    (\<forall>e. r = Err e \<longrightarrow> net_open t = net_open s) \<and> (\<forall>m. r \<noteq> Panic m)"
proof -
  have all: "listenAll N f (o_Listeners c) [] u = (r, t) \<Longrightarrow> net_open u = net_open s \<Longrightarrow> ?thesis" for f u
    using listenAll_open [of N f "o_Listeners c" "[]" u r t "net_open s"] by simp
  obtain k w where k: "n_LoadKeyPair N (o_TLSCert c) (o_TLSKey c) (net_world s) = (k, w)" by force
  show ?thesis
  proof (cases "o_DisableTLS c")
    case True
    with assms show ?thesis by (intro all [of "n_Listen N" s]) (simp_all add: listeners_def)
  next
    case False
    show ?thesis
    proof (cases k)
      case (Inl m)
      with False k assms show ?thesis by (auto simp: listeners_def)
    next
      case (Inr keypair)
      with False k assms show ?thesis
        by (intro all [of "n_TLSListen N keypair" "s\<lparr>net_world := w\<rparr>"]) (simp_all add: listeners_def)
    qed
  qed
qed

section \<open>Properties\<close>

text \<open>Ports below 1024 cannot be opened here; a listener is its address.\<close>

definition sampleNet :: "('w, unit, string) netCalls" where
  "sampleNet = \<lparr>n_LoadKeyPair = \<lambda>_ _ w. (Inr (), w),
     n_Listen = \<lambda>addr w. (if addr = '':80'' then Inl ''permission denied'' else Inr addr, w),
     n_TLSListen = \<lambda>_ addr w. (Inr addr, w), n_Close = \<lambda>_ w. w\<rparr>"

definition sampleOptions :: options where
  "sampleOptions = \<lparr>o_ShowVersion = False, o_AppData = [], o_ConfigFile = [], o_DebugLevel = ''info'',
     o_Listeners = ['':9130'', '':80''], o_Profile = [], o_TLSCert = [], o_TLSKey = [], o_DisableTLS = True,
     o_MainNet = False, o_TestNet = False, o_SimNet = True,
     o_LNRPCHost = ''localhost:10009'', o_LNTLSCertPath = ''tls.cert'', o_LNMacaroonPath = ''admin.macaroon'',
     o_LNNodeAddrs = [],
     o_OpenPolicy = \<lparr>oc_MinChanSize = Fin (1 / 1024), oc_MaxChanSize = Fin 1, oc_MaxNbChannels = 2,
       oc_MaxPendingChannels = 1, oc_InvoiceFeeRate = Fin (1 / 16), oc_Key = [], oc_InvoiceExpiration = hour\<rparr>,
     o_ClosePolicy = \<lparr>cc_CheckInterval = hour, cc_MinChanLifetime = hour, cc_MinWalletBalance = Fin 1\<rparr>,
     o_IgnorePolicy = \<lparr>ic_Channels = [], ic_Nodes = []\<rparr>, o_activeNet = cnSimNet\<rparr>"

lemma listeners_all_or_none_witness:
  "net_open (snd (listeners sampleNet sampleOptions \<lparr>net_world = (), net_open = {#''other''#}\<rparr>)) = {#''other''#}"
proof -
  have "\<exists>t. listeners sampleNet sampleOptions \<lparr>net_world = (), net_open = {#''other''#}\<rparr> =
      (Err (ErrOther ''unable to listen''), t)"
    by (simp add: listeners_def sampleOptions_def sampleNet_def openListener_def)
  then obtain t where t: "listeners sampleNet sampleOptions \<lparr>net_world = (), net_open = {#''other''#}\<rparr> =
      (Err (ErrOther ''unable to listen''), t)" ..
  from listeners_all_or_none [OF t] show ?thesis by (simp add: t)
qed

text \<open>
  Debug levels: a list of pairs is accepted exactly when every pair names a subsystem and a level,
  and then each subsystem has the level of the last pair that names it and otherwise the one it had;
  when a pair is wrong, the pairs before it have been applied all the same.
\<close>

lemma debug_levels:
  assumes "parseAndSetDebugLevels lf debugLevel L = (r, L')" and "dom L = set subsystems"
    and "CHR '','' \<in> set debugLevel \<or> CHR ''='' \<in> set debugLevel"
  shows "(r = Ok () \<longleftrightarrow> (\<forall>p \<in> set (split_at (CHR '','') debugLevel). goodPair lf p)) \<and> dom L' = set subsystems \<and>
    (\<forall>sub. L' sub = (case lastLevel lf (takeWhile (goodPair lf) (split_at (CHR '','') debugLevel)) sub of
       None \<Rightarrow> L sub | Some l \<Rightarrow> Some l))"
proof -
  have "setLevelPairs lf (split_at (CHR '','') debugLevel) L = (r, L')"
    using assms(1,3) unfolding parseAndSetDebugLevels_def by (auto split: if_splits)
  from setLevelPairs_effect [OF this assms(2)] show ?thesis by (elim conjE) (intro conjI)
qed

definition sampleLevels :: levelFromString where
  "sampleLevels s = (if s = ''debug'' then (1, True) else if s = ''info'' then (2, True) else (2, False))"

lemma debug_levels_witness:
  "snd (parseAndSetDebugLevels sampleLevels ''MAIN=debug,SRVR=loud'' [''MAIN'' \<mapsto> 2, ''SRVR'' \<mapsto> 2]) ''MAIN'' = Some 1"
proof -
  obtain r L where p: "parseAndSetDebugLevels sampleLevels ''MAIN=debug,SRVR=loud'' [''MAIN'' \<mapsto> 2, ''SRVR'' \<mapsto> 2] = (r, L)"
    by force
  have parts: "split_at (CHR '','') ''MAIN=debug,SRVR=loud'' = [''MAIN=debug'', ''SRVR=loud'']" by simp
  have "split_at (CHR ''='') ''MAIN=debug'' = [''MAIN'', ''debug'']" by simp
  then have m: "levelPair ''MAIN=debug'' = (''MAIN'', ''debug'')" unfolding levelPair_def by simp
  have "split_at (CHR ''='') ''SRVR=loud'' = [''SRVR'', ''loud'']" by simp
  then have s: "levelPair ''SRVR=loud'' = (''SRVR'', ''loud'')" unfolding levelPair_def by simp
  have gm: "goodPair sampleLevels ''MAIN=debug''"
    unfolding goodPair_def m by (simp add: subsystems_def validLogLevel_def sampleLevels_def)
  have gs: "\<not> goodPair sampleLevels ''SRVR=loud''"
    unfolding goodPair_def s by (simp add: validLogLevel_def sampleLevels_def)
  have g: "takeWhile (goodPair sampleLevels) (split_at (CHR '','') ''MAIN=debug,SRVR=loud'') = [''MAIN=debug'']"
    unfolding parts by (simp only: takeWhile.simps gm gs if_True if_False)
  have d: "dom [''MAIN'' \<mapsto> (2 :: level), ''SRVR'' \<mapsto> 2] = set subsystems"
    unfolding subsystems_def by auto
  have c: "CHR '','' \<in> set ''MAIN=debug,SRVR=loud'' \<or> CHR ''='' \<in> set ''MAIN=debug,SRVR=loud''" by simp
  from debug_levels [OF p d c] have "\<forall>sub. L sub = (case lastLevel sampleLevels
      (takeWhile (goodPair sampleLevels) (split_at (CHR '','') ''MAIN=debug,SRVR=loud'')) sub of
      None \<Rightarrow> [''MAIN'' \<mapsto> 2, ''SRVR'' \<mapsto> 2] sub | Some l \<Rightarrow> Some l)" by (elim conjE)
  then have "L ''MAIN'' = (case lastLevel sampleLevels [''MAIN=debug''] ''MAIN'' of
      None \<Rightarrow> [''MAIN'' \<mapsto> 2, ''SRVR'' \<mapsto> 2] ''MAIN'' | Some l \<Rightarrow> Some l)"
    unfolding g by (rule spec)
  also have "\<dots> = Some 1" by (simp add: lastLevel_def m sampleLevels_def)
  finally show ?thesis by (simp add: p)
qed

text \<open>
  Expanded paths: a path comes out empty only if it was empty and is otherwise in the normal form of
  \<open>Clean\<close>; a tilde with a slash after it stands for the home directory of the current user, a name between
  them for that user's. A tilde and a name without a slash, like \<open>~bob\<close>, is taken as an entry of the
  current user's own home directory.
\<close>

lemma expanded_paths:
  "(cleanAndExpandPath P path = [] \<longleftrightarrow> path = []) \<and>
   (path \<noteq> [] \<longrightarrow> path_Clean (cleanAndExpandPath P path) = cleanAndExpandPath P path) \<and>
   (CHR ''$'' \<notin> set rel \<longrightarrow> p_CurrentHome P = Some home \<longrightarrow> home \<noteq> [] \<longrightarrow>
     cleanAndExpandPath P (''~/'' @ rel) = path_Join [home, CHR ''/'' # rel]) \<and>
   (CHR ''$'' \<notin> set name \<longrightarrow> CHR ''$'' \<notin> set rel \<longrightarrow> CHR ''/'' \<notin> set name \<longrightarrow> name \<noteq> [] \<longrightarrow>
     p_LookupHome P name = Some home \<longrightarrow> home \<noteq> [] \<longrightarrow>
     cleanAndExpandPath P (CHR ''~'' # name @ CHR ''/'' # rel) = path_Join [home, CHR ''/'' # rel]) \<and>
   (CHR ''$'' \<notin> set name \<longrightarrow> CHR ''/'' \<notin> set name \<longrightarrow> p_CurrentHome P = Some home \<longrightarrow> home \<noteq> [] \<longrightarrow>
     cleanAndExpandPath P (CHR ''~'' # name) = path_Join [home, name])"
proof (intro conjI impI)
  show "cleanAndExpandPath P path = [] \<longleftrightarrow> path = []" by (rule cleanAndExpandPath_ne)
  show "path_Clean (cleanAndExpandPath P path) = cleanAndExpandPath P path" if "path \<noteq> []"
    using that by (rule cleanAndExpandPath_clean)
next
  assume "CHR ''$'' \<notin> set rel" "p_CurrentHome P = Some home" "home \<noteq> []"
  then show "cleanAndExpandPath P (''~/'' @ rel) = path_Join [home, CHR ''/'' # rel]"
    using expand_tilde [of "CHR ''/'' # rel" P] by simp
next
  assume n: "CHR ''$'' \<notin> set name" "CHR ''$'' \<notin> set rel" "CHR ''/'' \<notin> set name" "name \<noteq> []"
    "p_LookupHome P name = Some home" "home \<noteq> []"
  then have "takeWhile (\<lambda>c. c \<noteq> CHR ''/'') name = name" "dropWhile (\<lambda>c. c \<noteq> CHR ''/'') name = []"
    by (auto simp: takeWhile_eq_all_conv)
  with n show "cleanAndExpandPath P (CHR ''~'' # name @ CHR ''/'' # rel) = path_Join [home, CHR ''/'' # rel]"
    using expand_tilde [of "name @ CHR ''/'' # rel" P] by (simp add: takeWhile_tail Let_def)
next
  assume "CHR ''$'' \<notin> set name" "CHR ''/'' \<notin> set name" "p_CurrentHome P = Some home" "home \<noteq> []"
  then show "cleanAndExpandPath P (CHR ''~'' # name) = path_Join [home, name]"
    using expand_tilde [of name P] by simp
qed

definition sampleProcess :: process where
  "sampleProcess = \<lparr>p_Getenv = \<lambda>_. [], p_Getwd = Some ''/'', p_CurrentHome = Some ''/home/lp'',
     p_LookupHome = \<lambda>_. None, p_Arg0 = ''dcrlnlpd''\<rparr>"

lemma expanded_paths_witness:
  "cleanAndExpandPath sampleProcess ''~/tls.key'' = ''/home/lp/tls.key'' \<and>
   cleanAndExpandPath sampleProcess ''~bob'' = ''/home/lp/bob''"
proof -
  have "cleanAndExpandPath sampleProcess ''~/tls.key'' = path_Join [''/home/lp'', ''/tls.key'']"
    using expanded_paths [of sampleProcess "''~''" "''tls.key''" "''/home/lp''" "''bob''"] by (simp add: sampleProcess_def)
  moreover have "cleanAndExpandPath sampleProcess ''~bob'' = path_Join [''/home/lp'', ''bob'']"
    using expanded_paths [of sampleProcess "''~''" "''tls.key''" "''/home/lp''" "''bob''"] by (simp add: sampleProcess_def)
  ultimately show ?thesis by (simp add: path_Join_def path_Clean_def clean_step_def Let_def)
qed

end
