(* ===== verification/Load_Config.thy ===== *)
theory Load_Config
  imports Lpd_Config
begin

text \<open>
  \<open>loadConfig\<close> of \<open>config.go\<close>, stage by stage as it is written. The option parser is a parameter; what
  it leaves in the options may be anything. \<open>os.Exit\<close> is a panic of the model: both end the process.
\<close>

section \<open>The environment of loadConfig\<close>

text \<open>
  The three uses of \<open>go-flags\<close>: the first pass over the command line, the configuration file, and the
  second pass, which knows from the parser's state \<open>'p\<close> what the file has set. An error is either the
  help message or another one, a file error either a \<open>PathError\<close> or another one. The file system calls
  answer \<open>None\<close> on success; \<open>b_Stat\<close> answers whether the error is that the file does not exist.
\<close>

datatype flagsError = FlagsHelp | FlagsOther string
datatype iniError = PathError string | IniOther string

record ('w, 'p) boot =
  b_PreParse :: "options \<Rightarrow> flagsError option \<times> options"
  b_ParseFile :: "string \<Rightarrow> options \<Rightarrow> 'w \<Rightarrow> (iniError option \<times> options \<times> 'p) \<times> 'w"
  b_Parse :: "'p \<Rightarrow> options \<Rightarrow> flagsError option \<times> options \<times> string list"
  b_Stat :: "string \<Rightarrow> 'w \<Rightarrow> bool option \<times> 'w"
  b_MkdirAll :: "string \<Rightarrow> 'w \<Rightarrow> string option \<times> 'w"
  b_WriteFile :: "string \<Rightarrow> string \<Rightarrow> 'w \<Rightarrow> string option \<times> 'w"
  b_NewRotator :: "string \<Rightarrow> 'w \<Rightarrow> string option \<times> 'w"
  b_AppDataDir :: "string \<Rightarrow> string"
  b_defaultConfigFileContents :: string
  b_levelFromString :: levelFromString
  b_process :: process
  b_dcrd :: dcrd

record 'w bootState =
  boot_world :: 'w
  loggers :: loggers
  logRotator :: "string option"

definition sysCall :: "('w \<Rightarrow> string option \<times> 'w) \<Rightarrow> 'w bootState \<Rightarrow> unit res \<times> 'w bootState" where
  "sysCall f s = (case f (boot_world s) of
      (None, w) \<Rightarrow> (Ok (), s\<lparr>boot_world := w\<rparr>)
    | (Some m, w) \<Rightarrow> (Err (ErrOther m), s\<lparr>boot_world := w\<rparr>))"

section \<open>Defaults\<close>

text \<open>The constants, unfolded by \<open>simp\<close>.\<close>

definition defaultLogLevel :: string where [simp]: "defaultLogLevel = ''info''"
definition defaultDataDirname :: string where [simp]: "defaultDataDirname = ''data''"
definition defaultLogDirname :: string where [simp]: "defaultLogDirname = ''logs''"
definition defaultLNHost :: string where [simp]: "defaultLNHost = ''localhost:10009''"
definition defaultOpenMinChanSize :: f64 where [simp]: "defaultOpenMinChanSize = rnd (4 / 10000)"
definition defaultOpenMaxChanSize :: f64 where [simp]: "defaultOpenMaxChanSize = Fin 1"
definition defaultOpenMaxNbChannels :: u64 where [simp]: "defaultOpenMaxNbChannels = 2"
definition defaultOpenInvoiceFeeRate :: f64 where [simp]: "defaultOpenInvoiceFeeRate = rnd (5 / 100)"
definition defaultOpenMaxPendingChans :: u64 where [simp]: "defaultOpenMaxPendingChans = 1"
definition defaultInvoiceExpiration :: duration where [simp]: "defaultInvoiceExpiration = hour"
definition defaultCloseCheckInterval :: duration where [simp]: "defaultCloseCheckInterval = hour"
definition defaultCloseMinChanLifetime :: duration where [simp]: "defaultCloseMinChanLifetime = hour * 24 * 7"
definition defaultCloseMinWalletBalance :: f64 where [simp]: "defaultCloseMinWalletBalance = Fin 1"

definition lpdName :: string where
  "lpdName = ''dcrlnlpd''"

definition defaultConfigFilename :: string where
  "defaultConfigFilename = lpdName @ ''.conf''"

definition defaultConfigDir :: "('w, 'p) boot \<Rightarrow> string" where
  "defaultConfigDir B = b_AppDataDir B lpdName"

definition defaultDataDir :: "('w, 'p) boot \<Rightarrow> string" where
  "defaultDataDir B = path_Join [defaultConfigDir B, defaultDataDirname]"

definition defaultLogDir :: "('w, 'p) boot \<Rightarrow> string" where
  "defaultLogDir B = path_Join [defaultConfigDir B, defaultLogDirname, defaultActiveNet]"

definition defaultConfigFile :: "('w, 'p) boot \<Rightarrow> string" where
  "defaultConfigFile B = path_Join [defaultConfigDir B, defaultConfigFilename]"

definition macaroonPath :: "('w, 'p) boot \<Rightarrow> chainNetwork \<Rightarrow> string" where
  "macaroonPath B net = path_Join [b_AppDataDir B ''dcrlnd'', ''data'', ''chain'', ''decred'', net, ''admin.macaroon'']"

definition defaultOptions :: "('w, 'p) boot \<Rightarrow> options" where
  "defaultOptions B = \<lparr>
     o_ShowVersion = False, o_AppData = [], o_ConfigFile = defaultConfigFile B, o_DebugLevel = defaultLogLevel,
     o_Listeners = [], o_Profile = [], o_TLSCert = [], o_TLSKey = [], o_DisableTLS = False,
     o_MainNet = False, o_TestNet = False, o_SimNet = False,
     o_LNRPCHost = defaultLNHost,
     o_LNTLSCertPath = path_Join [b_AppDataDir B ''dcrlnd'', ''tls.cert''],
     o_LNMacaroonPath = macaroonPath B defaultActiveNet, o_LNNodeAddrs = [],
     o_OpenPolicy = \<lparr>oc_MinChanSize = defaultOpenMinChanSize, oc_MaxChanSize = defaultOpenMaxChanSize,
       oc_MaxNbChannels = defaultOpenMaxNbChannels, oc_MaxPendingChannels = defaultOpenMaxPendingChans,
       oc_InvoiceFeeRate = defaultOpenInvoiceFeeRate, oc_Key = [], oc_InvoiceExpiration = defaultInvoiceExpiration\<rparr>,
     o_ClosePolicy = \<lparr>cc_CheckInterval = defaultCloseCheckInterval, cc_MinChanLifetime = defaultCloseMinChanLifetime,
       cc_MinWalletBalance = defaultCloseMinWalletBalance\<rparr>,
     o_IgnorePolicy = \<lparr>ic_Channels = [], ic_Nodes = []\<rparr>, o_activeNet = []\<rparr>"

section \<open>The stages\<close>

text \<open>What the first pass decides: the command may already be done, or select two networks.\<close>

definition preCheck :: "flagsError option \<Rightarrow> options \<Rightarrow> chainNetwork res" where
  "preCheck e preCfg =
     (if e = Some FlagsHelp then Err ErrCmdDone
      else if o_ShowVersion preCfg then Err ErrCmdDone
      else if o_DebugLevel preCfg = ''show'' then Err ErrCmdDone
      else (case configuredNetwork preCfg of (_, Some e) \<Rightarrow> Err e | (net, None) \<Rightarrow> Ok net))"

definition createDefaultConfig :: "('w, 'p) boot \<Rightarrow> options \<Rightarrow> 'w bootState \<Rightarrow> unit res \<times> 'w bootState" where
  "createDefaultConfig B preCfg s =
     (if o_ConfigFile preCfg = defaultConfigFile B then
        (case b_Stat B (defaultConfigFile B) (boot_world s) of
           (Some True, w) \<Rightarrow>
             bindR (sysCall (b_MkdirAll B (defaultConfigDir B)) (s\<lparr>boot_world := w\<rparr>)) (\<lambda>_ s1.
             sysCall (b_WriteFile B (defaultConfigFile B) (b_defaultConfigFileContents B)) s1)
         | (_, w) \<Rightarrow> (Ok (), s\<lparr>boot_world := w\<rparr>))
      else (Ok (), s))"

text \<open>
  The effect of \<open>--appdata\<close>: the options, the file to read, and the data and log directories.
\<close>

definition applyAppData :: "('w, 'p) boot \<Rightarrow> options \<Rightarrow> options \<Rightarrow> options \<times> string \<times> string \<times> string" where
  "applyAppData B preCfg cfg =
     (if o_AppData preCfg = [] then (cfg, o_ConfigFile preCfg, defaultDataDir B, defaultLogDir B)
      else (let P = b_process B;
                appData = (case path_Abs (p_Getwd P) (cleanAndExpandPath P (o_AppData preCfg)) of
                    None \<Rightarrow> [] | Some d \<Rightarrow> d);
                file = (if o_ConfigFile preCfg = defaultConfigFile B
                        then path_Join [appData, defaultConfigFilename] else o_ConfigFile preCfg)
            in (cfg\<lparr>o_AppData := appData, o_ConfigFile := file\<rparr>, file,
                path_Join [appData, defaultDataDirname], path_Join [appData, defaultLogDirname, defaultActiveNet])))"

text \<open>An unreadable file is remembered for a warning at the end; any other error of it is final.\<close>

definition readConfigFile :: "('w, 'p) boot \<Rightarrow> string \<Rightarrow> options \<Rightarrow> 'w bootState \<Rightarrow>
    (options \<times> 'p) res \<times> 'w bootState" where
  "readConfigFile B file cfg s =
     (case b_ParseFile B file cfg (boot_world s) of
        ((Some (IniOther m), cfg', p), w) \<Rightarrow> (Err (ErrOther m), s\<lparr>boot_world := w\<rparr>)
      | ((_, cfg', p), w) \<Rightarrow> (Ok (cfg', p), s\<lparr>boot_world := w\<rparr>))"

definition fileDirs :: "('w, 'p) boot \<Rightarrow> options \<Rightarrow> options \<Rightarrow> string \<times> string \<Rightarrow> string \<times> string" where
  "fileDirs B preCfg cfg dirs =
     (if o_AppData cfg \<noteq> [] \<and> o_AppData preCfg = [] then
        (cleanAndExpandPath (b_process B) (path_Join [o_AppData cfg, defaultDataDirname]),
         cleanAndExpandPath (b_process B) (path_Join [o_AppData cfg, defaultLogDirname, defaultActiveNet]))
      else dirs)"

definition readCommandLine :: "('w, 'p) boot \<Rightarrow> 'p \<Rightarrow> options \<Rightarrow> (options \<times> string list) res" where
  "readCommandLine B p cfg =
     (case b_Parse B p cfg of
        (Some FlagsHelp, cfg', rest) \<Rightarrow> Err (ErrOther ''help'')
      | (Some (FlagsOther m), cfg', rest) \<Rightarrow> Err (ErrOther m)
      | (None, cfg', rest) \<Rightarrow> Ok (cfg', rest))"

definition selectNetwork :: "options \<Rightarrow> options res" where
  "selectNetwork cfg =
     (let (numNets, net) = netFlags cfg
      in if 1 < numNets then Err (ErrOther ''networks can't be used together'')
         else Ok (cfg\<lparr>o_activeNet := net\<rparr>))"

definition requires :: "bool \<Rightarrow> string \<Rightarrow> unit res \<Rightarrow> unit res" where
  "requires ok m k = (if ok then k else Err (ErrOther m))"

definition maxDcrlndChanSize :: "dcrd \<Rightarrow> f64" where
  "maxDcrlndChanSize D = ToCoin D (2 ^ 30 - 1)"

definition checkPolicyOptions :: "dcrd \<Rightarrow> options \<Rightarrow> unit res" where
  "checkPolicyOptions D cfg =
     (let op = o_OpenPolicy cfg; cp = o_ClosePolicy cfg in
      requires (\<not> f64_lt (oc_MinChanSize op) (rnd (4 / 10000))) ''openpolicy.minchansize'' (
      requires (\<not> f64_lt (maxDcrlndChanSize D) (oc_MaxChanSize op)) ''openpolicy.maxchansize'' (
      requires (\<not> oc_MaxNbChannels op \<le> 0) ''openpolicy.maxnbchannels'' (
      requires (\<not> f64_le (oc_InvoiceFeeRate op) (Fin 0)) ''openpolicy.invoicefeerate'' (
      requires (\<not> i64_lt (oc_InvoiceExpiration op) second) ''openpolicy.invoiceexpiration'' (
      requires (\<not> i64_lt (cc_CheckInterval cp) second) ''closepolicy.checkinterval'' (
      andThen (chainParamsOf D (o_activeNet cfg)) (\<lambda>params.
      requires (\<not> i64_lt (cc_MinChanLifetime cp) (TargetTimePerBlock params)) ''closepolicy.minchanlifetime'' (
      requires (\<not> f64_lt (cc_MinWalletBalance cp) (Fin 0)) ''closepolicy.minWalletbalance'' (
      Ok ()))))))))))"

definition checkTLS :: "process \<Rightarrow> options \<Rightarrow> options res" where
  "checkTLS P cfg =
     (if o_DisableTLS cfg then Ok cfg
      else if o_TLSKey cfg = [] then Err (ErrOther ''tlskey cannot be empty when TLS is enabled'')
      else if o_TLSCert cfg = [] then Err (ErrOther ''tlscert cannot be empty when TLS is enabled'')
      else Ok (cfg\<lparr>o_TLSKey := cleanAndExpandPath P (o_TLSKey cfg),
                   o_TLSCert := cleanAndExpandPath P (o_TLSCert cfg)\<rparr>))"

text \<open>\<open>initLogRotator\<close> of \<open>log.go\<close>\<close>

definition initLogRotator :: "('w, 'p) boot \<Rightarrow> string \<Rightarrow> 'w bootState \<Rightarrow> unit res \<times> 'w bootState" where
  "initLogRotator B logFile s =
     (case b_MkdirAll B (fst (path_Split logFile)) (boot_world s) of
        (Some m, w) \<Rightarrow> (Panic ''exit status 1'', s\<lparr>boot_world := w\<rparr>)
      | (None, w) \<Rightarrow>
          (case b_NewRotator B logFile w of
             (Some m, w') \<Rightarrow> (Panic ''exit status 1'', s\<lparr>boot_world := w'\<rparr>)
           | (None, w') \<Rightarrow> (Ok (), s\<lparr>boot_world := w', logRotator := Some logFile\<rparr>)))"

definition programName :: "process \<Rightarrow> string" where
  "programName P = (let name = path_Base (p_Arg0 P) in trimSuffix name (path_Ext name))"

definition logFileOf :: "('w, 'p) boot \<Rightarrow> string \<Rightarrow> options \<Rightarrow> string" where
  "logFileOf B logDir cfg =
     path_Join [replaceFirst logDir defaultActiveNet (o_activeNet cfg), programName (b_process B) @ ''.log'']"

definition startLogging :: "('w, 'p) boot \<Rightarrow> string \<Rightarrow> options \<Rightarrow> 'w bootState \<Rightarrow> unit res \<times> 'w bootState" where
  "startLogging B logDir cfg s =
     bindR (initLogRotator B (logFileOf B logDir cfg) s) (\<lambda>_ s1.
       (case parseAndSetDebugLevels (b_levelFromString B) (o_DebugLevel cfg)
               (setLogLevels (b_levelFromString B) defaultLogLevel (loggers s1)) of
          (r, L) \<Rightarrow> (r, s1\<lparr>loggers := L\<rparr>)))"

definition defaultListener :: "options \<Rightarrow> options res" where
  "defaultListener cfg =
     (if o_Listeners cfg = [] then
        andThen (defaultListenPort (o_activeNet cfg)) (\<lambda>port. Ok (cfg\<lparr>o_Listeners := [joinHostPort [] port]\<rparr>))
      else Ok cfg)"

definition checkProfile :: "options \<Rightarrow> options res" where
  "checkProfile cfg =
     (if o_Profile cfg = [] then Ok cfg
      else (let profile = (if fst (atoi (o_Profile cfg)) = None
                           then joinHostPort ''127.0.0.1'' (o_Profile cfg) else o_Profile cfg)
            in case splitHostPort profile of
                 None \<Rightarrow> Err (ErrOther ''invalid profile host/port'')
               | Some (_, portStr) \<Rightarrow>
                   (let port = snd (atoi portStr)
                    in if i64_lt port 1024 \<or> i64_lt 65535 port then Err (ErrOther ''profile port'')
                       else Ok (cfg\<lparr>o_Profile := profile\<rparr>))))"

definition expandNodePaths :: "process \<Rightarrow> options \<Rightarrow> options" where
  "expandNodePaths P cfg =
     cfg\<lparr>o_LNTLSCertPath := cleanAndExpandPath P (o_LNTLSCertPath cfg),
         o_LNMacaroonPath := cleanAndExpandPath P (o_LNMacaroonPath cfg)\<rparr>"

section \<open>loadConfig\<close>

text \<open>From the options as parsed to the ones the daemon runs with.\<close>

definition finishConfig :: "('w, 'p) boot \<Rightarrow> string \<times> string \<Rightarrow> options \<Rightarrow> 'w bootState \<Rightarrow>
    options res \<times> 'w bootState" where
  "finishConfig B dirs cfg s =
     bindR (sysCall (b_MkdirAll B (fst dirs)) s) (\<lambda>_ s.
     bindR (selectNetwork cfg, s) (\<lambda>cfg s.
     bindR (checkPolicyOptions (b_dcrd B) cfg, s) (\<lambda>_ s.
     bindR (checkTLS (b_process B) cfg, s) (\<lambda>cfg s.
     bindR (startLogging B (snd dirs) cfg s) (\<lambda>_ s.
     bindR (defaultListener cfg, s) (\<lambda>cfg s.
     bindR (checkProfile cfg, s) (\<lambda>cfg s.
       (Ok (expandNodePaths (b_process B) cfg), s))))))))"

definition loadConfig :: "('w, 'p) boot \<Rightarrow> 'w bootState \<Rightarrow> (options \<times> string list) res \<times> 'w bootState" where
  "loadConfig B s =
     (let (preErr, preCfg) = b_PreParse B (defaultOptions B) in
      bindR (preCheck preErr preCfg, s) (\<lambda>cmdLineNet s.
      let cfg = (if cmdLineNet \<noteq> defaultActiveNet
                 then defaultOptions B\<lparr>o_LNMacaroonPath := macaroonPath B cmdLineNet\<rparr> else defaultOptions B) in
      bindR (createDefaultConfig B preCfg s) (\<lambda>_ s.
      let (cfg, file, dirs) = applyAppData B preCfg cfg in
      bindR (readConfigFile B file cfg s) (\<lambda>(cfg, p) s.
      let dirs = fileDirs B preCfg cfg dirs in
      bindR (readCommandLine B p cfg, s) (\<lambda>(cfg, rest) s.
      bindR (finishConfig B dirs cfg s) (\<lambda>cfg s. (Ok (cfg, rest), s)))))))"

section \<open>What the stages guarantee\<close>

lemma requires_Ok [simp]: "requires ok m k = Ok x \<longleftrightarrow> ok \<and> k = Ok x"
  by (simp add: requires_def)

lemma requires_Panic [simp]: "requires ok m k = Panic p \<longleftrightarrow> ok \<and> k = Panic p"
  by (simp add: requires_def)

definition networks :: "chainNetwork set" where
  "networks = {cnMainNet, cnTestNet, cnSimNet}"

lemma chainParams_known: "n \<in> networks \<Longrightarrow> \<exists>p. chainParamsOf D n = Ok p"
  by (auto simp: networks_def chainParamsOf_def)

lemma listenPort_known: "n \<in> networks \<Longrightarrow> \<exists>p. defaultListenPort n = Ok p"
  by (auto simp: networks_def defaultListenPort_def)

text \<open>The network that the flags select: no two flags, and the default one without a flag.\<close>

definition selects :: "options \<Rightarrow> chainNetwork \<Rightarrow> bool" where
  "selects cfg net \<longleftrightarrow>
     (o_MainNet cfg \<longrightarrow> net = cnMainNet) \<and> (o_TestNet cfg \<longrightarrow> net = cnTestNet) \<and> (o_SimNet cfg \<longrightarrow> net = cnSimNet) \<and>
     (\<not> o_MainNet cfg \<and> \<not> o_TestNet cfg \<and> \<not> o_SimNet cfg \<longrightarrow> net = defaultActiveNet)"

lemma cn_distinct: "cnMainNet \<noteq> cnTestNet" "cnMainNet \<noteq> cnSimNet" "cnTestNet \<noteq> cnSimNet"
  by (simp_all add: cnMainNet_def cnTestNet_def cnSimNet_def)

lemma netFlags_select: "netFlags cfg = (n, net) \<Longrightarrow> net \<in> networks \<and> (n \<le> 1 \<longrightarrow> selects cfg net)"
  by (auto simp: netFlags_def networks_def selects_def defaultActiveNet_def split: if_splits)

lemma selectNetwork_Ok:
  "selectNetwork cfg = Ok cfg' \<Longrightarrow> \<exists>net. cfg' = cfg\<lparr>o_activeNet := net\<rparr> \<and> net \<in> networks \<and> selects cfg net"
  using netFlags_select [of cfg] by (cases "netFlags cfg") (auto simp: selectNetwork_def split: if_splits)

definition policyOptions :: "dcrd \<Rightarrow> options \<Rightarrow> bool" where
  "policyOptions D cfg \<longleftrightarrow>
     (let op = o_OpenPolicy cfg; cp = o_ClosePolicy cfg in
      \<not> f64_lt (oc_MinChanSize op) (rnd (4 / 10000)) \<and>
      \<not> f64_lt (maxDcrlndChanSize D) (oc_MaxChanSize op) \<and>
      oc_MaxNbChannels op \<noteq> 0 \<and>
      \<not> f64_le (oc_InvoiceFeeRate op) (Fin 0) \<and>
      i64_le second (oc_InvoiceExpiration op) \<and> i64_le second (cc_CheckInterval cp) \<and>
      (\<exists>params. chainParamsOf D (o_activeNet cfg) = Ok params \<and>
         i64_le (TargetTimePerBlock params) (cc_MinChanLifetime cp)) \<and>
      \<not> f64_lt (cc_MinWalletBalance cp) (Fin 0))"

lemma checkPolicyOptions_Ok: "checkPolicyOptions D cfg = Ok u \<longleftrightarrow> policyOptions D cfg"
  unfolding checkPolicyOptions_def policyOptions_def Let_def by (auto simp: andThen_Ok i64_not_lt)

lemma checkPolicyOptions_no_panic: "o_activeNet cfg \<in> networks \<Longrightarrow> checkPolicyOptions D cfg \<noteq> Panic m"
  using chainParams_known [of "o_activeNet cfg" D]
  unfolding checkPolicyOptions_def Let_def by (auto simp: andThen_Panic)

definition tlsOptions :: "options \<Rightarrow> bool" where
  "tlsOptions cfg \<longleftrightarrow> o_DisableTLS cfg \<or> o_TLSKey cfg \<noteq> [] \<and> o_TLSCert cfg \<noteq> []"

definition profileOptions :: "options \<Rightarrow> bool" where
  "profileOptions cfg \<longleftrightarrow> o_Profile cfg = [] \<or>
     (\<exists>host port. splitHostPort (o_Profile cfg) = Some (host, port) \<and>
        1024 \<le> sint (snd (atoi port)) \<and> sint (snd (atoi port)) \<le> 65535)"

lemma checkTLS_Ok:
  "checkTLS P cfg = Ok cfg' \<Longrightarrow> tlsOptions cfg' \<and>
     (\<exists>key cert. cfg' = cfg\<lparr>o_TLSKey := key, o_TLSCert := cert\<rparr>)"
proof -
  assume c: "checkTLS P cfg = Ok cfg'"
  show ?thesis
  proof (cases "o_DisableTLS cfg")
    case True
    with c have "cfg' = cfg\<lparr>o_TLSKey := o_TLSKey cfg, o_TLSCert := o_TLSCert cfg\<rparr>" by (simp add: checkTLS_def)
    moreover have "tlsOptions cfg'" using True c by (simp add: checkTLS_def tlsOptions_def)
    ultimately show ?thesis by blast
  next
    case False
    with c show ?thesis by (auto simp: checkTLS_def tlsOptions_def cleanAndExpandPath_ne split: if_splits)
  qed
qed

lemma options_self: "\<exists>ls. c = c\<lparr>o_Listeners := ls\<rparr>" "\<exists>p. c = c\<lparr>o_Profile := p\<rparr>"
  by (rule exI [of _ "o_Listeners c"], simp) (rule exI [of _ "o_Profile c"], simp)

lemma defaultListener_Ok:
  "defaultListener cfg = Ok cfg' \<Longrightarrow> o_Listeners cfg' \<noteq> [] \<and> (\<exists>ls. cfg' = cfg\<lparr>o_Listeners := ls\<rparr>)"
  by (auto simp: defaultListener_def andThen_Ok intro: options_self split: if_splits)

lemma checkProfile_Ok:
  "checkProfile cfg = Ok cfg' \<Longrightarrow> profileOptions cfg' \<and> (\<exists>p. cfg' = cfg\<lparr>o_Profile := p\<rparr>)"
  by (auto simp: checkProfile_def profileOptions_def Let_def i64_lt_def not_less intro: options_self
      split: if_splits option.splits)

definition validOptions :: "dcrd \<Rightarrow> options \<Rightarrow> bool" where
  "validOptions D cfg \<longleftrightarrow> o_activeNet cfg \<in> networks \<and> selects cfg (o_activeNet cfg) \<and> policyOptions D cfg \<and>
     tlsOptions cfg \<and> o_Listeners cfg \<noteq> [] \<and> profileOptions cfg"

lemma parseLevels_no_panic: "fst (parseAndSetDebugLevels lf d L) \<noteq> Panic m"
proof -
  have "fst (setLevelPairs lf ps L) \<noteq> Panic m" for ps
    by (induction ps arbitrary: L) (simp_all add: Let_def)
  then show ?thesis by (simp add: parseAndSetDebugLevels_def)
qed

lemma initLogRotator_cases:
  assumes "initLogRotator B f s = (r, t)"
  shows "r = Ok () \<and> logRotator t = Some f \<and> loggers t = loggers s \<or> r = Panic ''exit status 1''"
  using assms by (auto simp: initLogRotator_def split: prod.splits option.splits)

lemma startLogging_effect:
  assumes "startLogging B logDir cfg s = (r, t)"
  shows "(r = Ok () \<longrightarrow> logRotator t = Some (logFileOf B logDir cfg) \<and>
      parseAndSetDebugLevels (b_levelFromString B) (o_DebugLevel cfg)
        (setLogLevels (b_levelFromString B) ''info'' (loggers s)) = (Ok (), loggers t)) \<and>
    (\<forall>m. r = Panic m \<longrightarrow> m = ''exit status 1'')"
proof -
  let ?f = "logFileOf B logDir cfg" and ?lf = "b_levelFromString B"
  obtain r1 s1 where i: "initLogRotator B ?f s = (r1, s1)" by force
  obtain r2 L where p: "parseAndSetDebugLevels ?lf (o_DebugLevel cfg) (setLogLevels ?lf ''info'' (loggers s1)) = (r2, L)"
    by force
  have "r2 \<noteq> Panic m" for m
    using parseLevels_no_panic [of ?lf "o_DebugLevel cfg" "setLogLevels ?lf ''info'' (loggers s1)" m] p by simp
  with assms initLogRotator_cases [OF i] i p show ?thesis by (auto simp: startLogging_def)
qed

lemma finishConfig_Ok:
  assumes "finishConfig B dirs cfg s = (Ok cfg', t)"
  obtains net key cert ls p where "net \<in> networks" "selects cfg net"
    "cfg' = expandNodePaths (b_process B) (cfg\<lparr>o_activeNet := net, o_TLSKey := key, o_TLSCert := cert,
       o_Listeners := ls, o_Profile := p\<rparr>)"
    "policyOptions (b_dcrd B) cfg'" "tlsOptions cfg'" "ls \<noteq> []" "profileOptions cfg'"
    "logRotator t = Some (logFileOf B (snd dirs) cfg')"
    "parseAndSetDebugLevels (b_levelFromString B) (o_DebugLevel cfg')
       (setLogLevels (b_levelFromString B) ''info'' (loggers s)) = (Ok (), loggers t)"
proof -
  from assms obtain s1 cfg1 cfg2 cfg3 cfg4 where
    sys: "sysCall (b_MkdirAll B (fst dirs)) s = (Ok (), s1)"
    and net: "selectNetwork cfg = Ok cfg1" and pol: "checkPolicyOptions (b_dcrd B) cfg1 = Ok ()"
    and tls: "checkTLS (b_process B) cfg1 = Ok cfg2"
    and log: "startLogging B (snd dirs) cfg2 s1 = (Ok (), t)"
    and ls: "defaultListener cfg2 = Ok cfg3" and pro: "checkProfile cfg3 = Ok cfg4"
    and cfg': "cfg' = expandNodePaths (b_process B) cfg4"
    unfolding finishConfig_def by (auto simp: bindR_Ok_iff)
  from sys have s1: "loggers s1 = loggers s" by (auto simp: sysCall_def split: prod.splits option.splits)
  from selectNetwork_Ok [OF net] obtain n where n: "cfg1 = cfg\<lparr>o_activeNet := n\<rparr>" "n \<in> networks" "selects cfg n"
    by blast
  from checkTLS_Ok [OF tls] obtain key cert where t: "tlsOptions cfg2" "cfg2 = cfg1\<lparr>o_TLSKey := key, o_TLSCert := cert\<rparr>"
    by blast
  from defaultListener_Ok [OF ls] obtain l where l: "o_Listeners cfg3 \<noteq> []" "cfg3 = cfg2\<lparr>o_Listeners := l\<rparr>"
    by blast
  from checkProfile_Ok [OF pro] obtain p where p: "profileOptions cfg4" "cfg4 = cfg3\<lparr>o_Profile := p\<rparr>"
    by blast
  have "policyOptions (b_dcrd B) cfg1" using pol by (simp add: checkPolicyOptions_Ok)
  then have "policyOptions (b_dcrd B) cfg'"
    unfolding cfg' p(2) l(2) t(2) by (simp add: policyOptions_def expandNodePaths_def)
  moreover have "tlsOptions cfg'" "l \<noteq> []" "profileOptions cfg'"
    using t(1) l(1) p(1) unfolding cfg' p(2) l(2)
    by (simp_all add: tlsOptions_def profileOptions_def expandNodePaths_def)
  moreover have "logRotator t = Some (logFileOf B (snd dirs) cfg')"
    "parseAndSetDebugLevels (b_levelFromString B) (o_DebugLevel cfg')
       (setLogLevels (b_levelFromString B) ''info'' (loggers s)) = (Ok (), loggers t)"
    using startLogging_effect [OF log] s1 unfolding cfg' p(2) l(2)
    by (simp_all add: logFileOf_def expandNodePaths_def)
  moreover have "cfg' = expandNodePaths (b_process B) (cfg\<lparr>o_activeNet := n, o_TLSKey := key, o_TLSCert := cert,
       o_Listeners := l, o_Profile := p\<rparr>)"
    unfolding cfg' p(2) l(2) t(2) n(1) ..
  ultimately show ?thesis using n(2,3) that by blast
qed

lemma loadConfig_Ok:
  assumes "loadConfig B s = (Ok (cfg, rest), t)"
  obtains preErr preCfg net s1 s2 cfg0 fname dirs cfg1 p cfg2 where
    "b_PreParse B (defaultOptions B) = (preErr, preCfg)" "preCheck preErr preCfg = Ok net"
    "createDefaultConfig B preCfg s = (Ok (), s1)"
    "applyAppData B preCfg (if net \<noteq> defaultActiveNet
       then defaultOptions B\<lparr>o_LNMacaroonPath := macaroonPath B net\<rparr> else defaultOptions B) = (cfg0, fname, dirs)"
    "readConfigFile B fname cfg0 s1 = (Ok (cfg1, p), s2)"
    "readCommandLine B p cfg1 = Ok (cfg2, rest)"
    "finishConfig B (fileDirs B preCfg cfg1 dirs) cfg2 s2 = (Ok cfg, t)"
proof -
  obtain preErr preCfg where pre: "b_PreParse B (defaultOptions B) = (preErr, preCfg)" by force
  from assms obtain net where net: "preCheck preErr preCfg = Ok net"
    unfolding loadConfig_def pre Let_def prod.case by (auto simp: bindR_Ok_iff)
  obtain cfg0 fname dirs where app: "applyAppData B preCfg (if net \<noteq> defaultActiveNet
       then defaultOptions B\<lparr>o_LNMacaroonPath := macaroonPath B net\<rparr> else defaultOptions B) = (cfg0, fname, dirs)"
    by (rule prod_cases3)
  from assms obtain s1 cfg1 p s2 cfg2 where "createDefaultConfig B preCfg s = (Ok (), s1)"
    "readConfigFile B fname cfg0 s1 = (Ok (cfg1, p), s2)" "readCommandLine B p cfg1 = Ok (cfg2, rest)"
    "finishConfig B (fileDirs B preCfg cfg1 dirs) cfg2 s2 = (Ok cfg, t)"
    unfolding loadConfig_def pre Let_def prod.case net bindR.simps app by (auto simp: bindR_Ok_iff)
  from that [OF pre net this(1) app this(2-4)] show ?thesis .
qed

lemma stages_no_panic [simp]:
  "preCheck e c \<noteq> Panic m" "readCommandLine B p c \<noteq> Panic m" "selectNetwork c \<noteq> Panic m"
  "checkTLS P c \<noteq> Panic m" "checkProfile c \<noteq> Panic m"
  "sysCall f s \<noteq> (Panic m, t)" "createDefaultConfig B c s \<noteq> (Panic m, t)" "readConfigFile B n c s \<noteq> (Panic m, t)"
proof -
  show sys: "sysCall f s \<noteq> (Panic m, t)" for f and s t :: "'w bootState"
    by (simp add: sysCall_def split: prod.splits option.splits)
  show "createDefaultConfig B c s \<noteq> (Panic m, t)"
    using sys by (auto simp: createDefaultConfig_def bindR_Panic_iff split: prod.splits option.splits bool.splits)
  show "readConfigFile B n c s \<noteq> (Panic m, t)"
    by (simp add: readConfigFile_def split: prod.splits option.splits iniError.splits)
qed (simp_all add: preCheck_def readCommandLine_def selectNetwork_def checkTLS_def checkProfile_def Let_def
    split: prod.splits option.splits flagsError.splits)

lemma finishConfig_panic:
  assumes "finishConfig B dirs cfg s = (Panic m, t)"
  shows "m = ''exit status 1''"
proof -
  have net: "o_activeNet c \<in> networks" if "selectNetwork cfg = Ok c" for c
    using selectNetwork_Ok [OF that] by auto
  have tls: "o_activeNet c' = o_activeNet c" if "checkTLS P c = Ok c'" for P c c'
    using checkTLS_Ok [OF that] by auto
  have lis: "defaultListener c \<noteq> Panic m'" if "o_activeNet c \<in> networks" for c m'
    using listenPort_known [OF that] by (auto simp: defaultListener_def)
  from assms show ?thesis
    unfolding finishConfig_def bindR_Panic_iff
    using net tls lis checkPolicyOptions_no_panic startLogging_effect by (fastforce simp: bindR_Panic_iff)
qed

lemma loadConfig_panic:
  assumes "loadConfig B s = (Panic m, t)"
  shows "m = ''exit status 1''"
proof -
  obtain preErr preCfg where pre: "b_PreParse B (defaultOptions B) = (preErr, preCfg)" by force
  show ?thesis
  proof (cases "preCheck preErr preCfg")
    case (Ok net)
    obtain cfg0 fname dirs where app: "applyAppData B preCfg (if net \<noteq> defaultActiveNet
       then defaultOptions B\<lparr>o_LNMacaroonPath := macaroonPath B net\<rparr> else defaultOptions B) = (cfg0, fname, dirs)"
      by (rule prod_cases3)
    from assms show ?thesis
      unfolding loadConfig_def pre Let_def prod.case Ok bindR.simps app
      by (auto simp: bindR_Panic_iff dest: finishConfig_panic)
  qed (use assms pre in \<open>simp_all add: loadConfig_def\<close>)
qed

lemma accepted_valid:
  assumes "loadConfig B s = (r, t)"
  shows "(\<forall>cfg rest. r = Ok (cfg, rest) \<longrightarrow> validOptions (b_dcrd B) cfg \<and> logRotator t \<noteq> None \<and>
      (\<exists>L. parseAndSetDebugLevels (b_levelFromString B) (o_DebugLevel cfg) L = (Ok (), loggers t))) \<and>
    (\<forall>m. r = Panic m \<longrightarrow> m = ''exit status 1'')"
proof (intro conjI allI impI)
  fix cfg rest assume r: "r = Ok (cfg, rest)"
  from assms [unfolded r] obtain dirs cfg2 s2 where "finishConfig B dirs cfg2 s2 = (Ok cfg, t)"
    by (rule loadConfig_Ok)
  then obtain net key cert ls p where f: "net \<in> networks" "selects cfg2 net"
    "cfg = expandNodePaths (b_process B) (cfg2\<lparr>o_activeNet := net, o_TLSKey := key, o_TLSCert := cert,
       o_Listeners := ls, o_Profile := p\<rparr>)"
    "policyOptions (b_dcrd B) cfg" "tlsOptions cfg" "ls \<noteq> []" "profileOptions cfg"
    and log: "logRotator t = Some (logFileOf B (snd dirs) cfg)"
    "parseAndSetDebugLevels (b_levelFromString B) (o_DebugLevel cfg)
       (setLogLevels (b_levelFromString B) ''info'' (loggers s2)) = (Ok (), loggers t)"
    by (rule finishConfig_Ok)
  from f(4-7) show "validOptions (b_dcrd B) cfg"
    using f(1,2) unfolding validOptions_def f(3) by (simp add: expandNodePaths_def selects_def)
  show "logRotator t \<noteq> None" using log(1) by simp
  show "\<exists>L. parseAndSetDebugLevels (b_levelFromString B) (o_DebugLevel cfg) L = (Ok (), loggers t)"
    using log(2) by blast
next
  fix m assume "r = Panic m"
  with assms show "m = ''exit status 1''" by (auto dest: loadConfig_panic)
qed

section \<open>Properties\<close>

text \<open>
  C29. Every configuration that \<open>loadConfig\<close> accepts, whatever the option parser makes of the command line
  and the file, is valid: one known network, selected by at most one flag; policy options within their
  bounds; a key and a certificate unless TLS is off; a listener; a profiling port from 1024 to 65535; debug
  levels that parse. It never panics: the only abrupt end is the exit when the log file cannot be set up.
\<close>

theorem accepted_options_valid:
  assumes "loadConfig B s = (r, t)"
  shows "(\<forall>cfg rest. r = Ok (cfg, rest) \<longrightarrow> validOptions (b_dcrd B) cfg \<and> logRotator t \<noteq> None \<and>
      (\<exists>L. parseAndSetDebugLevels (b_levelFromString B) (o_DebugLevel cfg) L = (Ok (), loggers t))) \<and>
    (\<forall>m. r = Panic m \<longrightarrow> m = ''exit status 1'')"
  using accepted_valid [OF assms] .

end
