(* ===== verification/Config_Bounds.thy ===== *)
theory Config_Bounds
  imports Load_Config
begin

text \<open>
  What the accepted options mean for the server: \<open>loadConfig\<close> and \<open>serverConfig\<close> together. The only facts
  used of \<open>dcrutil.Amount\<close> are in \<open>amounts\<close>: it is a number of atoms, a hundred millionth of a coin, and
  the conversions are accurate to the float's precision.
\<close>

definition amounts :: "dcrd \<Rightarrow> bool" where
  "amounts D \<longleftrightarrow>
     (\<forall>x a. \<bar>x\<bar> \<le> 20000 \<longrightarrow> NewAmount D (Fin x) = Inr a \<longrightarrow> \<bar>of_int (sint a) - x * 10 ^ 8\<bar> \<le> 501 / 1000) \<and>
     (\<exists>c. ToCoin D (2 ^ 30 - 1) = Fin c \<and> \<bar>c - (2 ^ 30 - 1) / 10 ^ 8\<bar> \<le> 1 / 10 ^ 12)"

lemma least_chan_size: "\<not> f64_lt (Fin x) (rnd (4 / 10000)) \<Longrightarrow> 3999999 / 10000000000 \<le> x"
proof -
  assume x: "\<not> f64_lt (Fin x) (rnd (4 / 10000))"
  have r: "rnd (4 / 10000) = Fin (rnd_rat (4 / 10000))"
    by (rule rnd_bounded) (rule order_trans [of _ 1], simp_all add: one_le_power)
  have "pow2 (- 1022) \<le> pow2 (- 12)" by (rule pow2_mono) simp
  also have "\<dots> \<le> \<bar>4 / 10000\<bar>" by (simp add: power_int_minus)
  finally have "\<bar>rnd_rat (4 / 10000) - 4 / 10000\<bar> \<le> \<bar>4 / 10000\<bar> / 2 ^ 53" by (rule rnd_rat_rel_error)
  also have "\<dots> \<le> 1 / 10000000000" by simp
  finally have "3999999 / 10000000000 \<le> rnd_rat (4 / 10000)" by (auto simp only: abs_le_iff)
  then show ?thesis using x r by simp
qed

lemma atoms_lower:
  fixes x :: rat
  assumes "\<bar>of_int n - x * 10 ^ 8\<bar> \<le> 501 / 1000" and "of_int m \<le> x * 10 ^ 8 + 1 / 100"
  shows "m \<le> n"
proof -
  have "of_int m < (of_int n + 1 :: rat)" using assms unfolding abs_le_iff by linarith
  then have "of_int m < (of_int (n + 1) :: rat)" by simp
  then have "m < n + 1" unfolding of_int_less_iff .
  then show ?thesis by simp
qed

lemma atoms_upper:
  fixes x :: rat
  assumes "\<bar>of_int n - x * 10 ^ 8\<bar> \<le> 501 / 1000" and "x * 10 ^ 8 \<le> of_int m + 1 / 100"
  shows "n \<le> m"
proof -
  have "of_int n < (of_int m + 1 :: rat)" using assms unfolding abs_le_iff by linarith
  then have "of_int n < (of_int (m + 1) :: rat)" by simp
  then have "n < m + 1" unfolding of_int_less_iff .
  then show ?thesis by simp
qed

lemma sint_uint_i64: "sint (a :: i64) = (if uint a < 2 ^ 63 then uint a else uint a - 2 ^ 64)"
proof -
  have a: "0 \<le> uint a" "uint a < 2 ^ 64" using uint_lt2p [of a] by simp_all
  have "sint a = sint (word_of_int (uint a) :: i64)" by simp
  also have "\<dots> = (uint a + 2 ^ 63) mod 2 ^ 64 - 2 ^ 63" by (simp only: int_word_sint) simp
  also have "\<dots> = (if uint a < 2 ^ 63 then uint a else uint a - 2 ^ 64)"
  proof (cases "uint a < 2 ^ 63")
    case False
    have "(uint a + 2 ^ 63) mod 2 ^ 64 = (uint a - 2 ^ 63 + 2 ^ 64) mod 2 ^ 64" by (simp add: add.commute)
    also have "\<dots> = (uint a - 2 ^ 63) mod 2 ^ 64" by (rule mod_add_self2)
    also have "\<dots> = uint a - 2 ^ 63"
      by (rule mod_pos_pos_trivial) (use a False in simp_all)
    finally have "(uint a + 2 ^ 63) mod 2 ^ 64 = uint a - 2 ^ 63" .
    with False show ?thesis by simp
  qed (use a in simp)
  finally show ?thesis .
qed

lemma stringSet_set: "stringSet xs = set xs"
  by (simp add: stringSet_def union_set_fold [symmetric])

lemma serverConfig_Ok:
  "serverConfig D c = Ok sc \<Longrightarrow>
     NewAmount D (oc_MinChanSize (o_OpenPolicy c)) = Inr (MinChanSize sc) \<and>
     NewAmount D (oc_MaxChanSize (o_OpenPolicy c)) = Inr (MaxChanSize sc) \<and>
     NewAmount D (cc_MinWalletBalance (o_ClosePolicy c)) = Inr (MinWalletBalance sc) \<and>
     chainParamsOf D (o_activeNet c) = Ok (ChainParams sc) \<and>
     RootDir sc = path_Join [o_AppData c, o_activeNet c] \<and>
     MaxNbChannels sc = oc_MaxNbChannels (o_OpenPolicy c) \<and>
     InvoiceExpiration sc = oc_InvoiceExpiration (o_OpenPolicy c) \<and>
     CloseCheckInterval sc = cc_CheckInterval (o_ClosePolicy c) \<and>
     MinChanLifetime sc = cc_MinChanLifetime (o_ClosePolicy c) \<and>
     ChanInvoiceFeeRate sc = oc_InvoiceFeeRate (o_OpenPolicy c) \<and>
     IgnoreNodes sc = set (ic_Nodes (o_IgnorePolicy c)) \<and>
     IgnoreChannels sc = set (ic_Channels (o_IgnorePolicy c)) \<and>
     (CreateKey sc = None \<longleftrightarrow> oc_Key (o_OpenPolicy c) = []) \<and>
     (\<forall>k. CreateKey sc = Some k \<longrightarrow> k = oc_Key (o_OpenPolicy c))"
  by (auto simp: serverConfig_def andThen_Ok newAmount_def stringSet_set split: sum.splits if_splits)

lemma root_plain: "n \<in> networks \<Longrightarrow> path_Join [[], n] = n"
  by (auto simp: networks_def cnMainNet_def cnTestNet_def cnSimNet_def path_Join_def path_Clean_def clean_step_def Let_def)

text \<open>
  C28. From the command line to the server's policy: of accepted options, the server enforces a smallest
  channel of at least 40000 atoms, at most \<open>2^30 - 1\<close> atoms for the largest one when \<open>maxchansize\<close> is not
  negative, and waits of at least a second, on the chain that the flags select; the key, the sets of ignored
  nodes and channels and the fee rate are those of the options, the rate being positive or not a number. A
  negative \<open>maxchansize\<close> is accepted too and becomes a bound of at least \<open>2^63\<close> atoms, and with no
  application directory given the server's files go to a directory relative to where it was started.
\<close>

theorem server_policy_bounds:
  assumes "loadConfig B s = (Ok (cfg, rest), t)" and "serverConfig (b_dcrd B) cfg = Ok sc"
    and "amounts (b_dcrd B)"
    and "oc_MinChanSize (o_OpenPolicy cfg) = Fin x" and "x \<le> 20000"
    and "oc_MaxChanSize (o_OpenPolicy cfg) = Fin y" and "- 20000 \<le> y"
  shows "40000 \<le> uint (MinChanSize sc) \<and>
    (0 \<le> y \<longrightarrow> uint (MaxChanSize sc) < 2 ^ 30) \<and> (y \<le> - (1 / 10 ^ 8) \<longrightarrow> 2 ^ 63 \<le> uint (MaxChanSize sc)) \<and>
    (\<exists>net \<in> networks. selects cfg net \<and> chainParamsOf (b_dcrd B) net = Ok (ChainParams sc) \<and>
       (o_AppData cfg = [] \<longrightarrow> RootDir sc = net)) \<and>
    0 < MaxNbChannels sc \<and>
    10 ^ 9 \<le> sint (InvoiceExpiration sc) \<and> 10 ^ 9 \<le> sint (CloseCheckInterval sc) \<and>
    sint (TargetTimePerBlock (ChainParams sc)) \<le> sint (MinChanLifetime sc) \<and>
    (ChanInvoiceFeeRate sc = NaN \<or> f64_lt (Fin 0) (ChanInvoiceFeeRate sc)) \<and>
    IgnoreNodes sc = set (ic_Nodes (o_IgnorePolicy cfg)) \<and>
    IgnoreChannels sc = set (ic_Channels (o_IgnorePolicy cfg))"
proof -
  have valid: "validOptions (b_dcrd B) cfg" using accepted_valid [OF assms(1)] by simp
  note pol = valid [unfolded validOptions_def policyOptions_def Let_def]
  note sc = serverConfig_Ok [OF assms(2)]
  have min: "40000 \<le> sint (MinChanSize sc)"
  proof -
    have "\<not> f64_lt (Fin x) (rnd (4 / 10000))" using pol assms(4) by simp
    then have x: "3999999 / 10000000000 \<le> x" by (rule least_chan_size)
    then have "\<bar>x\<bar> \<le> 20000" using assms(5) by simp
    then have "\<bar>of_int (sint (MinChanSize sc)) - x * 10 ^ 8\<bar> \<le> 501 / 1000"
      using assms(3,4) sc by (simp add: amounts_def)
    then show ?thesis by (rule atoms_lower) (use x in simp)
  qed
  obtain c where c: "ToCoin (b_dcrd B) (2 ^ 30 - 1) = Fin c" "\<bar>c - (2 ^ 30 - 1) / 10 ^ 8\<bar> \<le> 1 / 10 ^ 12"
    using assms(3) unfolding amounts_def by blast
  have "\<not> f64_lt (Fin c) (Fin y)" using pol assms(6) c(1) by (simp add: maxDcrlndChanSize_def)
  then have "y \<le> c" by simp
  moreover have "c - (2 ^ 30 - 1) / 10 ^ 8 \<le> 1 / 10 ^ 12" using c(2) by (auto simp only: abs_le_iff)
  ultimately have y: "y \<le> (2 ^ 30 - 1) / 10 ^ 8 + 1 / 10 ^ 12" by linarith
  then have "\<bar>y\<bar> \<le> 20000" using assms(7) by (simp add: abs_le_iff)
  then have maxs: "\<bar>of_int (sint (MaxChanSize sc)) - y * 10 ^ 8\<bar> \<le> 501 / 1000"
    using assms(3,6) sc by (simp add: amounts_def)
  have "sint (MaxChanSize sc) \<le> 2 ^ 30 - 1" by (rule atoms_upper [OF maxs]) (use y in simp)
  moreover have "0 \<le> sint (MaxChanSize sc)" if "0 \<le> y" by (rule atoms_lower [OF maxs]) (use that in simp)
  moreover have "sint (MaxChanSize sc) \<le> - 1" if "y \<le> - (1 / 10 ^ 8)"
    by (rule atoms_upper [OF maxs]) (use that in simp)
  moreover have "\<not> uint (MaxChanSize sc) \<le> - 1" "uint (MaxChanSize sc) < 2 ^ 64"
    using uint_lt2p [of "MaxChanSize sc"] uint_ge_0 [of "MaxChanSize sc"] by (linarith, simp)
  ultimately have max: "(0 \<le> y \<longrightarrow> uint (MaxChanSize sc) < 2 ^ 30) \<and>
      (y \<le> - (1 / 10 ^ 8) \<longrightarrow> 2 ^ 63 \<le> uint (MaxChanSize sc))"
    by (auto simp: sint_uint_i64 split: if_splits)
  have net: "\<exists>net \<in> networks. selects cfg net \<and> chainParamsOf (b_dcrd B) net = Ok (ChainParams sc) \<and>
       (o_AppData cfg = [] \<longrightarrow> RootDir sc = net)"
    using pol sc root_plain by (intro bexI [of _ "o_activeNet cfg"]) auto
  have "sint (TargetTimePerBlock (ChainParams sc)) \<le> sint (MinChanLifetime sc)"
    using pol sc by (auto simp: i64_le_def)
  moreover have "10 ^ 9 \<le> sint (InvoiceExpiration sc)" "10 ^ 9 \<le> sint (CloseCheckInterval sc)"
    using pol sc by (auto simp: i64_le_def)
  moreover have "ChanInvoiceFeeRate sc = NaN \<or> f64_lt (Fin 0) (ChanInvoiceFeeRate sc)"
    using pol sc f64_not_lt [of "Fin 0" "ChanInvoiceFeeRate sc"] by auto
  moreover have "0 < MaxNbChannels sc" using pol sc by (simp add: word_gt_0)
  moreover have "40000 \<le> uint (MinChanSize sc)" using min by (simp add: sint_uint_i64 split: if_splits)
  ultimately show ?thesis using max net sc by (intro conjI) simp_all
qed

text \<open>The options that nobody has set pass the checks of the policy, on a chain whose blocks come at least weekly.\<close>

lemma default_policy:
  assumes "amounts D" and "chainParamsOf D net = Ok params" and "i64_le (TargetTimePerBlock params) defaultCloseMinChanLifetime"
  shows "policyOptions D ((defaultOptions B)\<lparr>o_activeNet := net\<rparr>)"
proof -
  have small: "rnd q = Fin (rnd_rat q) \<and> \<bar>rnd_rat q - q\<bar> \<le> \<bar>q\<bar> / 2 ^ 53" if "pow2 (- 12) \<le> q" "q \<le> 1" for q :: rat
  proof
    have "0 < q" using less_le_trans [OF _ that(1), of 0] by (simp add: power_int_minus)
    then show "rnd q = Fin (rnd_rat q)"
      using that(2) by (intro rnd_bounded) (rule order_trans [of _ 1], simp_all add: one_le_power)
    have "pow2 (- 1022) \<le> pow2 (- 12)" by (rule pow2_mono) simp
    with that(1) \<open>0 < q\<close> show "\<bar>rnd_rat q - q\<bar> \<le> \<bar>q\<bar> / 2 ^ 53" by (intro rnd_rat_rel_error) simp
  qed
  from assms(1) obtain c where c: "maxDcrlndChanSize D = Fin c" "\<bar>c - (2 ^ 30 - 1) / 10 ^ 8\<bar> \<le> 1 / 10 ^ 12"
    by (auto simp: amounts_def maxDcrlndChanSize_def)
  then have "1 \<le> c" unfolding abs_le_iff by simp
  moreover have "0 < rnd_rat (5 / 100)"
    using small [of "5 / 100"] unfolding abs_le_iff by (simp add: power_int_minus)
  ultimately show ?thesis
    using small [of "4 / 10000"] small [of "5 / 100"] c(1) assms(2,3)
    by (simp add: policyOptions_def defaultOptions_def power_int_minus i64_le_def)
qed

section \<open>A concrete start\<close>

text \<open>
  A run without a configuration file, on the simulation network: the parser puts in the options of the
  command line, every call succeeds, and amounts are rounded exactly.
\<close>

definition sampleDcrd :: dcrd where
  "sampleDcrd = \<lparr>MainNetParams = \<lparr>Name = ''mainnet'', TargetTimePerBlock = 5 * minute\<rparr>,
     TestNet3Params = \<lparr>Name = ''testnet3'', TargetTimePerBlock = 2 * minute\<rparr>,
     SimNetParams = \<lparr>Name = ''simnet'', TargetTimePerBlock = second\<rparr>,
     NewAmount = \<lambda>x. (case x of Fin r \<Rightarrow> Inr (word_of_int (rne (r * 10 ^ 8))) | _ \<Rightarrow> Inl ''invalid coin amount''),
     ToCoin = \<lambda>a. Fin (of_int (sint a) / 10 ^ 8)\<rparr>"

definition commandLine :: options where
  "commandLine = sampleOptions\<lparr>o_activeNet := [], o_Listeners := []\<rparr>"

definition sampleBoot :: "(int, unit) boot" where
  "sampleBoot = \<lparr>b_PreParse = \<lambda>c. (None, c\<lparr>o_SimNet := True\<rparr>),
     b_ParseFile = \<lambda>_ c w. ((Some (PathError ''no such file''), c, ()), w),
     b_Parse = \<lambda>_ c. (None, commandLine, []),
     b_Stat = \<lambda>_ w. (None, w), b_MkdirAll = \<lambda>_ w. (None, w), b_WriteFile = \<lambda>_ _ w. (None, w),
     b_NewRotator = \<lambda>_ w. (None, w), b_AppDataDir = \<lambda>n. ''/home/lp/.'' @ n,
     b_defaultConfigFileContents = [], b_levelFromString = sampleLevels,
     b_process = sampleProcess, b_dcrd = sampleDcrd\<rparr>"

definition sampleBootState :: "int \<Rightarrow> int bootState" where
  "sampleBootState w = \<lparr>boot_world = w, loggers = [''MAIN'' \<mapsto> 2, ''SRVR'' \<mapsto> 2], logRotator = None\<rparr>"

lemma sample_amounts: "amounts sampleDcrd"
proof -
  have "\<bar>of_int (sint (word_of_int (rne (x * 10 ^ 8)) :: i64)) - x * 10 ^ 8\<bar> \<le> 501 / 1000" if x: "\<bar>x\<bar> \<le> 20000" for x :: rat
  proof -
    have b: "rne (x * 10 ^ 8) \<le> 2 * 10 ^ 12" "- (2 * 10 ^ 12) \<le> rne (x * 10 ^ 8)"
      using x by (auto intro: rne_upper rne_lower simp: abs_le_iff)
    then have "sint (word_of_int (rne (x * 10 ^ 8)) :: i64) = rne (x * 10 ^ 8)"
      by (intro sint_of_int_small) simp_all
    moreover have "\<bar>of_int (rne (x * 10 ^ 8)) - x * 10 ^ 8\<bar> \<le> 501 / 1000"
      by (rule order_trans [OF rne_error]) simp
    ultimately show ?thesis by simp
  qed
  moreover have "NewAmount sampleDcrd (Fin x) = Inr a \<Longrightarrow> a = word_of_int (rne (x * 10 ^ 8))" for x a
    by (simp add: sampleDcrd_def)
  moreover have "\<exists>c. ToCoin sampleDcrd (2 ^ 30 - 1) = Fin c \<and> \<bar>c - (2 ^ 30 - 1) / 10 ^ 8\<bar> \<le> 1 / 10 ^ 12"
    by (rule exI [of _ "(2 ^ 30 - 1) / 10 ^ 8"]) (simp add: sampleDcrd_def)
  ultimately show ?thesis unfolding amounts_def by blast
qed

lemma sample_policy_options: "checkPolicyOptions sampleDcrd (commandLine\<lparr>o_activeNet := cnSimNet\<rparr>) = Ok ()"
proof -
  have "rnd (1 / 1024) = Fin (1 / 1024)"
  proof -
    have "rnd_rat (1 / 1024) = 1 / 1024"
      by (rule rnd_rat_dyadic [of 1 "- 10"]) (simp_all add: power_int_minus)
    moreover have "\<bar>1 / 1024 :: rat\<bar> \<le> 2 ^ 1023" by (rule order_trans [of _ 1]) (simp_all add: one_le_power)
    ultimately show ?thesis by (simp add: rnd_bounded)
  qed
  then have "f64_le (rnd (4 / 10000)) (Fin (1 / 1024))" using rnd_mono [of "4 / 10000" "1 / 1024"] by simp
  then have "\<not> f64_lt (Fin (1 / 1024)) (rnd (4 / 10000))"
    using f64_not_lt [of "Fin (1 / 1024)" "rnd (4 / 10000)"] by simp
  moreover have "chainParamsOf sampleDcrd cnSimNet = Ok (SimNetParams sampleDcrd)"
    using cn_distinct by (simp add: chainParamsOf_def)
  moreover have "\<not> f64_lt (maxDcrlndChanSize sampleDcrd) (Fin 1)" by (simp add: maxDcrlndChanSize_def sampleDcrd_def)
  ultimately have "policyOptions sampleDcrd (commandLine\<lparr>o_activeNet := cnSimNet\<rparr>)"
    by (simp add: policyOptions_def commandLine_def sampleOptions_def i64_le_def) (simp add: sampleDcrd_def)
  then show ?thesis by (simp add: checkPolicyOptions_Ok)
qed

lemma sample_finish:
  "\<exists>t. finishConfig sampleBoot dirs commandLine (sampleBootState w) =
     (Ok (expandNodePaths sampleProcess (sampleOptions\<lparr>o_Listeners := ['':29130'']\<rparr>)), t)"
proof -
  let ?c = "commandLine\<lparr>o_activeNet := cnSimNet\<rparr>"
  let ?d = "sampleOptions\<lparr>o_Listeners := ['':29130'']\<rparr>"
  have sys: "sysCall (b_MkdirAll sampleBoot p) s = (Ok (), s)" for p and s :: "int bootState"
    by (simp add: sysCall_def sampleBoot_def)
  have net: "selectNetwork commandLine = Ok ?c"
    by (simp add: selectNetwork_def netFlags_def commandLine_def sampleOptions_def)
  have tls: "checkTLS P ?c = Ok ?c" for P
    by (simp add: checkTLS_def commandLine_def sampleOptions_def)
  have lev: "parseAndSetDebugLevels sampleLevels (o_DebugLevel commandLine) L = (Ok (), setLogLevels sampleLevels ''info'' L)" for L
    by (simp add: parseAndSetDebugLevels_def commandLine_def sampleOptions_def validLogLevel_def sampleLevels_def)
  have "\<exists>t. initLogRotator sampleBoot f s = (Ok (), t)" for f and s :: "int bootState"
    by (simp add: initLogRotator_def sampleBoot_def)
  then obtain t1 where "initLogRotator sampleBoot (logFileOf sampleBoot (snd dirs) ?c) (sampleBootState w) = (Ok (), t1)"
    by blast
  moreover have "b_levelFromString sampleBoot = sampleLevels" by (simp add: sampleBoot_def)
  ultimately have log: "\<exists>t. startLogging sampleBoot (snd dirs) ?c (sampleBootState w) = (Ok (), t)"
    by (simp add: startLogging_def lev)
  have lis: "defaultListener ?c = Ok ?d"
    using cn_distinct
    by (simp add: defaultListener_def commandLine_def sampleOptions_def defaultListenPort_def joinHostPort_def)
  have pro: "checkProfile ?d = Ok ?d" by (simp add: checkProfile_def sampleOptions_def)
  have "b_dcrd sampleBoot = sampleDcrd" "b_process sampleBoot = sampleProcess" by (simp_all add: sampleBoot_def)
  then show ?thesis using log by (auto simp: finishConfig_def sys net sample_policy_options tls lis pro)
qed

lemma sample_load:
  "\<exists>t. loadConfig sampleBoot (sampleBootState w) =
     (Ok (expandNodePaths sampleProcess (sampleOptions\<lparr>o_Listeners := ['':29130'']\<rparr>), []), t)"
proof -
  let ?p = "defaultOptions sampleBoot\<lparr>o_SimNet := True\<rparr>"
  have pre: "b_PreParse sampleBoot (defaultOptions sampleBoot) = (None, ?p)" by (simp add: sampleBoot_def)
  have chk: "preCheck None ?p = Ok cnSimNet"
    by (simp add: preCheck_def configuredNetwork_def netFlags_def defaultOptions_def)
  have cre: "createDefaultConfig sampleBoot ?p (sampleBootState w) = (Ok (), (sampleBootState w))"
    by (simp add: createDefaultConfig_def sampleBoot_def sampleBootState_def)
  obtain cfg0 fname dirs where app: "applyAppData sampleBoot ?p (if cnSimNet \<noteq> defaultActiveNet
       then defaultOptions sampleBoot\<lparr>o_LNMacaroonPath := macaroonPath sampleBoot cnSimNet\<rparr>
       else defaultOptions sampleBoot) = (cfg0, fname, dirs)"
    by (rule prod_cases3)
  have rd: "readConfigFile sampleBoot fname cfg0 (sampleBootState w) = (Ok (cfg0, ()), (sampleBootState w))"
    by (simp add: readConfigFile_def sampleBoot_def sampleBootState_def)
  have cl: "readCommandLine sampleBoot () cfg0 = Ok (commandLine, [])"
    by (simp add: readCommandLine_def sampleBoot_def)
  obtain t where "finishConfig sampleBoot (fileDirs sampleBoot ?p cfg0 dirs) commandLine (sampleBootState w) =
     (Ok (expandNodePaths sampleProcess (sampleOptions\<lparr>o_Listeners := ['':29130'']\<rparr>)), t)"
    using sample_finish by blast
  then show ?thesis
    unfolding loadConfig_def pre Let_def prod.case chk bindR.simps cre app rd cl by simp
qed

definition sampleFinal :: options where
  "sampleFinal = expandNodePaths sampleProcess (sampleOptions\<lparr>o_Listeners := ['':29130'']\<rparr>)"

lemma sampleFinal_simps:
  "o_OpenPolicy sampleFinal = o_OpenPolicy sampleOptions" "o_ClosePolicy sampleFinal = o_ClosePolicy sampleOptions"
  "o_activeNet sampleFinal = cnSimNet" "o_AppData sampleFinal = []" "selects sampleFinal = (\<lambda>net. net = cnSimNet)"
  "o_Profile sampleFinal = []" "o_Listeners sampleFinal = ['':29130'']" "o_DisableTLS sampleFinal"
  by (auto simp: sampleFinal_def expandNodePaths_def sampleOptions_def selects_def)

lemma sample_serverConfig:
  "\<exists>sc. serverConfig sampleDcrd sampleFinal = Ok sc \<and> ChainParams sc = SimNetParams sampleDcrd"
proof -
  have amt: "\<exists>a. NewAmount sampleDcrd (Fin r) = Inr a" for r by (simp add: sampleDcrd_def)
  have "chainParamsOf sampleDcrd cnSimNet = Ok (SimNetParams sampleDcrd)"
    using cn_distinct by (simp add: chainParamsOf_def)
  then show ?thesis
    using amt [of "1 / 1024"] amt [of 1] by (auto simp: serverConfig_def newAmount_def sampleFinal_simps sampleOptions_def)
qed

theorem accepted_options_valid_witness: "validOptions sampleDcrd sampleFinal"
proof -
  obtain t where "loadConfig sampleBoot (sampleBootState 0) = (Ok (sampleFinal, []), t)"
    using sample_load by (auto simp: sampleFinal_def)
  from accepted_options_valid [OF this] show ?thesis by (simp add: sampleBoot_def)
qed

theorem server_policy_bounds_witness:
  "\<exists>sc. serverConfig sampleDcrd sampleFinal = Ok sc \<and> 40000 \<le> uint (MinChanSize sc) \<and> uint (MaxChanSize sc) < 2 ^ 30 \<and>
     RootDir sc = ''simnet''"
proof -
  obtain t where t: "loadConfig sampleBoot (sampleBootState 0) = (Ok (sampleFinal, []), t)"
    using sample_load by (auto simp: sampleFinal_def)
  have D: "b_dcrd sampleBoot = sampleDcrd" by (simp add: sampleBoot_def)
  obtain sc where sc: "serverConfig sampleDcrd sampleFinal = Ok sc" using sample_serverConfig by blast
  have "40000 \<le> uint (MinChanSize sc) \<and> uint (MaxChanSize sc) < 2 ^ 30 \<and> RootDir sc = cnSimNet"
    using server_policy_bounds [OF t, unfolded D, OF sc sample_amounts, of "1 / 1024" 1] sampleFinal_simps
    by (auto simp: sampleOptions_def)
  with sc show ?thesis by (auto simp: cnSimNet_def)
qed

end
