(* ===== verification/Request_Util.thy ===== *)
theory Request_Util
  imports Go_Net Server_System
begin

text \<open>
  \<open>util.go\<close> and the handlers of \<open>main.go\<close>: where a request comes from, and who may read the daemon's
  channel report at \<open>/info\<close>. A request is its remote address and its headers, a map from names to
  values as \<open>net/http\<close> builds it.
\<close>

record request =
  RemoteAddr :: string
  Header :: "string \<rightharpoonup> string list"

definition proxyHeaders :: "string list" where
  "proxyHeaders = [''X-Forwarded-For'', ''X-Real-IP'']"

definition headerValues :: "request \<Rightarrow> string list" where
  "headerValues req = concat (map (\<lambda>h. case Header req h of None \<Rightarrow> [] | Some vs \<Rightarrow> vs) proxyHeaders)"

definition requestAddr :: "request \<Rightarrow> string" where
  "requestAddr req = RemoteAddr req @ concat (map trimSpace (headerValues req))"

definition isLoopback :: "string \<Rightarrow> bool" where
  "isLoopback addr = (case parseIP addr of None \<Rightarrow> False | Some ip \<Rightarrow> isLoopbackIP ip)"

text \<open>The nested loops over headers, values and comma-separated parts, with their early exit.\<close>

fun anyLoopback :: "string list \<Rightarrow> bool" where
  "anyLoopback [] = False"
| "anyLoopback (ipStr # ips) = (if isLoopback (trimSpace ipStr) then True else anyLoopback ips)"

definition isReqFromLocalhost :: "request \<Rightarrow> bool" where
  "isReqFromLocalhost req =
     (if anyLoopback (concat (map (split_at (CHR '','')) (headerValues req))) then True
      else isLoopback (case splitHostPort (RemoteAddr req) of None \<Rightarrow> RemoteAddr req | Some (host, _) \<Rightarrow> host))"

section \<open>The handlers of main.go\<close>

definition appName :: string where
  "appName = ''dcrlnlpd''"

definition indexHandler :: "string \<Rightarrow> string" where
  "indexHandler version = appName @ [CHR 0x0A] @ version @ [CHR 0x0A]"

datatype infoReply = Info managementInfo | InfoStatus nat | InfoDropped

text \<open>\<open>newInfoHandler\<close>; the JSON text of the report is left to the encoder.\<close>

definition infoHandler :: "sorter \<Rightarrow> 'w env \<Rightarrow> config \<Rightarrow> request \<Rightarrow> 'w sys \<Rightarrow> infoReply \<times> 'w sys" where
  "infoHandler srt E cfg req s =
     (if \<not> isReqFromLocalhost req then (InfoStatus 403, s)
      else (case FetchManagedChannels srt E cfg s of
              (Ok info, s1) \<Rightarrow> (Info info, s1)
            | (Err e, s1) \<Rightarrow> (InfoStatus 500, s1)
            | (Panic m, s1) \<Rightarrow> (InfoDropped, s1)))"

section \<open>Header names\<close>

text \<open>
  \<open>textproto.CanonicalMIMEHeaderKey\<close>, which \<open>net/http\<close> applies to every name it reads: the first
  letter and each letter after a hyphen upper case, the others lower case; a name with a byte that
  no header name may have is left as it is.
\<close>

definition token_byte :: "char \<Rightarrow> bool" where
  "token_byte c \<longleftrightarrow> is_digit c \<or> 65 \<le> byte c \<and> byte c \<le> 90 \<or> 97 \<le> byte c \<and> byte c \<le> 122 \<or>
     c \<in> set ''!#$%&*+-.^_`|~'' \<or> byte c = 39"

definition lower_char :: "char \<Rightarrow> char" where
  "lower_char c = (if 65 \<le> byte c \<and> byte c \<le> 90 then char_of (byte c + 32) else c)"

fun canon :: "bool \<Rightarrow> string \<Rightarrow> string" where
  "canon up [] = []"
| "canon up (c # cs) = (if up then upper_char c else lower_char c) # canon (c = CHR ''-'') cs"

definition canonicalKey :: "string \<Rightarrow> string" where
  "canonicalKey k = (if \<forall>c \<in> set k. token_byte c then canon True k else k)"

text \<open>A request as \<open>net/http\<close> delivers it.\<close>

definition delivered :: "request \<Rightarrow> bool" where
  "delivered req \<longleftrightarrow> (\<forall>k \<in> dom (Header req). canonicalKey k = k)"

lemma real_ip_not_canonical: "canonicalKey ''X-Real-IP'' \<noteq> ''X-Real-IP''"
proof -
  have "canonicalKey ''X-Real-IP'' = ''X-Real-I'' @ [lower_char (CHR ''P'')]"
    by (simp add: canonicalKey_def token_byte_def is_digit_def lower_char_def upper_char_def)
  moreover have "byte (lower_char (CHR ''P'')) = 112" by (simp add: lower_char_def)
  ultimately show ?thesis by auto
qed

section \<open>Properties\<close>

lemma anyLoopback_iff: "anyLoopback ips \<longleftrightarrow> (\<exists>ip \<in> set ips. isLoopback (trimSpace ip))"
  by (induction ips) auto

lemma headerValues_set:
  "v \<in> set (headerValues req) \<longleftrightarrow> (\<exists>h vs. h \<in> set proxyHeaders \<and> Header req h = Some vs \<and> v \<in> set vs)"
proof -
  have "v \<in> set (case x of None \<Rightarrow> [] | Some vs \<Rightarrow> vs) \<longleftrightarrow> (\<exists>vs. x = Some vs \<and> v \<in> set vs)" for x
    by (cases x) auto
  then show ?thesis by (auto simp: headerValues_def)
qed

text \<open>
  C37. Who may read the channel report: a request is answered with it only when the host part of its
  remote address, or one of the comma-separated entries of its \<open>X-Forwarded-For\<close> header, is a loopback
  address; every other request gets 403 without any call to dcrlnd. The \<open>X-Real-IP\<close> header, which the
  code looks up under a name that \<open>net/http\<close> never stores, plays no part.
\<close>

theorem info_guarded:
  assumes "delivered req" and "infoHandler srt E cfg req s = (rep, t)"
  shows "(isReqFromLocalhost req \<longleftrightarrow>
      isLoopback (case splitHostPort (RemoteAddr req) of None \<Rightarrow> RemoteAddr req | Some (host, _) \<Rightarrow> host) \<or>
      (\<exists>vs v ip. Header req ''X-Forwarded-For'' = Some vs \<and> v \<in> set vs \<and> ip \<in> set (split_at (CHR '','') v) \<and>
         isLoopback (trimSpace ip))) \<and>
    (\<not> isReqFromLocalhost req \<longrightarrow> rep = InfoStatus 403 \<and> t = s) \<and> quiet s t"
proof (intro conjI)
  have "Header req ''X-Real-IP'' = None"
    using assms(1) real_ip_not_canonical by (auto simp: delivered_def dom_def)
  then have v: "v \<in> set (headerValues req) \<longleftrightarrow> (\<exists>vs. Header req ''X-Forwarded-For'' = Some vs \<and> v \<in> set vs)" for v
    by (auto simp: headerValues_set proxyHeaders_def)
  show "isReqFromLocalhost req \<longleftrightarrow>
      isLoopback (case splitHostPort (RemoteAddr req) of None \<Rightarrow> RemoteAddr req | Some (host, _) \<Rightarrow> host) \<or>
      (\<exists>vs v ip. Header req ''X-Forwarded-For'' = Some vs \<and> v \<in> set vs \<and> ip \<in> set (split_at (CHR '','') v) \<and>
         isLoopback (trimSpace ip))"
    unfolding isReqFromLocalhost_def anyLoopback_iff by (auto simp: v)
  show "\<not> isReqFromLocalhost req \<longrightarrow> rep = InfoStatus 403 \<and> t = s"
    using assms(2) by (auto simp: infoHandler_def)
  show "quiet s t"
    using assms(2) FetchManagedChannels_quiet
    by (auto simp: infoHandler_def split: if_splits prod.splits res.splits)
qed

text \<open>A request from elsewhere that claims to be forwarded from the local host.\<close>

definition spoofed :: request where
  "spoofed = \<lparr>RemoteAddr = ''203.0.113.5:4711'', Header = [''X-Forwarded-For'' \<mapsto> [''10.0.0.1,127.0.0.1'']]\<rparr>"

lemma spoofed_trim: "trimSpace ''127.0.0.1'' = ''127.0.0.1''"
  by (rule trimSpace_digits) (simp_all add: is_digit_def)

lemma spoofed_ip: "isLoopback ''127.0.0.1''"
  by (simp add: isLoopback_def parseIP_def parseIPv4_def octet_def is_digit_def digit_val_def isLoopbackIP_def v4prefix_def
      nth_append)

lemma spoofed_remote: "splitHostPort (RemoteAddr spoofed) = Some (''203.0.113.5'', ''4711'')"
  by (simp add: spoofed_def splitHostPort_def cut_last_def cut_def)

lemma spoofed_parts: "split_at (CHR '','') ''10.0.0.1,127.0.0.1'' = [''10.0.0.1'', ''127.0.0.1'']"
  by simp

lemma forwarded_canonical: "canonicalKey ''X-Forwarded-For'' = ''X-Forwarded-For''"
  by (simp add: canonicalKey_def token_byte_def is_digit_def lower_char_def upper_char_def)

theorem info_guarded_witness: "isReqFromLocalhost spoofed"
proof -
  have d: "delivered spoofed" by (simp add: delivered_def spoofed_def forwarded_canonical)
  obtain rep t where i: "infoHandler (\<lambda>_ xs. xs) sampleEnv sampleCfg spoofed sampleState = (rep, t)" by force
  have "Header spoofed ''X-Forwarded-For'' = Some [''10.0.0.1,127.0.0.1'']" by (simp add: spoofed_def)
  moreover have "isLoopback (trimSpace ''127.0.0.1'')" unfolding spoofed_trim by (rule spoofed_ip)
  ultimately have "\<exists>vs v ip. Header spoofed ''X-Forwarded-For'' = Some vs \<and> v \<in> set vs \<and>
      ip \<in> set (split_at (CHR '','') v) \<and> isLoopback (trimSpace ip)"
    using spoofed_parts by (intro exI [of _ "[''10.0.0.1,127.0.0.1'']"] exI [of _ "''10.0.0.1,127.0.0.1''"]
        exI [of _ "''127.0.0.1''"]) simp
  with info_guarded [OF d i] show ?thesis by (simp only: simp_thms)
qed

end
