(* ===== verification/Daemon_Main.thy ===== *)
theory Daemon_Main
  imports Config_Bounds Server_Start Request_Util
begin

text \<open>
  \<open>main.go\<close> and \<open>signal.go\<close>: how the daemon comes up, from the configuration to the open listeners, with the
  exit code of every failure, and how it goes down, as a transition system of the goroutines that \<open>_main\<close>
  waits for, the one that listens for signals, and \<open>_main\<close> itself.
\<close>

section \<open>Coming up\<close>

text \<open>
  The parts of the daemon have one outside world, which passes from the configuration to the server and to
  the listeners. \<open>dm_started\<close> lists the goroutines that \<open>_main\<close> has started.
\<close>

datatype 'l goroutine = Profiler string | ServerRun | HttpServe 'l

record ('w, 'l) daemon =
  dm_boot :: "'w bootState"
  dm_sys :: "'w sys"
  dm_net :: "('w, 'l) netState"
  dm_started :: "'l goroutine list"

definition loadStage :: "('w, 'p) boot \<Rightarrow> ('w, 'l) daemon \<Rightarrow> options res \<times> ('w, 'l) daemon" where
  "loadStage B d = (case loadConfig B (dm_boot d) of (r, b) \<Rightarrow>
     (andThen r (\<lambda>(cfg, _). Ok cfg), d\<lparr>dm_boot := b, dm_sys := dm_sys d\<lparr>world := boot_world b\<rparr>\<rparr>))"

definition serverStage :: "('w, 't, 'm, 'c, 'k) dial \<Rightarrow> 'w env \<Rightarrow> config \<Rightarrow> ('w, 'l) daemon \<Rightarrow>
    nodeID res \<times> ('w, 'l) daemon" where
  "serverStage D E svrCfg d = (case newServer D E svrCfg (dm_sys d) of (r, s) \<Rightarrow>
     (r, d\<lparr>dm_sys := s, dm_net := dm_net d\<lparr>net_world := world s\<rparr>\<rparr>))"

definition listenStage :: "('w, 'kp, 'l) netCalls \<Rightarrow> options \<Rightarrow> ('w, 'l) daemon \<Rightarrow> 'l list res \<times> ('w, 'l) daemon" where
  "listenStage N cfg d = (case listeners N cfg (dm_net d) of (r, n) \<Rightarrow>
     (r, d\<lparr>dm_net := n, dm_sys := dm_sys d\<lparr>world := net_world n\<rparr>\<rparr>))"

definition start :: "'l goroutine list \<Rightarrow> ('w, 'l) daemon \<Rightarrow> ('w, 'l) daemon" where
  "start gs d = d\<lparr>dm_started := dm_started d @ gs\<rparr>"

text \<open>\<open>_main\<close> up to the point where it waits for the shutdown.\<close>

definition serveStages :: "('w, 't, 'm, 'c, 'k) dial \<Rightarrow> 'w env \<Rightarrow> ('w, 'kp, 'l) netCalls \<Rightarrow> dcrd \<Rightarrow> options \<Rightarrow>
    ('w, 'l) daemon \<Rightarrow> (options \<times> config \<times> nodeID \<times> 'l list) res \<times> ('w, 'l) daemon" where
  "serveStages D E N P cfg d =
     bindR (serverConfig P cfg, d) (\<lambda>svrCfg d.
     bindR (serverStage D E svrCfg d) (\<lambda>nodeID d.
     bindR (listenStage N cfg (start [ServerRun] d)) (\<lambda>ls d.
       (Ok (cfg, svrCfg, nodeID, ls), start (map HttpServe ls) d))))"

definition mainStart :: "('w, 'p) boot \<Rightarrow> ('w, 't, 'm, 'c, 'k) dial \<Rightarrow> 'w env \<Rightarrow> ('w, 'kp, 'l) netCalls \<Rightarrow>
    ('w, 'l) daemon \<Rightarrow> (options \<times> config \<times> nodeID \<times> 'l list) res \<times> ('w, 'l) daemon" where
  "mainStart B D E N d =
     bindR (loadStage B d) (\<lambda>cfg d.
     let d = (if o_Profile cfg \<noteq> [] then start [Profiler (o_Profile cfg)] d else d) in
     serveStages D E N (b_dcrd B) cfg d)"

text \<open>\<open>main\<close>: the exit code; a panic of the program itself ends with status 2.\<close>

definition exitCode :: "'a res \<Rightarrow> nat" where
  "exitCode r = (case r of
      Ok _ \<Rightarrow> 0
    | Err e \<Rightarrow> if e \<noteq> ErrCmdDone then 1 else 0
    | Panic m \<Rightarrow> if m = ''exit status 1'' then 1 else 2)"

section \<open>Going down\<close>

text \<open>
  A goroutine that may end the daemon is running, blocked in \<open>requestShutdown\<close>, or has ended. The state
  holds the signal that waits in the channel of \<open>shutdownListener\<close>, whether the context is done, the server
  and profiler goroutines, the number of \<open>Serve\<close> loops, whether \<open>svr.Shutdown\<close> has been called, and where
  \<open>_main\<close> is.
\<close>

datatype runPhase = Running | Requesting | Stopped
datatype mainPhase = Awaiting | Closing | Draining | Exited

record life =
  lf_signal :: bool
  lf_done :: bool
  lf_server :: runPhase
  lf_profiler :: runPhase
  lf_http :: nat
  lf_shut :: bool
  lf_main :: mainPhase

text \<open>
  The steps the program makes by itself. The listener takes a signal or a request, the first of which cancels the
  context; the server goroutine ends because the context is done; \<open>_main\<close> wakes up and calls \<open>svr.Shutdown\<close>,
  which makes the \<open>Serve\<close> loops return and comes back itself, after five seconds at the latest; then \<open>_main\<close>
  waits for the goroutines of its wait group.
\<close>

inductive life_step :: "life \<Rightarrow> life \<Rightarrow> bool" where
  take_signal: "lf_signal s \<Longrightarrow> life_step s (s\<lparr>lf_signal := False, lf_done := True\<rparr>)"
| take_server: "lf_server s = Requesting \<Longrightarrow> life_step s (s\<lparr>lf_server := Stopped, lf_done := True\<rparr>)"
| take_profiler: "lf_profiler s = Requesting \<Longrightarrow> life_step s (s\<lparr>lf_profiler := Stopped, lf_done := True\<rparr>)"
| server_canceled: "lf_server s = Running \<Longrightarrow> lf_done s \<Longrightarrow> life_step s (s\<lparr>lf_server := Stopped\<rparr>)"
| close: "lf_main s = Awaiting \<Longrightarrow> lf_done s \<Longrightarrow> life_step s (s\<lparr>lf_main := Closing, lf_shut := True\<rparr>)"
| serve_ends: "lf_shut s \<Longrightarrow> lf_http s = Suc n \<Longrightarrow> life_step s (s\<lparr>lf_http := n\<rparr>)"
| closed: "lf_main s = Closing \<Longrightarrow> life_step s (s\<lparr>lf_main := Draining\<rparr>)"
| exits: "lf_main s = Draining \<Longrightarrow> lf_server s = Stopped \<Longrightarrow> lf_http s = 0 \<Longrightarrow> life_step s (s\<lparr>lf_main := Exited\<rparr>)"

text \<open>A run, with what happens to the program from outside: signals arrive, the server, the profiler or a listener fails.\<close>

inductive life_run :: "life \<Rightarrow> life \<Rightarrow> bool" for s0 where
  run_start: "life_run s0 s0"
| run_step: "life_run s0 s \<Longrightarrow> life_step s t \<Longrightarrow> life_run s0 t"
| run_signal: "life_run s0 s \<Longrightarrow> life_run s0 (s\<lparr>lf_signal := True\<rparr>)"
| server_fails: "life_run s0 s \<Longrightarrow> lf_server s = Running \<Longrightarrow> life_run s0 (s\<lparr>lf_server := Requesting\<rparr>)"
| profiler_fails: "life_run s0 s \<Longrightarrow> lf_profiler s = Running \<Longrightarrow> life_run s0 (s\<lparr>lf_profiler := Requesting\<rparr>)"
| listener_fails: "life_run s0 s \<Longrightarrow> lf_http s = Suc n \<Longrightarrow> life_run s0 (s\<lparr>lf_http := n\<rparr>)"

definition serving :: "nat \<Rightarrow> bool \<Rightarrow> life" where
  "serving n profile = \<lparr>lf_signal = False, lf_done = False, lf_server = Running,
     lf_profiler = (if profile then Running else Stopped), lf_http = n, lf_shut = False, lf_main = Awaiting\<rparr>"

fun run_rank :: "runPhase \<Rightarrow> nat" where
  "run_rank Running = 2" | "run_rank Requesting = 1" | "run_rank Stopped = 0"

fun main_rank :: "mainPhase \<Rightarrow> nat" where
  "main_rank Awaiting = 3" | "main_rank Closing = 2" | "main_rank Draining = 1" | "main_rank Exited = 0"

text \<open>How much the program can still do when nothing comes from outside.\<close>

definition rank :: "life \<Rightarrow> nat" where
  "rank s = (if lf_signal s then 1 else 0) + run_rank (lf_server s) + run_rank (lf_profiler s) + lf_http s +
     main_rank (lf_main s)"

lemma life_step_rank: "life_step s t \<Longrightarrow> rank t < rank s"
  by (induction rule: life_step.induct) (auto simp: rank_def)

lemma life_steps_rank: "(life_step ^^ k) s t \<Longrightarrow> k + rank t \<le> rank s"
proof (induction k arbitrary: t)
  case (Suc k)
  then obtain u where "(life_step ^^ k) s u" "life_step u t" by auto
  with Suc.IH [of u] life_step_rank [of u t] show ?case by simp
qed simp

text \<open>What holds all along: \<open>_main\<close> moves on only when the context is done, and then \<open>svr.Shutdown\<close> has been called.\<close>

definition orderly :: "nat \<Rightarrow> life \<Rightarrow> bool" where
  "orderly n s \<longleftrightarrow> (lf_main s \<noteq> Awaiting \<longrightarrow> lf_done s) \<and> (lf_shut s \<longleftrightarrow> lf_main s \<noteq> Awaiting) \<and> lf_http s \<le> n \<and>
     (lf_main s = Exited \<longrightarrow> lf_server s = Stopped \<and> lf_http s = 0)"

lemma orderly_step: "life_step s t \<Longrightarrow> orderly n s \<Longrightarrow> orderly n t"
  by (induction rule: life_step.induct) (auto simp: orderly_def)

lemma orderly_run: "life_run (serving n p) s \<Longrightarrow> orderly n s"
  by (induction rule: life_run.induct) (auto simp: orderly_def serving_def dest: orderly_step [of _ _ n, unfolded orderly_def])

lemma orderly_rank: "orderly n s \<Longrightarrow> rank s \<le> n + 8"
  by (cases "lf_server s"; cases "lf_profiler s"; cases "lf_main s") (auto simp: rank_def orderly_def)

text \<open>Something has begun a shutdown; the program does not forget it and does not stop before it has exited.\<close>

definition begun :: "life \<Rightarrow> bool" where
  "begun s \<longleftrightarrow> lf_done s \<or> lf_signal s \<or> lf_server s = Requesting \<or> lf_profiler s = Requesting"

lemma begun_step: "life_step s t \<Longrightarrow> begun s \<Longrightarrow> begun t"
  by (induction rule: life_step.induct) (auto simp: begun_def)

lemma begun_progress:
  assumes "orderly n s" and "begun s" and "lf_main s \<noteq> Exited"
  shows "\<exists>t. life_step s t"
proof (cases "lf_signal s \<or> lf_server s = Requesting \<or> lf_profiler s = Requesting")
  case True
  then show ?thesis by (auto intro: life_step.intros)
next
  case False
  then have d: "lf_done s" using assms(2) by (simp add: begun_def)
  show ?thesis
  proof (cases "lf_main s = Draining \<and> lf_server s = Stopped")
    case True
    then have "lf_shut s" using assms(1) by (simp add: orderly_def)
    with True show ?thesis by (cases "lf_http s") (auto intro: life_step.intros)
  next
    case nd: False
    then show ?thesis using d False assms(3)
      by (cases "lf_main s"; cases "lf_server s") (auto intro: life_step.intros)
  qed
qed

lemma begun_steps: "rtranclp life_step s t \<Longrightarrow> orderly n s \<Longrightarrow> begun s \<Longrightarrow> orderly n t \<and> begun t"
  by (induction rule: rtranclp_induct) (auto dest: orderly_step begun_step)

section \<open>The stages of the start\<close>

lemma loadStage_net: "loadStage B d = (r, t) \<Longrightarrow> net_open (dm_net t) = net_open (dm_net d) \<and> files (dm_sys t) = files (dm_sys d)"
  by (auto simp: loadStage_def split: prod.splits)

lemma loadStage_Ok: "loadStage B d = (Ok cfg, t) \<Longrightarrow> validOptions (b_dcrd B) cfg"
  using accepted_valid by (fastforce simp: loadStage_def andThen_Ok split: prod.splits)

lemma loadStage_Panic: "loadStage B d = (Panic m, t) \<Longrightarrow> m = ''exit status 1''"
  using loadConfig_panic by (fastforce simp: loadStage_def andThen_Panic split: prod.splits)

lemma serverStage_net: "serverStage D E sc d = (r, t) \<Longrightarrow> net_open (dm_net t) = net_open (dm_net d)"
  by (auto simp: serverStage_def split: prod.splits)

lemma checkNode_no_panic: "checkNode cfg info \<noteq> Panic m"
  by (auto simp: checkNode_def fromString_not_Panic split: list.splits)

lemma pureR_no_panic: "pureR x \<noteq> Panic m"
  by (simp add: pureR_def split: sum.splits)

lemma bindR_no_panic:
  "\<forall>m. fst M \<noteq> Panic m \<Longrightarrow> (\<And>x u. \<forall>m. fst (k x u) \<noteq> Panic m) \<Longrightarrow> \<forall>m. fst (bindR M k) \<noteq> Panic m"
  by (cases M rule: prod.exhaust, rename_tac r t, case_tac r) auto

lemma rpc_no_panic: "\<forall>m. fst (rpc f s) \<noteq> Panic m"
  using rpc_not_Panic by (metis prod.collapse)

lemma newServer_no_panic: "\<forall>m. fst (newServer D E cfg s) \<noteq> Panic m"
  unfolding newServer_def connectToDcrlnd_def
  by (intro bindR_no_panic rpc_no_panic) (simp_all add: checkNode_no_panic pureR_no_panic)

lemma listenStage_net:
  "listenStage N cfg d = (r, t) \<Longrightarrow>
     (\<forall>ls. r = Ok ls \<longrightarrow> length ls = length (o_Listeners cfg) \<and> net_open (dm_net t) = net_open (dm_net d) + mset ls) \<and>
     (\<forall>e. r = Err e \<longrightarrow> net_open (dm_net t) = net_open (dm_net d)) \<and> (\<forall>m. r \<noteq> Panic m)"
  using listeners_all_or_none by (fastforce simp: listenStage_def split: prod.splits)

lemma start_simps [simp]:
  "dm_net (start gs d) = dm_net d" "dm_sys (start gs d) = dm_sys d" "dm_boot (start gs d) = dm_boot d"
  by (simp_all add: start_def)

lemma serverConfig_failure:
  assumes "o_activeNet cfg \<in> networks"
  shows "serverConfig D cfg \<noteq> Panic m"
  using chainParams_known [OF assms, of D]
  by (auto simp: serverConfig_def andThen_Panic andThen_Err newAmount_def split: sum.splits)

lemma serveStages_result:
  assumes "serveStages D E N P cfg d = (r, t)" and "validOptions P cfg"
  shows "(\<forall>cfg' sc u ls. r = Ok (cfg', sc, u, ls) \<longrightarrow> cfg' = cfg \<and> serverConfig P cfg = Ok sc \<and>
      fresh (dm_sys t) \<and> files (dm_sys t) = files (dm_sys d) \<and> wf_nodeID u \<and>
      (\<exists>info network w w'. e_GetInfo E w = (Inr info, w') \<and> gi_Chains info = [(''decred'', network)] \<and>
         Ok (networkOf network) = andThen (chainParamsOf P (o_activeNet cfg)) (\<lambda>p. Ok (Name p))) \<and>
      length ls = length (o_Listeners cfg) \<and> ls \<noteq> [] \<and> net_open (dm_net t) = net_open (dm_net d) + mset ls) \<and>
    ((\<forall>x. r \<noteq> Ok x) \<longrightarrow> net_open (dm_net t) = net_open (dm_net d)) \<and> (\<forall>m. r \<noteq> Panic m)"
proof -
  have net: "o_activeNet cfg \<in> networks" "o_Listeners cfg \<noteq> []"
    using assms(2) by (simp_all add: validOptions_def)
  show ?thesis
  proof (cases "serverConfig P cfg")
    case (Ok sc)
    obtain r2 d2 where st: "serverStage D E sc d = (r2, d2)" by force
    obtain s2 where ns: "newServer D E sc (dm_sys d) = (r2, s2)" and d2: "dm_sys d2 = s2"
      using st by (auto simp: serverStage_def split: prod.splits)
    note n2 = serverStage_net [OF st]
    show ?thesis
    proof (cases r2)
      case r2: (Ok u)
      note up = newServer_starts [OF ns [unfolded r2]]
      obtain r3 d3 where li: "listenStage N cfg (start [ServerRun] d2) = (r3, d3)" by force
      note n3 = listenStage_net [OF li]
      have s3: "fresh (dm_sys d3) = fresh s2" "files (dm_sys d3) = files s2"
        using li d2 by (auto simp: listenStage_def fresh_def split: prod.splits)
      have params: "chainParamsOf P (o_activeNet cfg) = Ok (ChainParams sc)" using serverConfig_Ok [OF Ok] by simp
      have rt: "bindR (r3, d3) (\<lambda>ls d. (Ok (cfg, sc, u, ls), start (map HttpServe ls) d)) = (r, t)"
        using assms(1) Ok st r2 li by (simp add: serveStages_def)
      show ?thesis
      proof (cases r3)
        case r3: (Ok ls)
        have "length ls = length (o_Listeners cfg)" using n3 r3 by simp
        then have "ls \<noteq> []" using net(2) by auto
        with rt r3 show ?thesis using up s3 n2 n3 Ok params by (auto simp: r2)
      qed (use rt n2 n3 in auto)
    next
      case (Panic m)
      with newServer_no_panic [of D E sc "dm_sys d"] ns show ?thesis by simp
    qed (use assms(1) Ok st n2 in \<open>auto simp: serveStages_def\<close>)
  next
    case (Panic m)
    with serverConfig_failure [OF net(1)] show ?thesis by simp
  qed (use assms(1) in \<open>auto simp: serveStages_def\<close>)
qed

section \<open>Properties\<close>

text \<open>
  C30. The daemon serves only when everything came up: the options are valid, the server's configuration is
  theirs, the server is fresh and on a node of the selected chain, and each configured address has a
  listener. On any failure no listener stays open, and the process ends with code 1, or 0 when a help or
  version request was all there was to do.
\<close>

theorem daemon_comes_up:
  assumes "mainStart B D E N d = (r, t)"
  shows "(\<forall>cfg sc u ls. r = Ok (cfg, sc, u, ls) \<longrightarrow>
      validOptions (b_dcrd B) cfg \<and> serverConfig (b_dcrd B) cfg = Ok sc \<and>
      fresh (dm_sys t) \<and> files (dm_sys t) = files (dm_sys d) \<and> wf_nodeID u \<and>
      (\<exists>info network w w'. e_GetInfo E w = (Inr info, w') \<and> gi_Chains info = [(''decred'', network)] \<and>
         Ok (networkOf network) = andThen (chainParamsOf (b_dcrd B) (o_activeNet cfg)) (\<lambda>p. Ok (Name p))) \<and>
      length ls = length (o_Listeners cfg) \<and> ls \<noteq> [] \<and> net_open (dm_net t) = net_open (dm_net d) + mset ls) \<and>
    ((\<forall>x. r \<noteq> Ok x) \<longrightarrow> net_open (dm_net t) = net_open (dm_net d) \<and>
      exitCode r = (if r = Err ErrCmdDone then 0 else 1))"
proof -
  obtain r1 d1 where l: "loadStage B d = (r1, d1)" by force
  note l_net = loadStage_net [OF l]
  show ?thesis
  proof (cases r1)
    case (Err e)
    with assms l l_net show ?thesis by (auto simp: mainStart_def exitCode_def)
  next
    case (Panic m)
    with assms l l_net loadStage_Panic [of B d m d1] show ?thesis by (auto simp: mainStart_def exitCode_def)
  next
    case (Ok cfg)
    let ?d1 = "if o_Profile cfg \<noteq> [] then start [Profiler (o_Profile cfg)] d1 else d1"
    from l Ok have valid: "validOptions (b_dcrd B) cfg" by (simp add: loadStage_Ok)
    have "serveStages D E N (b_dcrd B) cfg ?d1 = (r, t)"
      using assms l Ok by (simp add: mainStart_def Let_def)
    from serveStages_result [OF this valid] l_net valid show ?thesis
      by (cases r) (auto simp: exitCode_def)
  qed
qed

definition sampleDaemon :: "(int, string) daemon" where
  "sampleDaemon = \<lparr>dm_boot = sampleBootState 0, dm_sys = sampleState, dm_net = \<lparr>net_world = 0, net_open = {#}\<rparr>,
     dm_started = []\<rparr>"

text \<open>A start that succeeds, and one whose configuration stage is done after a request for the version.\<close>

theorem daemon_comes_up_witness:
  "\<exists>cfg sc u ls t. mainStart sampleBoot sampleDial sampleEnv sampleNet sampleDaemon = (Ok (cfg, sc, u, ls), t) \<and>
     net_open (dm_net t) = mset ls \<and> length ls = 1"
proof -
  obtain b where b: "loadConfig sampleBoot (sampleBootState 0) = (Ok (sampleFinal, []), b)"
    using sample_load by (auto simp: sampleFinal_def)
  obtain sc where sc: "serverConfig sampleDcrd sampleFinal = Ok sc" and net: "Name (ChainParams sc) = ''simnet''"
    using sample_serverConfig by (auto simp: sampleDcrd_def)
  have D: "b_dcrd sampleBoot = sampleDcrd" by (simp add: sampleBoot_def)
  have new: "\<exists>t. newServer sampleDial sampleEnv sc s = (Ok sampleNode, t)" for s
    by (simp add: newServer_def connectToDcrlnd_def rpc_def pureR_def sampleDial_def checkNode_def networkOf_def
        sampleEnv_def fromString_nodeString net)
  have lis: "\<exists>t. listeners sampleNet sampleFinal n = (Ok ['':29130''], t)" for n
    by (simp add: listeners_def sampleFinal_simps sampleNet_def openListener_def)
  obtain d1 where d1: "loadStage sampleBoot sampleDaemon = (Ok sampleFinal, d1)" "net_open (dm_net d1) = {#}"
    using b by (simp add: loadStage_def sampleDaemon_def)
  obtain d2 where d2: "serverStage sampleDial sampleEnv sc d1 = (Ok sampleNode, d2)"
    using new [of "dm_sys d1"] by (auto simp: serverStage_def)
  obtain d3 where d3: "listenStage sampleNet sampleFinal (start [ServerRun] d2) = (Ok ['':29130''], d3)"
    using lis [of "dm_net d2"] by (auto simp: listenStage_def)
  have "\<exists>t. mainStart sampleBoot sampleDial sampleEnv sampleNet sampleDaemon =
      (Ok (sampleFinal, sc, sampleNode, ['':29130'']), t)"
    by (simp add: mainStart_def serveStages_def d1(1) sampleFinal_simps D sc d2 d3)
  then obtain t where t: "mainStart sampleBoot sampleDial sampleEnv sampleNet sampleDaemon =
      (Ok (sampleFinal, sc, sampleNode, ['':29130'']), t)" ..
  from daemon_comes_up [OF t] have "net_open (dm_net t) = {#'':29130''#}" by (simp add: sampleDaemon_def)
  with t show ?thesis by (intro exI conjI) auto
qed

text \<open>
  C34. A shutdown completes. Take any run with whatever signals and failures, and let a signal or a request for
  shutdown wait or the context be done. From there, when nothing more comes from outside, the program can stop only
  by exiting: after any number of its own steps it either can go on, or \<open>_main\<close> has returned with the server goroutine and all \<open>Serve\<close>
  loops ended; and it makes at most \<open>n + 8\<close> steps, \<open>n\<close> being the number of listeners. The exit needs the
  shutdown in this order: the loops end by themselves only after \<open>svr.Shutdown\<close> was called, and that only once the context is
  done.
\<close>

theorem shutdown_completes:
  assumes "life_run (serving n p) s"
    and "lf_done s \<or> lf_signal s \<or> lf_server s = Requesting \<or> lf_profiler s = Requesting"
  shows "(\<forall>t. rtranclp life_step s t \<longrightarrow>
      (\<exists>u. life_step t u) \<or> lf_main t = Exited \<and> lf_done t \<and> lf_shut t \<and> lf_server t = Stopped \<and> lf_http t = 0) \<and>
    (\<forall>k t. (life_step ^^ k) s t \<longrightarrow> k \<le> n + 8) \<and>
    (\<forall>t. life_step s t \<and> lf_http t < lf_http s \<longrightarrow> lf_shut s) \<and> (lf_shut s \<longrightarrow> lf_done s)"
proof (intro conjI allI impI)
  note o = orderly_run [OF assms(1)]
  fix t
  assume "rtranclp life_step s t"
  then have t: "orderly n t" "begun t" using begun_steps [OF _ o] assms(2) by (auto simp: begun_def)
  show "(\<exists>u. life_step t u) \<or> lf_main t = Exited \<and> lf_done t \<and> lf_shut t \<and> lf_server t = Stopped \<and> lf_http t = 0"
  proof (cases "lf_main t = Exited")
    case True
    with t(1) show ?thesis by (simp add: orderly_def)
  next
    case False
    from begun_progress [OF t False] show ?thesis ..
  qed
next
  fix k t
  assume "(life_step ^^ k) s t"
  from life_steps_rank [OF this] orderly_rank [OF orderly_run [OF assms(1)]] show "k \<le> n + 8" by simp
next
  fix t
  assume "life_step s t \<and> lf_http t < lf_http s"
  then have "life_step s t" "lf_http t < lf_http s" by simp_all
  then show "lf_shut s" by (induction rule: life_step.induct) auto
next
  assume "lf_shut s"
  with orderly_run [OF assms(1)] show "lf_done s" by (simp add: orderly_def)
qed

text \<open>A daemon with one listener whose server fails.\<close>

theorem shutdown_completes_witness:
  "\<exists>s. life_run (serving 1 False) s \<and> lf_server s = Requesting \<and> lf_http s = 1 \<and>
     (\<forall>t. rtranclp life_step s t \<longrightarrow> (\<exists>u. life_step t u) \<or> lf_main t = Exited \<and> lf_http t = 0)"
proof -
  let ?s = "(serving 1 False)\<lparr>lf_server := Requesting\<rparr>"
  have r: "life_run (serving 1 False) ?s"
    by (rule server_fails [OF run_start]) (simp add: serving_def)
  have s: "lf_server ?s = Requesting" "lf_http ?s = 1" by (simp_all add: serving_def)
  with shutdown_completes [OF r] r show ?thesis by (intro exI [of _ ?s]) auto
qed

end
