(* ===== verification/End_To_End.thy ===== *)
theory End_To_End
  imports Client_Lib Invoice_Listener
begin

text \<open>
  A client and a server that talk to each other: \<open>client/lpdclient.go\<close> against \<open>server/api-v1.go\<close>,
  \<open>server/server.go\<close> and \<open>server/db.go\<close>. The two have worlds of their own; what joins them is only that the answers
  the client reads from the address of the provider were computed by the server.
\<close>

section \<open>The connection\<close>

text \<open>
  The server may be in any state when a request arrives, requests may fail on the way, and answers may
  come late; what is asked of the connection (TLS is meant to give it) is that nobody else answers.
\<close>

definition answeredBy ::
  "'c cenv \<Rightarrow> cconfig \<Rightarrow> 'w env \<Rightarrow> config \<Rightarrow> nodeID \<Rightarrow> bool" where
  "answeredBy E cfg S scfg node \<longleftrightarrow>
     (\<forall>body w a w'. c_Do E (Address cfg @ ''/api/v1/policy'') body w = (Inr a, w') \<longrightarrow>
        httpOf (servePolicy node scfg) = Inr a) \<and>
     (\<forall>body w a w'. c_Do E (Address cfg @ ''/api/v1/invoice'') body w = (Inr a, w') \<longrightarrow>
        (\<exists>v. httpOf (fst (serveInvoice S scfg body v)) = Inr a))"

text \<open>Payment requests are texts (they are bech32, in ASCII).\<close>

definition textInvoices :: "'w env \<Rightarrow> bool" where
  "textInvoices S \<longleftrightarrow> (\<forall>memo amt expiry w rhash payreq w'.
     e_AddInvoice S memo amt expiry w = (Inr (rhash, payreq), w') \<longrightarrow> valid_utf8 payreq)"

lemma httpOf_200: "httpOf rep = Inr (200, body) \<Longrightarrow>
    rep = Reply 200 (JsonBody body) \<or> body = [] \<and> (\<exists>b. rep = Reply 200 b)"
  by (cases rep rule: httpOf.cases) auto

lemma policy_served:
  assumes "httpOf (servePolicy node scfg) = Inr (200, body)" and "decodePolicyResponse body = Some policy"
  shows "servePolicy node scfg = Reply 200 (JsonBody body)"
proof -
  have "decodePolicyResponse [] = None"
    by (simp add: decodePolicyResponse_def decodeStruct_def parse_value.simps [of "[]"] skip_ws_def)
  then show ?thesis using httpOf_200 [OF assms(1)] assms(2) by auto
qed

lemma invoice_served:
  assumes "httpOf (fst (serveInvoice S scfg (encodeInvoiceRequest r) v)) = Inr (200, body)" and "good_request r"
  shows "\<exists>p t. keyOk scfg (ir_Key r) \<and> CreateInvoice S scfg (ir_TargetNode r) (ir_ChannelSize r) v = (Ok p, t) \<and>
    body = encodeInvoiceResponse p"
proof -
  obtain rep t where s: "serveInvoice S scfg (encodeInvoiceRequest r) v = (rep, t)" by force
  have d: "decodeInvoiceRequest (encodeInvoiceRequest r) = Some r" by (rule decode_encode_request [OF assms(2)])
  from s show ?thesis
    by (cases rule: serveInvoice_cases) (use s d assms(1) in auto)
qed

text \<open>The record of a created invoice is stored under the hash that dcrlnd gave with the payment request.\<close>

lemma issueInvoice_asked:
  assumes "issueInvoice S scfg w s = (Ok p, t)"
  shows "\<exists>rhash x x'. e_AddInvoice S (invoiceMemo (TargetNode w) (ChannelSize w))
      (amountForNewChan S scfg (ChannelSize w)) (invoiceExpiry S scfg) x = (Inr (rhash, p), x') \<and>
    files t (invoicePath scfg rhash) = Some (encodeWaitingInvoice w)"
proof -
  let ?f = "e_AddInvoice S (invoiceMemo (TargetNode w) (ChannelSize w))
     (amountForNewChan S scfg (ChannelSize w)) (invoiceExpiry S scfg)"
  from assms obtain rhash s1 where c: "rpc ?f (emit (addInvoiceEv S scfg w) s) = (Ok (rhash, p), s1)"
    and wr: "writeJsonFile S (invoicePath scfg rhash) w s1 = (Ok (), t)"
    by (auto simp: issueInvoice_def addInvoiceEv_def Let_def bindR_iffs)
  from c have "\<exists>x x'. ?f x = (Inr (rhash, p), x')" by (auto simp: rpc_def split: prod.splits sum.splits)
  moreover from wr have "files t (invoicePath scfg rhash) = Some (encodeWaitingInvoice w)"
    by (cases rule: writeJsonFile_cases) auto
  ultimately show ?thesis by blast
qed

lemma requestInvoice_asked:
  assumes "requestInvoice E cfg chanSize s = (Ok payreq, t)"
  shows "\<exists>info myID body w w' x x'. c_GetInfo E w = (Inr info, w') \<and> fromString (IdentityPubkey info) = Ok myID \<and>
    c_Do E (Address cfg @ ''/api/v1/invoice'')
      (encodeInvoiceRequest \<lparr>ir_TargetNode = myID, ir_ChannelSize = chanSize, ir_Key = Key cfg\<rparr>) x =
      (Inr (200, body), x') \<and> decodeInvoiceResponse body = Some payreq"
proof -
  from assms obtain info s1 myID where g: "call (c_GetInfo E) s = (Ok info, s1)"
    and m: "fromString (IdentityPubkey info) = Ok myID"
    and c: "lprpcV1Call E cfg ''/api/v1/invoice''
      (encodeInvoiceRequest \<lparr>ir_TargetNode = myID, ir_ChannelSize = chanSize, ir_Key = Key cfg\<rparr>)
      decodeInvoiceResponse s1 = (Ok payreq, t)"
    by (auto simp: requestInvoice_def bindR_iffs)
  from call_Ok [OF g] m lprpcV1Call_Ok [OF c] show ?thesis by blast
qed

text \<open>What a successful preparation says about the server behind the connection.\<close>

lemma prepared_on_server:
  assumes "prepare E cfg chanSize s = (Ok (policy, payreq, hash), t)" and "answeredBy E cfg S scfg node"
    and "wf_nodeID node" and "\<forall>a \<in> set (LNNodeAddrs scfg). valid_utf8 a"
    and "\<forall>r. ChanInvoiceFeeRate scfg = Fin r \<longrightarrow> rnd r = Fin r"
    and "valid_utf8 (Key cfg)" and "textInvoices S" and "c_u64_oor E = e_u64_oor S"
  obtains info w w' myID v u rhash x x' where "policy = handlePolicy node scfg"
    "c_GetInfo E w = (Inr info, w')" "fromString (IdentityPubkey info) = Ok myID" "keyOk scfg (Key cfg)"
    "CreateInvoice S scfg myID chanSize v = (Ok payreq, u)"
    "e_AddInvoice S (invoiceMemo myID chanSize) (amountForNewChan S scfg chanSize) (invoiceExpiry S scfg) x =
       (Inr (rhash, payreq), x')"
    "files u (invoicePath scfg rhash) = Some (encodeWaitingInvoice \<lparr>TargetNode = myID, ChannelSize = chanSize\<rparr>)"
proof -
  from assms(1) obtain s1 s4 s5 where f: "fetchPolicy E cfg s = (Ok policy, s1)"
    and q: "requestInvoice E cfg chanSize s4 = (Ok payreq, s5)"
    by (cases rule: prepare_Ok) blast
  from lprpcV1Call_Ok [OF f [unfolded fetchPolicy_def]] obtain body w w' where
    b: "c_Do E (Address cfg @ ''/api/v1/policy'') (''null'' @ [CHR 0x0A]) w = (Inr (200, body), w')"
    "decodePolicyResponse body = Some policy" by blast
  from b(1) assms(2) have "httpOf (servePolicy node scfg) = Inr (200, body)" unfolding answeredBy_def by blast
  from policy_received [OF policy_served [OF this b(2)] b(2) assms(3-5)] have p: "policy = handlePolicy node scfg" .
  from requestInvoice_asked [OF q] obtain info myID rbody y y' z z' where
    g: "c_GetInfo E y = (Inr info, y')" "fromString (IdentityPubkey info) = Ok myID" and
    c: "c_Do E (Address cfg @ ''/api/v1/invoice'')
      (encodeInvoiceRequest \<lparr>ir_TargetNode = myID, ir_ChannelSize = chanSize, ir_Key = Key cfg\<rparr>) z = (Inr (200, rbody), z')"
      "decodeInvoiceResponse rbody = Some payreq" by blast
  let ?r = "\<lparr>ir_TargetNode = myID, ir_ChannelSize = chanSize, ir_Key = Key cfg\<rparr>"
  have good: "good_request ?r" using fromString_wf [OF g(2)] assms(6) by (simp add: good_request_def)
  from c(1) assms(2) obtain v where "httpOf (fst (serveInvoice S scfg (encodeInvoiceRequest ?r) v)) = Inr (200, rbody)"
    unfolding answeredBy_def by blast
  from invoice_served [OF this good] obtain pr u where
    k: "keyOk scfg (Key cfg)" and ci: "CreateInvoice S scfg myID chanSize v = (Ok pr, u)"
    and rb: "rbody = encodeInvoiceResponse pr" by auto
  from ci obtain v1 where i: "issueInvoice S scfg \<lparr>TargetNode = myID, ChannelSize = chanSize\<rparr> v1 = (Ok pr, u)"
    by (auto simp: CreateInvoice_Ok_iff)
  from issueInvoice_asked [OF i] obtain rhash x x' where
    a: "e_AddInvoice S (invoiceMemo myID chanSize) (amountForNewChan S scfg chanSize) (invoiceExpiry S scfg) x =
       (Inr (rhash, pr), x')"
    and fl: "files u (invoicePath scfg rhash) = Some (encodeWaitingInvoice \<lparr>TargetNode = myID, ChannelSize = chanSize\<rparr>)"
    by auto
  from a assms(7) have "valid_utf8 pr" unfolding textInvoices_def by blast
  with decode_encode_response c(2) rb have "pr = payreq" by auto
  with that p g k ci a fl show thesis by blast
qed

section \<open>Properties\<close>

text \<open>
  What the client pays for is what the server opens. When a client whose requests are answered by the
  server has prepared its payment, the server has created an invoice for the client's own node, the size
  asked for and exactly the amount that the client's node reads from the invoice, and has stored the record
  under the invoice's hash. From any later state that still has the record, the settlement of that hash over
  at least this amount starts the opening of a channel of this size to this node.
\<close>

lemma paid_request_is_opened:
  assumes "prepare E cfg chanSize s = (Ok (policy, payreq, hash), t)" and "answeredBy E cfg S scfg node"
    and "wf_nodeID node" and "\<forall>a \<in> set (LNNodeAddrs scfg). valid_utf8 a"
    and "\<forall>r. ChanInvoiceFeeRate scfg = Fin r \<longrightarrow> rnd r = Fin r"
    and "valid_utf8 (Key cfg)" and "textInvoices S" and "c_u64_oor E = e_u64_oor S"
  shows "\<exists>info w w' myID v u rhash price x x' y y'. policy = handlePolicy node scfg \<and>
    c_GetInfo E w = (Inr info, w') \<and> fromString (IdentityPubkey info) = Ok myID \<and>
    CreateInvoice S scfg myID chanSize v = (Ok payreq, u) \<and>
    e_AddInvoice S (invoiceMemo myID chanSize) price (invoiceExpiry S scfg) x = (Inr (rhash, payreq), x') \<and>
    c_DecodePayReq E payreq y = (Inr (price, hash), y') \<and>
    stored u (invoicePath scfg rhash) = Some \<lparr>TargetNode = myID, ChannelSize = chanSize\<rparr> \<and>
    (\<forall>later i. inv_State i = InvSettled \<and> inv_RHash i = rhash \<and> i64_le price (inv_AmtPaidAtoms i) \<and>
       stored later (invoicePath scfg rhash) = stored u (invoicePath scfg rhash) \<longrightarrow>
       (\<exists>z. handleInvoiceUpdate (with_good_fs S) scfg i later = (Ok (), z) \<and>
          tasks z = tasks later @ [OpenTask \<lparr>TargetNode = myID, ChannelSize = chanSize\<rparr> OpenCheck]))"
  using assms
proof (cases rule: prepared_on_server)
  case (1 info w w' myID v u rhash x x')
  let ?w = "\<lparr>TargetNode = myID, ChannelSize = chanSize\<rparr>" and ?price = "amountForNewChan S scfg chanSize"
  have st: "stored u (invoicePath scfg rhash) = Some ?w"
    using 1(7) decode_encode_winv [of ?w] fromString_wf [OF 1(3)] by (simp add: stored_def wf_winv_def)
  have price: "EstimatedInvoiceAmount (c_u64_oor E) chanSize (pr_ChanInvoiceFeeRate policy) = ?price"
    by (simp add: EstimatedInvoiceAmount_def amountForNewChan_def 1(1) handlePolicy_def assms(8))
  from assms(1) obtain s5 where "call (c_DecodePayReq E payreq) s5 = (Ok (?price, hash), t)"
    by (cases rule: prepare_Ok) (auto simp: price)
  from call_Ok [OF this] obtain y y' where d: "c_DecodePayReq E payreq y = (Inr (?price, hash), y')" by blast
  have "amountForNewChan (with_good_fs S) scfg (ChannelSize ?w) = ?price"
    by (simp add: amountForNewChan_def with_good_fs_def)
  then have "\<exists>z. handleInvoiceUpdate (with_good_fs S) scfg i later = (Ok (), z) \<and> tasks z = tasks later @ [OpenTask ?w OpenCheck]"
    if "inv_State i = InvSettled" "inv_RHash i = rhash" "i64_le ?price (inv_AmtPaidAtoms i)"
      "stored later (invoicePath scfg rhash) = stored u (invoicePath scfg rhash)" for later i
    using settled_record_opens [OF that(1) _ _ refl, of later scfg ?w S] that(2-4) st by (auto simp: i64_le_def)
  with 1 st d show ?thesis by blast
qed

lemma sample_answered: "answeredBy sampleClient sampleClientCfg sampleEnv lpCfg sampleNode"
proof -
  have "\<exists>v. httpOf (fst (serveInvoice sampleEnv lpCfg body v)) = Inr a"
    if "(case serveInvoice sampleEnv lpCfg body w of (r, t) \<Rightarrow> (httpOf r, t)) = (Inr a, w')" for body w a w'
    using that by (intro exI [of _ w]) (auto split: prod.splits)
  then show ?thesis
    by (auto simp: answeredBy_def sampleClient_def sampleClientCfg_def)
qed

lemma sample_policy_sound:
  "\<forall>a \<in> set (LNNodeAddrs lpCfg). valid_utf8 a" "\<forall>r. ChanInvoiceFeeRate lpCfg = Fin r \<longrightarrow> rnd r = Fin r"
  "valid_utf8 (Key sampleClientCfg)" "textInvoices sampleEnv" "c_u64_oor sampleClient = e_u64_oor sampleEnv"
proof -
  have "ChanInvoiceFeeRate lpCfg = Fin (1 / 16)" by (simp add: lpCfg_def sampleCfg_def)
  then show "\<forall>r. ChanInvoiceFeeRate lpCfg = Fin r \<longrightarrow> rnd r = Fin r" using rnd_sixteenth by (metis f64.inject)
  show "textInvoices sampleEnv" by (auto simp: textInvoices_def sampleEnv_def valid_utf8_def Let_def)
qed (simp_all add: lpCfg_def sampleCfg_def sampleClientCfg_def sampleClient_def sampleEnv_def valid_utf8_def Let_def)

lemma paid_request_is_opened_witness:
  "\<exists>v u rhash. CreateInvoice sampleEnv lpCfg sampleNode 1048576 v = (Ok ''payreq'', u) \<and>
     stored u (invoicePath lpCfg rhash) = Some sampleInvoice"
proof -
  obtain t where p: "prepare sampleClient sampleClientCfg 1048576 sampleClientState =
     (Ok (handlePolicy sampleNode lpCfg, ''payreq'', ''hash''), t)" using sample_prepare by blast
  have info: "fromString (IdentityPubkey info) = Ok myID \<Longrightarrow> myID = sampleNode"
    if "c_GetInfo sampleClient w = (Inr info, w')" for info w w' myID
    using that by (auto simp: sampleClient_def fromString_nodeString)
  from paid_request_is_opened [OF p sample_answered sample_simps(1) sample_policy_sound]
  show ?thesis unfolding sampleInvoice_def using info by blast
qed

end
