(* ===== verification/Client_Command.thy ===== *)
theory Client_Command
  imports Client_Lib Server_Start
begin

text \<open>
  \<open>cmd/client\<close>: the command line around the client library. The parser of the options, the calls to the
  file system and the libraries, and the client's node behind the connection are parameters; the callbacks
  that the command configures only log.
\<close>

section \<open>Options and calls\<close>

record cmdOptions =
  co_Address :: string
  co_Key :: string
  co_ChannelSize :: f64
  co_Debug :: bool
  co_ServerCertPath :: string
  co_LNRPCHost :: string
  co_LNTLSCertPath :: string
  co_LNMacaroonPath :: string

text \<open>What the option parser says: its help text (\<open>ErrHelp\<close>), another error, or the options.\<close>

datatype cmdParsed = CmdHelp string | CmdBad string | CmdParsed cmdOptions

text \<open>
  \<open>cc_client\<close> is the client's environment for a connection to dcrlnd and a certificate chain, without the
  callbacks.
\<close>

record ('w, 't, 'm, 'c, 'k) cmdCalls =
  cc_dial :: "('w, 't, 'm, 'c, 'k) dial"
  cc_NewAmount :: "f64 \<Rightarrow> string + i64"
  cc_pemOk :: "string \<Rightarrow> bool"
  cc_client :: "'k \<Rightarrow> string \<Rightarrow> 'w cenv"

section \<open>The command\<close>

text \<open>\<open>fmt.Errorf("... %v", err)\<close>\<close>

definition wrapErr :: "string \<Rightarrow> 'a res \<times> 's \<Rightarrow> 'a res \<times> 's" where
  "wrapErr what m = (case m of (Err _, s) \<Rightarrow> (Err (ErrOther what), s) | _ \<Rightarrow> m)"

definition cmdConnect ::
  "('w, 't, 'm, 'c, 'k) dial \<Rightarrow> string \<Rightarrow> string \<Rightarrow> string \<Rightarrow> 'w cli \<Rightarrow> 'k res \<times> 'w cli" where
  "cmdConnect D addr tlsCertPath macaroonPath s =
     bindR (wrapErr ''unable to read cert file'' (call (d_TLSFromFile D tlsCertPath) s)) (\<lambda>creds s1.
     bindR (call (d_ReadFile D macaroonPath) s1) (\<lambda>macBytes s2.
     bindR (pureR (d_Unmarshal D macBytes), s2) (\<lambda>mac s3.
     bindR (pureR (d_Credential D mac), s3) (\<lambda>macOpt s4.
     wrapErr ''unable to create gRPC client'' (call (d_NewClient D addr creds macOpt) s4)))))"

definition withCallbacks :: "'w cenv \<Rightarrow> 'w cenv" where
  "withCallbacks E = E\<lparr>c_PolicyFetched := Some (\<lambda>policy w. (Inr (), w)), c_PayingInvoice := Some (\<lambda>payHash w. w),
     c_InvoicePaid := Some (\<lambda>w. w), c_PendingChannel := Some (\<lambda>channelPoint capacity w. w)\<rparr>"

text \<open>\<open>_main\<close> up to the request of the channel; \<open>uint64(chanSize)\<close> is the same word, read unsigned.\<close>

definition cmdSetup :: "('w, 't, 'm, 'c, 'k) cmdCalls \<Rightarrow> cmdOptions \<Rightarrow> 'w cli \<Rightarrow>
    ('w cenv \<times> cconfig \<times> u64) res \<times> 'w cli" where
  "cmdSetup C cfg s =
     bindR (pureR (cc_NewAmount C (co_ChannelSize cfg)), s) (\<lambda>chanSize s1.
     bindR (wrapErr ''unable to connect to dcrlnd''
       (cmdConnect (cc_dial C) (co_LNRPCHost cfg) (co_LNTLSCertPath cfg) (co_LNMacaroonPath cfg) s1)) (\<lambda>conn s2.
     bindR (if co_ServerCertPath cfg \<noteq> []
            then wrapErr ''unable to read server cert file'' (call (d_ReadFile (cc_dial C) (co_ServerCertPath cfg)) s2)
            else (Ok [], s2)) (\<lambda>cert s3.
     bindR (wrapErr ''unable to create client'' (newClient (cc_pemOk C) cert, s3)) (\<lambda>_ s4.
       (Ok (withCallbacks (cc_client C conn cert), \<lparr>Address = co_Address cfg, Key = co_Key cfg\<rparr>, chanSize), s4)))))"

text \<open>
  How \<open>_main\<close> ends: before the request, with what \<open>RequestChannel\<close> returns, or when the watcher panics, which
  ends the process wherever \<open>_main\<close> is.
\<close>

inductive cmdEnds :: "('w, 't, 'm, 'c, 'k) cmdCalls \<Rightarrow> cmdParsed \<Rightarrow> 'w cli \<Rightarrow> unit res \<Rightarrow> 'w cli \<Rightarrow> bool"
  for C parsed s0 where
  usage: "parsed = CmdHelp m \<Longrightarrow> cmdEnds C parsed s0 (Err ErrCmdDone) s0"
| bad: "parsed = CmdBad m \<Longrightarrow> cmdEnds C parsed s0 (Err (ErrOther m)) s0"
| setup_fails: "parsed = CmdParsed cfg \<Longrightarrow> cmdSetup C cfg s0 = (Err e, s) \<Longrightarrow> cmdEnds C parsed s0 (Err e) s"
| returns: "parsed = CmdParsed cfg \<Longrightarrow> cmdSetup C cfg s0 = (Ok (E, ccfg, n), s1) \<Longrightarrow>
     session E ccfg n s1 (PayDone r, wp, s) \<Longrightarrow> cmdEnds C parsed s0 r s"
| panics: "parsed = CmdParsed cfg \<Longrightarrow> cmdSetup C cfg s0 = (Ok (E, ccfg, n), s1) \<Longrightarrow>
     session E ccfg n s1 (ph, WPanic, s) \<Longrightarrow> cmdEnds C parsed s0 (Panic ''interface conversion'') s"

inductive_cases cmdEndsE: "cmdEnds C parsed s0 r s"

text \<open>\<open>main\<close>: the exit status; that of a panic is 2.\<close>

fun cmdExit :: "unit res \<Rightarrow> nat" where
  "cmdExit (Ok _) = 0"
| "cmdExit (Err e) = (if e \<noteq> ErrCmdDone then 1 else 0)"
| "cmdExit (Panic m) = 2"

section \<open>Lemmas\<close>

lemma marks_wrapErr [simp]: "marks (snd (wrapErr what m)) = marks (snd m)"
  by (cases m rule: prod.exhaust, rename_tac r s, case_tac r) (auto simp: wrapErr_def)

lemma wrapErr_Ok: "wrapErr what m = (Ok x, t) \<longleftrightarrow> m = (Ok x, t)"
  by (cases m rule: prod.exhaust, rename_tac r s, case_tac r) (auto simp: wrapErr_def)

lemma keeps_cmdConnect: "marks (snd (cmdConnect D addr tls mac s)) = marks s"
  unfolding cmdConnect_def by (intro keeps_bind) (auto split: prod.split)

lemma keeps_cmdSetup: "cmdSetup C cfg s = (r, t) \<Longrightarrow> marks t = marks s"
proof -
  have "marks (snd (cmdSetup C cfg s)) = marks s"
    unfolding cmdSetup_def by (intro keeps_bind) (auto simp: keeps_cmdConnect split: if_splits)
  then show "cmdSetup C cfg s = (r, t) \<Longrightarrow> marks t = marks s" by simp
qed

lemma cmdSetup_Ok:
  "cmdSetup C cfg s = (Ok (E, ccfg, n), t) \<Longrightarrow> cc_NewAmount C (co_ChannelSize cfg) = Inr n \<and>
     ccfg = \<lparr>Address = co_Address cfg, Key = co_Key cfg\<rparr>"
  by (auto simp: cmdSetup_def bindR_iffs pureR_def split: sum.splits)

text \<open>No error of the set-up or of the request is the sentinel \<open>errCmdDone\<close>.\<close>

lemma call_Err_kind: "call f s = (Err e, t) \<Longrightarrow> e \<noteq> ErrCmdDone"
  by (auto elim: call_cases)

lemma wrapErr_Err_kind: "wrapErr what m = (Err e, t) \<Longrightarrow> e = ErrOther what"
  by (auto simp: wrapErr_def split: prod.splits res.splits)

lemma cmdSetup_Err_kind: "cmdSetup C cfg s = (Err e, t) \<Longrightarrow> e \<noteq> ErrCmdDone"
  by (auto simp: cmdSetup_def bindR_iffs pureR_def split: sum.splits if_splits dest!: wrapErr_Err_kind)

lemma i64_of_small_u64: "(n :: u64) < 0x8000000000000000 \<Longrightarrow> 0 \<le> sint n"
proof -
  assume "n < 0x8000000000000000"
  then have "uint n < 2 ^ 63" by (simp add: word_less_def)
  then have "sint n = uint n" by (simp add: sint_uint signed_take_bit_eq_if_positive bit_uint_iff
        take_bit_int_eq_self not_bit_length bit_iff_odd)
  then show ?thesis by simp
qed

text \<open>Nor of the request itself.\<close>

lemma fromString_Err_kind: "fromString x = Err e \<Longrightarrow> e \<noteq> ErrCmdDone"
  by (auto simp: fromString_def split: option.splits if_splits)

lemma lprpcV1Call_Err_kind: "lprpcV1Call E cfg path req dec s = (Err e, t) \<Longrightarrow> e \<noteq> ErrCmdDone"
  by (auto simp: lprpcV1Call_def Let_def bindR_iffs dest: call_Err_kind split: if_splits option.splits)

lemma connectPeer_Err_kind: "connectPeer E policy s = (Err e, t) \<Longrightarrow> e \<noteq> ErrCmdDone"
  by (auto simp: connectPeer_def Let_def dest: call_Err_kind split: prod.splits res.splits err.splits if_splits)

lemma step_Err_kinds:
  "fetchPolicy E cfg s = (Err e, t) \<Longrightarrow> e \<noteq> ErrCmdDone"
  "checkPolicy policy n = Err e \<Longrightarrow> e \<noteq> ErrCmdDone"
  "checkWallet E policy want s = (Err e, t) \<Longrightarrow> e \<noteq> ErrCmdDone"
  "policyCallback E policy s = (Err e, t) \<Longrightarrow> e \<noteq> ErrCmdDone"
  "requestInvoice E cfg n s = (Err e, t) \<Longrightarrow> e \<noteq> ErrCmdDone"
  by (auto simp: fetchPolicy_def checkPolicy_def checkWallet_def policyCallback_def requestInvoice_def bindR_iffs
      dest: call_Err_kind lprpcV1Call_Err_kind fromString_Err_kind split: if_splits option.splits)

lemma prepare_Err_kind: "prepare E cfg n s = (Err e, t) \<Longrightarrow> e \<noteq> ErrCmdDone"
  unfolding prepare_def Let_def bindR_iffs
  by (elim disjE exE conjE) (auto dest: step_Err_kinds call_Err_kind connectPeer_Err_kind split: if_splits)

definition not_done :: "payPhase \<Rightarrow> watchPhase \<Rightarrow> bool" where
  "not_done ph wp \<longleftrightarrow> ph \<noteq> PayDone (Err ErrCmdDone) \<and> wp \<noteq> WOffer (Err ErrCmdDone)"

lemma payStep_kind: "payStep E payreq hash ph s = (ph', t) \<Longrightarrow> ph \<noteq> PayDone (Err ErrCmdDone) \<Longrightarrow> ph' \<noteq> PayDone (Err ErrCmdDone)"
  by (cases ph) (auto simp: failOr_def dest: call_Err_kind split: prod.splits res.splits if_splits)

lemma watchStep_kind: "watchStep E node wp s = (wp', t) \<Longrightarrow> wp \<noteq> WOffer (Err ErrCmdDone) \<Longrightarrow> wp' \<noteq> WOffer (Err ErrCmdDone)"
  by (cases wp) (auto dest: call_Err_kind split: prod.splits res.splits chanEvent.splits if_splits)

lemma session_not_done: "session E cfg n s0 x \<Longrightarrow> case x of (ph, wp, s) \<Rightarrow> not_done ph wp"
proof (induction rule: Client_Lib.session.induct)
  case (move x plan s y)
  from move.hyps(3) move.IH show ?case
    by (cases rule: cstep.cases) (auto simp: not_done_def dest: payStep_kind watchStep_kind)
qed (auto simp: not_done_def dest: prepare_Err_kind)

text \<open>What the session of the command has paid.\<close>

lemma command_session:
  assumes c: "cmdSetup C cfg s0 = (Ok (E, ccfg, n), s1)" and se: "session E ccfg n s1 (ph, wp, s)"
  shows "(payments s = payments s0 \<or>
      (\<exists>policy t payreq. fetchPolicy E ccfg s1 = (Ok policy, t) \<and>
         pr_MinChanSize policy \<le> n \<and> n \<le> pr_MaxChanSize policy \<and>
         (pr_MaxChanSize policy < 0x8000000000000000 \<longrightarrow> 0 \<le> sint n) \<and>
         (payments s = payments s0 @ [CvSend payreq 20] \<or>
          (\<exists>perr. payments s = payments s0 @ [CvSend payreq 20, CvPayReply perr])))) \<and>
    (ph = PayDone (Ok ()) \<longrightarrow>
      (\<exists>payreq. payments s = payments s0 @ [CvSend payreq 20, CvPayReply []]) \<and> opens s = opens s0 @ [CvOpenSeen])"
proof -
  from marks_payments [OF keeps_cmdSetup [OF c]] have s1: "payments s1 = payments s0" "opens s1 = opens s0" .
  show ?thesis
  proof (cases "\<exists>plan t. prepare E ccfg n s1 = (Ok plan, t)")
    case True
    then obtain policy payreq hash t where p: "prepare E ccfg n s1 = (Ok (policy, payreq, hash), t)" by auto
    then obtain u where f: "fetchPolicy E ccfg s1 = (Ok policy, u)" "checkPolicy policy n = Ok ()"
      by (cases rule: prepare_Ok) blast
    then have b: "pr_MinChanSize policy \<le> n" "n \<le> pr_MaxChanSize policy" by (simp_all add: checkPolicy_Ok)
    then have "pr_MaxChanSize policy < 0x8000000000000000 \<longrightarrow> 0 \<le> sint n"
      using i64_of_small_u64 [of n] order_le_less_trans by blast
    moreover from session_invariant [OF se p] s1 have "paid_so_far payreq (payments s0) ph (payments s)"
      "open_seen (opens s0) ph wp (opens s)" by simp_all
    then have "payments s = payments s0 \<or> payments s = payments s0 @ [CvSend payreq 20] \<or>
        (\<exists>perr. payments s = payments s0 @ [CvSend payreq 20, CvPayReply perr])"
      "ph = PayDone (Ok ()) \<longrightarrow> payments s = payments s0 @ [CvSend payreq 20, CvPayReply []] \<and> opens s = opens s0 @ [CvOpenSeen]"
      by (cases ph; auto simp: paid_so_far_def open_seen_def)+
    ultimately show ?thesis using f(1) b by blast
  next
    case False
    with session_prepared [OF se] obtain e where e: "prepare E ccfg n s1 = (Err e, s)" "ph = PayDone (Err e)" by auto
    from marks_payments(1) [OF prepare_marks [OF e(1)]] e(2) s1 show ?thesis by simp
  qed
qed

section \<open>Properties\<close>

text \<open>
  C38. The command pays at most once, whatever options it is given and however its goroutines interleave. When it has
  sent a payment, the channel size it was given was within the policy that the provider sent, so a negative size, which
  wraps, is never paid for unless the policy allows sizes of \<open>2 ^ 63\<close> atoms. It exits with status 0 only after printing
  its help, when it has done nothing, or after dcrlnd answered that payment without a payment error and an open
  event was read.
\<close>

theorem command_pays_once:
  assumes "cmdEnds C parsed s0 r s"
  shows "(payments s = payments s0 \<or>
      (\<exists>cfg E ccfg n s1 policy t payreq. parsed = CmdParsed cfg \<and> cc_NewAmount C (co_ChannelSize cfg) = Inr n \<and>
         cmdSetup C cfg s0 = (Ok (E, ccfg, n), s1) \<and> fetchPolicy E ccfg s1 = (Ok policy, t) \<and>
         pr_MinChanSize policy \<le> n \<and> n \<le> pr_MaxChanSize policy \<and>
         (pr_MaxChanSize policy < 0x8000000000000000 \<longrightarrow> 0 \<le> sint n) \<and>
         (payments s = payments s0 @ [CvSend payreq 20] \<or>
          (\<exists>perr. payments s = payments s0 @ [CvSend payreq 20, CvPayReply perr])))) \<and>
    (cmdExit r = 0 \<longrightarrow> (\<exists>m. parsed = CmdHelp m) \<and> s = s0 \<or>
       (\<exists>payreq. payments s = payments s0 @ [CvSend payreq 20, CvPayReply []]) \<and> opens s = opens s0 @ [CvOpenSeen])"
  using assms
proof (cases rule: cmdEnds.cases)
  case (returns cfg E ccfg n s1 wp)
  from session_not_done [OF returns(3)] have "r \<noteq> Err ErrCmdDone" by (simp add: not_done_def)
  then have "cmdExit r = 0 \<Longrightarrow> r = Ok ()" by (cases r) (auto split: if_splits)
  with command_session [OF returns(2,3)] returns(1,2) cmdSetup_Ok [OF returns(2)] show ?thesis by blast
next
  case (panics cfg E ccfg n s1 ph)
  then have "cmdExit r \<noteq> 0" by simp
  with command_session [OF panics(3,4)] panics(2,3) cmdSetup_Ok [OF panics(3)] show ?thesis by blast
qed (auto dest: cmdSetup_Err_kind keeps_cmdSetup intro: marks_payments)

text \<open>
  The command of the sample client: 0.01048576 DCR from the provider of \<open>Client_Lib\<close>, over a connection that
  always comes up.
\<close>

definition sampleCalls :: "(int sys, unit, unit, unit, unit) cmdCalls" where
  "sampleCalls = \<lparr>
     cc_dial = \<lparr>d_TLSFromFile = \<lambda>_ w. (Inr (), w), d_ReadFile = \<lambda>_ w. (Inr ''pem'', w), d_Unmarshal = \<lambda>_. Inr (),
       d_Credential = \<lambda>_. Inr (), d_NewClient = \<lambda>_ _ _ w. (Inr (), w)\<rparr>,
     cc_NewAmount = \<lambda>x. (case x of Fin r \<Rightarrow> Inr (word_of_int (rne (r * 10 ^ 8))) | _ \<Rightarrow> Inl ''invalid coin amount''),
     cc_pemOk = \<lambda>pem. pem = ''pem'', cc_client = \<lambda>_ _. sampleClient\<rparr>"

definition sampleCommand :: cmdOptions where
  "sampleCommand = \<lparr>co_Address = ''lp'', co_Key = ''secret'', co_ChannelSize = Fin (1048576 / 10 ^ 8), co_Debug = False,
     co_ServerCertPath = ''cert'', co_LNRPCHost = ''host'', co_LNTLSCertPath = ''tls'', co_LNMacaroonPath = ''mac''\<rparr>"

lemma sample_setup:
  "cmdSetup sampleCalls sampleCommand sampleClientState =
     (Ok (withCallbacks sampleClient, sampleClientCfg, 1048576), sampleClientState)"
  by (simp add: cmdSetup_def cmdConnect_def wrapErr_def call_def pureR_def newClient_def sampleCalls_def sampleCommand_def
      sampleClientCfg_def rne_def)

theorem command_pays_once_witness:
  "\<exists>s. cmdEnds sampleCalls (CmdParsed sampleCommand) sampleClientState (Ok ()) s \<and>
     (\<exists>payreq. payments s = [CvSend payreq 20, CvPayReply []]) \<and> opens s = [CvOpenSeen]"
proof -
  obtain t where p: "prepare (withCallbacks sampleClient) sampleClientCfg 1048576 sampleClientState =
     (Ok (handlePolicy sampleNode lpCfg, ''payreq'', ''hash''), t)"
    using sample_prepare_with [where pf = "Some (\<lambda>policy w. (Inr (), w))" and ann = "Some (\<lambda>payHash w. w)" and
        paid = "Some (\<lambda>w. w)" and pend = "Some (\<lambda>channelPoint capacity w. w)" and evs = "[]"]
    by (auto simp: withCallbacks_def sampleClientState_def)
  have "\<exists>s. session (withCallbacks sampleClient) sampleClientCfg 1048576 sampleClientState (PayDone (Ok ()), WDone, s)"
    by (rule session_succeeds [OF p]) (simp_all add: sampleClient_def withCallbacks_def)
  then obtain s where "cmdEnds sampleCalls (CmdParsed sampleCommand) sampleClientState (Ok ()) s"
    using cmdEnds.returns [OF refl sample_setup] by blast
  moreover from command_pays_once [OF this] have "(\<exists>payreq. payments s = [CvSend payreq 20, CvPayReply []]) \<and> opens s = [CvOpenSeen]"
    by (simp add: payments_def opens_def sampleClientState_def)
  ultimately show ?thesis by blast
qed

end
