(* ===== verification/Server_Run.thy ===== *)
theory Server_Run
  imports Order_Ledger Server_Start
begin

text \<open>
  \<open>Server.Run\<close>: its four goroutines as one machine, from the start to the return of \<open>g.Wait\<close>, with the
  goroutines of requests and openings beside them. What happens to the server in it is a run of
  \<open>Server_System\<close>; what is added is who has ended, with which error, and when the connection is closed.
\<close>

section \<open>The group of goroutines\<close>

text \<open>
  \<open>golang.org/x/sync/errgroup\<close> is a parameter: \<open>g_new\<close> is the group of \<open>WithContext\<close>, \<open>g_end\<close> a function of
  the group returning, \<open>g_canceled\<close> whether the group has canceled its context, and \<open>g_first\<close> what \<open>Wait\<close> returns
  when all functions have. The laws are its documentation: the context is canceled the first time a function
  returns an error, and \<open>Wait\<close> returns the first error.
\<close>

record 'g errgroup =
  g_new :: 'g
  g_end :: "err option \<Rightarrow> 'g \<Rightarrow> 'g"
  g_canceled :: "'g \<Rightarrow> bool"
  g_first :: "'g \<Rightarrow> err option"

definition group_laws :: "'g errgroup \<Rightarrow> bool" where
  "group_laws G \<longleftrightarrow> \<not> g_canceled G (g_new G) \<and> g_first G (g_new G) = None \<and>
     (\<forall>e g. g_canceled G (g_end G e g) = (g_canceled G g \<or> e \<noteq> None) \<and>
        g_first G (g_end G e g) = (case g_first G g of None \<Rightarrow> e | Some e' \<Rightarrow> Some e'))"

section \<open>The machine\<close>

text \<open>
  Where the listener is: before its test of the context, before the subscription, before a \<open>Recv\<close>, in \<open>delay\<close>,
  or returned. The other three goroutines are in their \<open>select\<close> or have returned.
\<close>

datatype listenPhase = LCheck | LSubscribe | LReading | LPause | LReturned
datatype loopPhase = Looping | Returned

record ('w, 'g) running =
  rn_sys :: "'w sys"
  rn_group :: 'g
  rn_parent :: bool
  rn_listener :: listenPhase
  rn_sweeper :: loopPhase
  rn_manager :: loopPhase
  rn_closer :: loopPhase
  rn_conn :: bool
  rn_result :: "err option option"

text \<open>\<open>rn_parent\<close>: the context that \<open>Run\<close> was given is canceled. \<open>rn_conn\<close>: the connection to dcrlnd is open.\<close>

definition runStart :: "'g errgroup \<Rightarrow> 'w sys \<Rightarrow> ('w, 'g) running" where
  "runStart G s = \<lparr>rn_sys = s, rn_group = g_new G, rn_parent = False, rn_listener = LCheck,
     rn_sweeper = Looping, rn_manager = Looping, rn_closer = Looping, rn_conn = True, rn_result = None\<rparr>"

definition ctxDone :: "'g errgroup \<Rightarrow> ('w, 'g) running \<Rightarrow> bool" where
  "ctxDone G r \<longleftrightarrow> rn_parent r \<or> g_canceled G (rn_group r)"

definition goReturn :: "'g errgroup \<Rightarrow> err \<Rightarrow> ('w, 'g) running \<Rightarrow> ('w, 'g) running" where
  "goReturn G e r = r\<lparr>rn_group := g_end G (Some e) (rn_group r)\<rparr>"

definition allReturned :: "('w, 'g) running \<Rightarrow> bool" where
  "allReturned r \<longleftrightarrow> rn_listener r = LReturned \<and> rn_sweeper r = Returned \<and> rn_manager r = Returned \<and>
     rn_closer r = Returned"

text \<open>What runs beside the four: request handlers, openings, closings, and the outside.\<close>

inductive side_step :: "'w env \<Rightarrow> config \<Rightarrow> 'w sys \<Rightarrow> 'w sys \<Rightarrow> bool" for E cfg where
  side_outside: "side_step E cfg s (s\<lparr>world := w\<rparr>)"
| side_request: "wf_winv w \<Longrightarrow> side_step E cfg s (requestStep E cfg w s)"
| side_issue: "tasks s = xs @ CreateTask w # ys \<Longrightarrow> issueInvoice E cfg w s = (x, t) \<Longrightarrow>
    side_step E cfg s (t\<lparr>tasks := xs @ ys\<rparr>)"
| side_open: "tasks s = xs @ OpenTask w ph # ys \<Longrightarrow> openStep E cfg w ph s = (nxt, t) \<Longrightarrow>
    side_step E cfg s (t\<lparr>tasks := xs @ putBack nxt w @ ys\<rparr>)"
| side_recv: "tasks s = xs @ OpenTask w OpenWatch # ys \<Longrightarrow> openRecv E w u s = (st, t) \<Longrightarrow>
    side_step E cfg s (t\<lparr>tasks := xs @ putBack (if st = Reading then Some OpenWatch else None) w @ ys\<rparr>)"
| side_closing: "tasks s = xs @ CloseTask n cp # ys \<Longrightarrow> closeChannel E n cp s = (x, t) \<Longrightarrow>
    side_step E cfg s (t\<lparr>tasks := xs @ ys\<rparr>)"

text \<open>
  One step. A goroutine in a \<open>select\<close> on its timer and the context may take the timer as long as it has not
  taken the other. \<open>SubscribeInvoices\<close> may fail at any time, and does not succeed on a closed connection; \<open>Recv\<close> may
  fail at any time, and may still deliver what had arrived before the connection was closed.
\<close>

inductive run_step :: "'g errgroup \<Rightarrow> sorter \<Rightarrow> 'w env \<Rightarrow> config \<Rightarrow> ('w, 'g) running \<Rightarrow> ('w, 'g) running \<Rightarrow> bool"
  for G srt E cfg where
  beside: "side_step E cfg (rn_sys r) t \<Longrightarrow> run_step G srt E cfg r (r\<lparr>rn_sys := t\<rparr>)"
| cancel: "run_step G srt E cfg r (r\<lparr>rn_parent := True\<rparr>)"
| check: "rn_listener r = LCheck \<Longrightarrow> \<not> ctxDone G r \<Longrightarrow> run_step G srt E cfg r (r\<lparr>rn_listener := LSubscribe\<rparr>)"
| listener_stops: "rn_listener r = LCheck \<Longrightarrow> ctxDone G r \<Longrightarrow>
    run_step G srt E cfg r (goReturn G ErrCanceled (r\<lparr>rn_listener := LReturned\<rparr>))"
| subscribed: "rn_listener r = LSubscribe \<Longrightarrow> rn_conn r \<Longrightarrow> run_step G srt E cfg r (r\<lparr>rn_listener := LReading\<rparr>)"
| not_subscribed: "rn_listener r = LSubscribe \<Longrightarrow> run_step G srt E cfg r (r\<lparr>rn_listener := LPause\<rparr>)"
| received: "rn_listener r = LReading \<Longrightarrow> handleInvoiceUpdate E cfg i (rn_sys r) = (Ok u, t) \<Longrightarrow>
    run_step G srt E cfg r (r\<lparr>rn_sys := t\<rparr>)"
| listener_fails: "rn_listener r = LReading \<Longrightarrow> handleInvoiceUpdate E cfg i (rn_sys r) = (Err e, t) \<Longrightarrow>
    run_step G srt E cfg r (goReturn G e (r\<lparr>rn_sys := t, rn_listener := LReturned\<rparr>))"
| broken: "rn_listener r = LReading \<Longrightarrow> run_step G srt E cfg r (r\<lparr>rn_listener := LPause\<rparr>)"
| paused: "rn_listener r = LPause \<Longrightarrow>
    run_step G srt E cfg r (r\<lparr>rn_sys := listenDelay E (rn_sys r), rn_listener := LCheck\<rparr>)"
| sweeps: "rn_sweeper r = Looping \<Longrightarrow> run_step G srt E cfg r (r\<lparr>rn_sys := sweepPending E cfg (rn_sys r)\<rparr>)"
| sweeper_stops: "rn_sweeper r = Looping \<Longrightarrow> ctxDone G r \<Longrightarrow>
    run_step G srt E cfg r (goReturn G ErrCanceled (r\<lparr>rn_sweeper := Returned\<rparr>))"
| manages: "rn_manager r = Looping \<Longrightarrow> manageChannels srt E cfg (rn_sys r) = (x, t) \<Longrightarrow> \<forall>m. x \<noteq> Panic m \<Longrightarrow>
    run_step G srt E cfg r (r\<lparr>rn_sys := t\<rparr>)"
| manager_stops: "rn_manager r = Looping \<Longrightarrow> ctxDone G r \<Longrightarrow>
    run_step G srt E cfg r (goReturn G ErrCanceled (r\<lparr>rn_manager := Returned\<rparr>))"
| closer_stops: "rn_closer r = Looping \<Longrightarrow> ctxDone G r \<Longrightarrow>
    run_step G srt E cfg r (goReturn G ErrCanceled (r\<lparr>rn_closer := Returned, rn_conn := False\<rparr>))"
| returns: "allReturned r \<Longrightarrow> rn_result r = None \<Longrightarrow>
    run_step G srt E cfg r (r\<lparr>rn_result := Some (g_first G (rn_group r))\<rparr>)"

text \<open>What \<open>_main\<close> makes of the result: anything but a cancellation is fatal, and shuts the daemon down.\<close>

definition runFatal :: "err option \<Rightarrow> bool" where
  "runFatal x \<longleftrightarrow> x \<noteq> None \<and> x \<noteq> Some ErrCanceled"

section \<open>The server inside\<close>

lemma run_reach: "(step srt E cfg)\<^sup>*\<^sup>* s t \<Longrightarrow> reach srt E cfg s t"
  by (induction rule: rtranclp_induct) (auto intro: reach.intros)

lemma side_step_is_step: "side_step E cfg s t \<Longrightarrow> step srt E cfg s t"
  by (induction rule: side_step.induct) (rule step.intros; assumption)+

lemma goReturn_simps [simp]:
  "rn_sys (goReturn G e r) = rn_sys r" "rn_parent (goReturn G e r) = rn_parent r"
  "rn_listener (goReturn G e r) = rn_listener r" "rn_sweeper (goReturn G e r) = rn_sweeper r"
  "rn_manager (goReturn G e r) = rn_manager r" "rn_closer (goReturn G e r) = rn_closer r"
  "rn_conn (goReturn G e r) = rn_conn r" "rn_result (goReturn G e r) = rn_result r"
  "rn_group (goReturn G e r) = g_end G (Some e) (rn_group r)"
  by (simp_all add: goReturn_def)

lemma run_step_sys: "run_step G srt E cfg r r' \<Longrightarrow> (step srt E cfg)\<^sup>*\<^sup>* (rn_sys r) (rn_sys r')"
proof (induction rule: run_step.induct)
  case (beside r t)
  then show ?case by (auto intro: side_step_is_step)
next
  case (received r i u t)
  from step.update [OF received(2)] show ?case by auto
next
  case (listener_fails r i e t)
  from step.update [OF listener_fails(2)] show ?case by auto
next
  case (manages r x t)
  from step.manage [OF manages(2,3)] show ?case by auto
qed (auto intro: step.intros)

interpretation inside: simulation "run_step G srt E cfg" "\<lambda>_. True" "step srt E cfg" rn_sys for G srt E cfg
  by unfold_locales (auto dest: run_step_sys)

section \<open>Errors and the end\<close>

lemma handleInvoiceUpdate_Err: "handleInvoiceUpdate E cfg i s = (Err e, t) \<Longrightarrow> e \<noteq> ErrCanceled"
  by (auto simp: handleInvoiceUpdate_def Let_def readJsonFile_def removeFile_def ask_def bindR_iffs
      split: invoiceState.splits prod.splits option.splits res.splits err.splits if_splits)

text \<open>
  The invariant: the group is canceled once it has an error, a returned goroutine has left one, and without a
  cancellation from outside it is not a cancellation; the connection is open until the closer returns.
\<close>

definition steady :: "'g errgroup \<Rightarrow> ('w, 'g) running \<Rightarrow> bool" where
  "steady G r \<longleftrightarrow> (g_canceled G (rn_group r) \<longleftrightarrow> g_first G (rn_group r) \<noteq> None) \<and>
     (g_first G (rn_group r) = Some ErrCanceled \<longrightarrow> rn_parent r) \<and>
     (rn_listener r = LReturned \<or> rn_sweeper r = Returned \<or> rn_manager r = Returned \<or> rn_closer r = Returned \<longrightarrow>
        g_first G (rn_group r) \<noteq> None) \<and>
     (rn_conn r \<longleftrightarrow> rn_closer r = Looping) \<and>
     (\<forall>x. rn_result r = Some x \<longrightarrow> allReturned r \<and> x = g_first G (rn_group r))"

lemma steady_step:
  assumes "run_step G srt E cfg r r'" and "group_laws G" and "steady G r"
  shows "steady G r'"
proof -
  have laws: "g_canceled G (g_end G e g) = (g_canceled G g \<or> e \<noteq> None)"
    "g_first G (g_end G e g) = (case g_first G g of None \<Rightarrow> e | Some e' \<Rightarrow> Some e')" for e g
    using assms(2) unfolding group_laws_def by blast+
  from assms(1,3) show ?thesis
    by (induction rule: run_step.induct)
      (auto simp: steady_def allReturned_def ctxDone_def laws split: option.splits dest: handleInvoiceUpdate_Err)
qed

interpretation steady_kept: invariant_system "run_step G srt E cfg" "\<lambda>r. group_laws G \<and> steady G r" for G srt E cfg
  by unfold_locales (auto intro: steady_step)

lemma steady_start: "group_laws G \<Longrightarrow> steady G (runStart G s)"
  by (simp add: steady_def runStart_def group_laws_def)

lemma steady_run: "group_laws G \<Longrightarrow> (run_step G srt E cfg)\<^sup>*\<^sup>* (runStart G s) r \<Longrightarrow> steady G r"
  using steady_kept.ok_run [of G srt E cfg "runStart G s" r] steady_start by blast

section \<open>Winding down\<close>

text \<open>How far the four goroutines and the return of \<open>Wait\<close> are away, once the context is done.\<close>

fun listenRank :: "listenPhase \<Rightarrow> nat" where
  "listenRank LSubscribe = 4" | "listenRank LReading = 3" | "listenRank LPause = 2" | "listenRank LCheck = 1"
| "listenRank LReturned = 0"

fun loopRank :: "loopPhase \<Rightarrow> nat" where
  "loopRank Looping = 1" | "loopRank Returned = 0"

definition runRank :: "('w, 'g) running \<Rightarrow> nat" where
  "runRank r = listenRank (rn_listener r) + loopRank (rn_sweeper r) + loopRank (rn_manager r) +
     loopRank (rn_closer r) + (if rn_result r = None then 1 else 0)"

lemma done_stays:
  assumes "run_step G srt E cfg r r'" and "group_laws G" and "ctxDone G r"
  shows "ctxDone G r' \<and> runRank r' \<le> runRank r"
proof -
  have laws: "g_canceled G (g_end G e g) = (g_canceled G g \<or> e \<noteq> None)" for e g
    using assms(2) unfolding group_laws_def by blast
  from assms(1,3) show ?thesis by (induction rule: run_step.induct) (auto simp: ctxDone_def laws runRank_def)
qed

lemma done_closer:
  assumes "ctxDone G r" and "rn_result r = None"
  shows "\<exists>r'. run_step G srt E cfg r r' \<and> runRank r' < runRank r"
proof (cases "allReturned r")
  case True
  from run_step.returns [OF this assms(2)] assms(2) show ?thesis by (intro exI conjI) (auto simp: runRank_def)
next
  case False
  then consider "rn_listener r = LCheck" | "rn_listener r = LSubscribe" | "rn_listener r = LReading"
    | "rn_listener r = LPause" | "rn_sweeper r = Looping" | "rn_manager r = Looping" | "rn_closer r = Looping"
    unfolding allReturned_def by (metis listenPhase.exhaust loopPhase.exhaust)
  then show ?thesis
  proof cases
    case 1
    from run_step.listener_stops [OF 1 assms(1)] 1 show ?thesis by (intro exI conjI) (auto simp: runRank_def)
  next
    case 2
    from run_step.not_subscribed [OF 2] 2 show ?thesis by (intro exI conjI) (auto simp: runRank_def)
  next
    case 3
    from run_step.broken [OF 3] 3 show ?thesis by (intro exI conjI) (auto simp: runRank_def)
  next
    case 4
    from run_step.paused [OF 4] 4 show ?thesis by (intro exI conjI) (auto simp: runRank_def)
  next
    case 5
    from run_step.sweeper_stops [OF 5 assms(1)] 5 show ?thesis by (intro exI conjI) (auto simp: runRank_def)
  next
    case 6
    from run_step.manager_stops [OF 6 assms(1)] 6 show ?thesis by (intro exI conjI) (auto simp: runRank_def)
  next
    case 7
    from run_step.closer_stops [OF 7 assms(1)] 7 show ?thesis by (intro exI conjI) (auto simp: runRank_def)
  qed
qed

lemma done_returns:
  assumes "group_laws G" and "ctxDone G r"
  shows "\<exists>r'. (run_step G srt E cfg)\<^sup>*\<^sup>* r r' \<and> rn_result r' \<noteq> None"
  using assms(2)
proof (induction "runRank r" arbitrary: r rule: less_induct)
  case less
  show ?case
  proof (cases "rn_result r = None")
    case True
    from done_closer [OF less.prems True] obtain r' where r': "run_step G srt E cfg r r'" "runRank r' < runRank r" by blast
    with done_stays [OF r'(1) assms(1) less.prems] less.hyps show ?thesis by (meson converse_rtranclp_into_rtranclp)
  qed auto
qed

section \<open>Properties\<close>

text \<open>
  C31. The return of \<open>Run\<close>: it returns only when the listener, the cleanup, the management and the closer have all
  returned and the connection to dcrlnd is closed, and always with an error. Without a cancellation from outside
  the error is one that \<open>_main\<close> takes as fatal, so the daemon never goes on without its server. Whatever the
  goroutines did on the way is a run of the system, with all its invariants.
\<close>

theorem run_returns:
  assumes "group_laws G" and "(run_step G srt E cfg)\<^sup>*\<^sup>* (runStart G s0) r" and "rn_result r = Some x"
  shows "allReturned r \<and> \<not> rn_conn r \<and> x \<noteq> None \<and> (\<not> rn_parent r \<longrightarrow> runFatal x) \<and> reach srt E cfg s0 (rn_sys r)"
proof -
  from steady_run [OF assms(1,2)] assms(3) have "steady G r" "allReturned r" "x = g_first G (rn_group r)"
    by (auto simp: steady_def)
  moreover from inside.run_refines [OF assms(2)] have "reach srt E cfg s0 (rn_sys r)"
    by (simp add: runStart_def run_reach)
  ultimately show ?thesis by (auto simp: steady_def allReturned_def runFatal_def)
qed

text \<open>
  A run on a directory in which the file of an invoice is not JSON: when its settlement arrives the listener
  fails, the others stop, and \<open>Run\<close> returns the listener's error.
\<close>

definition sampleGroup :: "err option errgroup" where
  "sampleGroup = \<lparr>g_new = None, g_end = (\<lambda>e g. case g of None \<Rightarrow> e | Some _ \<Rightarrow> g), g_canceled = (\<lambda>g. g \<noteq> None),
     g_first = (\<lambda>g. g)\<rparr>"

lemma sampleGroup_laws: "group_laws sampleGroup"
  by (auto simp: group_laws_def sampleGroup_def split: option.split)

definition brokenDir :: "int sys" where
  "brokenDir = sampleState\<lparr>files := [samplePath \<mapsto> ''x'']\<rparr>"

lemma broken_update: "handleInvoiceUpdate sampleEnv sampleCfg samplePaid brokenDir = (Err (ErrOther ''json''), brokenDir)"
proof -
  have "decodeWaitingInvoice ''x'' = None"
    by (simp add: decodeWaitingInvoice_def parse_value.simps [of "''x''"] skip_ws_id is_ws_def parse_num_def num_int_def
        span_digits_def is_digit_def)
  then show ?thesis
    by (simp add: handleInvoiceUpdate_def Let_def samplePaid_def readJsonFile_def ask_def sampleEnv_def brokenDir_def
        samplePath_def sampleState_def)
qed

definition brokenAt :: "err option \<Rightarrow> listenPhase \<Rightarrow> loopPhase \<Rightarrow> loopPhase \<Rightarrow> loopPhase \<Rightarrow> err option option \<Rightarrow>
    (int, err option) running" where
  "brokenAt g l sw m c res = \<lparr>rn_sys = brokenDir, rn_group = g, rn_parent = False, rn_listener = l, rn_sweeper = sw,
     rn_manager = m, rn_closer = c, rn_conn = (c = Looping), rn_result = res\<rparr>"

lemma broken_run:
  "(run_step sampleGroup srt sampleEnv sampleCfg)\<^sup>*\<^sup>* (runStart sampleGroup brokenDir)
     (brokenAt (Some (ErrOther ''json'')) LReturned Returned Returned Returned (Some (Some (ErrOther ''json''))))"
proof -
  let ?R = "run_step sampleGroup srt sampleEnv sampleCfg" and ?e = "Some (ErrOther ''json'')"
  note eval = brokenAt_def sampleGroup_def goReturn_def ctxDone_def allReturned_def
  have start: "runStart sampleGroup brokenDir = brokenAt None LCheck Looping Looping Looping None"
    by (simp add: runStart_def eval)
  have 1: "?R (brokenAt None LCheck Looping Looping Looping None) (brokenAt None LSubscribe Looping Looping Looping None)"
    using run_step.check [of "brokenAt None LCheck Looping Looping Looping None" sampleGroup] by (simp add: eval)
  have 2: "?R (brokenAt None LSubscribe Looping Looping Looping None) (brokenAt None LReading Looping Looping Looping None)"
    using run_step.subscribed [of "brokenAt None LSubscribe Looping Looping Looping None"] by (simp add: eval)
  have "rn_sys (brokenAt None LReading Looping Looping Looping None) = brokenDir" by (simp add: eval)
  with broken_update have "handleInvoiceUpdate sampleEnv sampleCfg samplePaid
      (rn_sys (brokenAt None LReading Looping Looping Looping None)) = (Err (ErrOther ''json''), brokenDir)" by simp
  from run_step.listener_fails [OF _ this, where G = sampleGroup]
  have 3: "?R (brokenAt None LReading Looping Looping Looping None) (brokenAt ?e LReturned Looping Looping Looping None)"
    by (simp add: eval)
  have 4: "?R (brokenAt ?e LReturned Looping Looping Looping None) (brokenAt ?e LReturned Returned Looping Looping None)"
    using run_step.sweeper_stops [of "brokenAt ?e LReturned Looping Looping Looping None" sampleGroup] by (simp add: eval)
  have 5: "?R (brokenAt ?e LReturned Returned Looping Looping None) (brokenAt ?e LReturned Returned Returned Looping None)"
    using run_step.manager_stops [of "brokenAt ?e LReturned Returned Looping Looping None" sampleGroup] by (simp add: eval)
  have 6: "?R (brokenAt ?e LReturned Returned Returned Looping None) (brokenAt ?e LReturned Returned Returned Returned None)"
    using run_step.closer_stops [of "brokenAt ?e LReturned Returned Returned Looping None" sampleGroup] by (simp add: eval)
  have 7: "?R (brokenAt ?e LReturned Returned Returned Returned None) (brokenAt ?e LReturned Returned Returned Returned (Some ?e))"
    using run_step.returns [of "brokenAt ?e LReturned Returned Returned Returned None" sampleGroup] by (simp add: eval)
  show ?thesis unfolding start
    by (meson 1 2 3 4 5 6 7 converse_rtranclp_into_rtranclp rtranclp.rtrancl_refl)
qed

theorem run_returns_witness:
  "runFatal (Some (ErrOther ''json'')) \<and> reach goInsertionSort sampleEnv sampleCfg brokenDir brokenDir"
proof -
  let ?r = "brokenAt (Some (ErrOther ''json'')) LReturned Returned Returned Returned (Some (Some (ErrOther ''json'')))"
  have "rn_result ?r = Some (Some (ErrOther ''json''))" "\<not> rn_parent ?r" "rn_sys ?r = brokenDir"
    by (simp_all add: brokenAt_def)
  with run_returns [OF sampleGroup_laws broken_run this(1), of goInsertionSort] show ?thesis by simp
qed

text \<open>
  C32. \<open>Run\<close> winds down: once its context is done, by a cancellation or by the failure of a goroutine, no step
  of any goroutine leads further away from its return, some step always leads closer as long as it has not returned,
  and so it can always return; a broken subscription or a slow management round only delays it.
\<close>

theorem run_winds_down:
  assumes "group_laws G" and "ctxDone G r"
  shows "(\<forall>r'. run_step G srt E cfg r r' \<longrightarrow> ctxDone G r' \<and> runRank r' \<le> runRank r) \<and>
    (rn_result r = None \<longrightarrow> (\<exists>r'. run_step G srt E cfg r r' \<and> runRank r' < runRank r)) \<and>
    (\<exists>r'. (run_step G srt E cfg)\<^sup>*\<^sup>* r r' \<and> rn_result r' \<noteq> None)"
  using done_stays [OF _ assms] done_closer [OF assms(2)] done_returns [OF assms] by blast

theorem run_winds_down_witness:
  "\<exists>r'. (run_step sampleGroup goInsertionSort sampleEnv sampleCfg)\<^sup>*\<^sup>*
       ((runStart sampleGroup brokenDir)\<lparr>rn_parent := True\<rparr>) r' \<and> rn_result r' \<noteq> None"
proof -
  have "ctxDone sampleGroup ((runStart sampleGroup brokenDir)\<lparr>rn_parent := True\<rparr>)" by (simp add: ctxDone_def)
  from run_winds_down [OF sampleGroup_laws this] show ?thesis by blast
qed

end
