(* ===== verification/Http_Router.thy ===== *)
theory Http_Router
  imports Request_Util End_To_End
begin

text \<open>
  The HTTP handler of the daemon: \<open>handler\<close> of \<open>main.go\<close> with \<open>NewV1Handler\<close> of \<open>server/api-v1.go\<close> and
  \<open>logRouterConfig\<close> of \<open>util.go\<close>. The routes are data of the program; finding the route of a request is the
  router's, \<open>gorilla/mux\<close>, a parameter with its documented behaviour as a law.
\<close>

section \<open>Routes\<close>

datatype target = IndexPage | InfoPage | InvoiceCall | PolicyCall

text \<open>A route: the methods it is restricted to, its path, its name, and the handler.\<close>

record route =
  rt_Methods :: "string list option"
  rt_Path :: string
  rt_Name :: "string option"
  rt_Handler :: target

definition v1Routes :: "route list" where
  "v1Routes =
     [\<lparr>rt_Methods = None, rt_Path = ''/api/v1/invoice'', rt_Name = None, rt_Handler = InvoiceCall\<rparr>,
      \<lparr>rt_Methods = None, rt_Path = ''/api/v1/policy'', rt_Name = None, rt_Handler = PolicyCall\<rparr>]"

definition routes :: "route list" where
  "routes =
     [\<lparr>rt_Methods = Some [''GET''], rt_Path = ''/'', rt_Name = Some ''index'', rt_Handler = IndexPage\<rparr>,
      \<lparr>rt_Methods = Some [''GET''], rt_Path = ''/info'', rt_Name = Some ''info'', rt_Handler = InfoPage\<rparr>] @ v1Routes"

section \<open>The router\<close>

text \<open>
  What the router makes of a method and a path: a route by its position, a redirection (of a path that is not
  clean, or that differs from a route's in its trailing slash), or one of its own answers.
\<close>

datatype muxMatch = MuxRoute nat | MuxRedirect string | MuxNotFound | MuxMethodNotAllowed

type_synonym mux = "route list \<Rightarrow> string \<Rightarrow> string \<Rightarrow> muxMatch"

definition routeMatches :: "string \<Rightarrow> string \<Rightarrow> route \<Rightarrow> bool" where
  "routeMatches meth path rt \<longleftrightarrow> rt_Path rt = path \<and>
     (case rt_Methods rt of None \<Rightarrow> True | Some ms \<Rightarrow> meth \<in> set ms)"

text \<open>
  The law, for the routes of the program, whose paths are plain: routes are tested in the order they were added,
  the first that matches wins, and a request that no route matches reaches no handler.
\<close>

definition mux_law :: "mux \<Rightarrow> bool" where
  "mux_law M \<longleftrightarrow> (\<forall>meth path.
     (\<forall>i. M routes meth path = MuxRoute i \<longrightarrow> i < length routes \<and> routeMatches meth path (routes ! i) \<and>
        (\<forall>j < i. \<not> routeMatches meth path (routes ! j))) \<and>
     ((\<exists>rt \<in> set routes. routeMatches meth path rt) \<longrightarrow> (\<exists>i. M routes meth path = MuxRoute i)))"

section \<open>Requests and answers\<close>

record httpRequest =
  hr_Method :: string
  hr_Path :: string
  hr_From :: request
  hr_Body :: string

datatype page = TextPage string | InfoAnswer infoReply | ApiAnswer reply | Redirected string | NoPage nat

fun serveTarget :: "target \<Rightarrow> sorter \<Rightarrow> 'w env \<Rightarrow> config \<Rightarrow> nodeID \<Rightarrow> string \<Rightarrow> httpRequest \<Rightarrow> 'w sys \<Rightarrow>
    page \<times> 'w sys" where
  "serveTarget IndexPage srt E cfg node version req s = (TextPage (indexHandler version), s)"
| "serveTarget InfoPage srt E cfg node version req s =
     (case infoHandler srt E cfg (hr_From req) s of (a, t) \<Rightarrow> (InfoAnswer a, t))"
| "serveTarget InvoiceCall srt E cfg node version req s =
     (case serveInvoice E cfg (hr_Body req) s of (a, t) \<Rightarrow> (ApiAnswer a, t))"
| "serveTarget PolicyCall srt E cfg node version req s = (ApiAnswer (servePolicy node cfg), s)"

text \<open>\<open>node\<close> and \<open>version\<close> are the server's node id and \<open>version.String()\<close>.\<close>

definition handler :: "mux \<Rightarrow> sorter \<Rightarrow> 'w env \<Rightarrow> config \<Rightarrow> nodeID \<Rightarrow> string \<Rightarrow> httpRequest \<Rightarrow> 'w sys \<Rightarrow>
    page \<times> 'w sys" where
  "handler M srt E cfg node version req s =
     (case M routes (hr_Method req) (hr_Path req) of
        MuxRoute i \<Rightarrow> serveTarget (rt_Handler (routes ! i)) srt E cfg node version req s
      | MuxRedirect path \<Rightarrow> (Redirected path, s)
      | MuxNotFound \<Rightarrow> (NoPage 404, s)
      | MuxMethodNotAllowed \<Rightarrow> (NoPage 405, s))"

section \<open>Logging the routes\<close>

text \<open>What a route tells of itself; an error where it has nothing of the kind.\<close>

record routeInfo =
  ri_PathTemplate :: "string + string"
  ri_PathRegexp :: "string + string"
  ri_QueriesTemplates :: "string + string list"
  ri_QueriesRegexps :: "string + string list"
  ri_Methods :: "string + string list"

fun joinComma :: "string list \<Rightarrow> string" where
  "joinComma [] = []"
| "joinComma [x] = x"
| "joinComma (x # xs) = x @ '','' @ joinComma xs"

definition logged :: "string \<Rightarrow> ('a \<Rightarrow> string) \<Rightarrow> string + 'a \<Rightarrow> string list" where
  "logged what f x = (case x of Inl _ \<Rightarrow> [] | Inr y \<Rightarrow> [what @ f y])"

definition logRoute :: "routeInfo \<Rightarrow> string list" where
  "logRoute r = logged ''ROUTE: '' id (ri_PathTemplate r) @ logged ''Path regexp: '' id (ri_PathRegexp r) @
     logged ''Queries templates: '' joinComma (ri_QueriesTemplates r) @
     logged ''Queries regexps: '' joinComma (ri_QueriesRegexps r) @ logged ''Methods: '' joinComma (ri_Methods r) @ [[]]"

text \<open>\<open>Walk\<close> visits the routes in order; the visitor never fails, so the panic is not reached.\<close>

fun logRouterConfig :: "routeInfo list \<Rightarrow> string list" where
  "logRouterConfig [] = []"
| "logRouterConfig (r # rs) = logRoute r @ logRouterConfig rs"

section \<open>Which handler a request reaches\<close>

lemma routes_nth:
  "length routes = 4" "i < length routes \<longleftrightarrow> i = 0 \<or> i = 1 \<or> i = 2 \<or> i = 3"
  "routes ! 0 = \<lparr>rt_Methods = Some [''GET''], rt_Path = ''/'', rt_Name = Some ''index'', rt_Handler = IndexPage\<rparr>"
  "routes ! 1 = \<lparr>rt_Methods = Some [''GET''], rt_Path = ''/info'', rt_Name = Some ''info'', rt_Handler = InfoPage\<rparr>"
  "routes ! 2 = \<lparr>rt_Methods = None, rt_Path = ''/api/v1/invoice'', rt_Name = None, rt_Handler = InvoiceCall\<rparr>"
  "routes ! 3 = \<lparr>rt_Methods = None, rt_Path = ''/api/v1/policy'', rt_Name = None, rt_Handler = PolicyCall\<rparr>"
  by (auto simp: routes_def v1Routes_def numeral_2_eq_2 numeral_3_eq_3)

lemmas routes_nth_Suc = routes_nth(4) [unfolded One_nat_def]

text \<open>The route that the law leaves: at most one of the program's routes matches.\<close>

definition targetOf :: "string \<Rightarrow> string \<Rightarrow> target option" where
  "targetOf meth path =
     (if path = ''/'' \<and> meth = ''GET'' then Some IndexPage
      else if path = ''/info'' \<and> meth = ''GET'' then Some InfoPage
      else if path = ''/api/v1/invoice'' then Some InvoiceCall
      else if path = ''/api/v1/policy'' then Some PolicyCall else None)"

lemma targetOf_matches: "i < length routes \<Longrightarrow> routeMatches meth path (routes ! i) \<Longrightarrow>
    targetOf meth path = Some (rt_Handler (routes ! i))"
  unfolding routes_nth(2) by (elim disjE) (auto simp: routes_nth routes_nth_Suc routeMatches_def targetOf_def)

lemma no_target: "targetOf meth path = None \<Longrightarrow> i < length routes \<Longrightarrow> \<not> routeMatches meth path (routes ! i)"
  using targetOf_matches [of i meth path] by auto

lemma target_matches: "targetOf meth path = Some tg \<Longrightarrow> \<exists>rt \<in> set routes. routeMatches meth path rt"
  by (auto simp: targetOf_def routes_def v1Routes_def routeMatches_def split: if_splits)

lemma handler_cases:
  assumes "mux_law M" and "handler M srt E cfg node version req s = (p, t)"
  obtains (target) tg where "targetOf (hr_Method req) (hr_Path req) = Some tg"
      "serveTarget tg srt E cfg node version req s = (p, t)"
  | (no_route) "targetOf (hr_Method req) (hr_Path req) = None" "t = s" "(\<exists>to. p = Redirected to) \<or> p = NoPage 404 \<or> p = NoPage 405"
proof (cases "M routes (hr_Method req) (hr_Path req)")
  case (MuxRoute i)
  with assms(1) have "i < length routes" "routeMatches (hr_Method req) (hr_Path req) (routes ! i)"
    unfolding mux_law_def by blast+
  from targetOf_matches [OF this] show thesis using MuxRoute assms(2) by (intro target) (auto simp: handler_def)
qed (use assms no_route target_matches in \<open>fastforce simp: mux_law_def handler_def\<close>)+

section \<open>The client behind the handler\<close>

text \<open>
  The client posts to the two paths of the API, at an address without a path of its own; what it reads is the
  answer of the handler.
\<close>

fun pageOf :: "page \<Rightarrow> string + (nat \<times> string)" where
  "pageOf (ApiAnswer rep) = httpOf rep"
| "pageOf (NoPage status) = Inr (status, [])"
| "pageOf _ = Inl ''unexpected page''"

definition postedTo :: "'c cenv \<Rightarrow> cconfig \<Rightarrow> mux \<Rightarrow> sorter \<Rightarrow> 'w env \<Rightarrow> config \<Rightarrow> nodeID \<Rightarrow> string \<Rightarrow> bool" where
  "postedTo E cfg M srt S scfg node version \<longleftrightarrow>
     (\<forall>path \<in> {''/api/v1/policy'', ''/api/v1/invoice''}. \<forall>body w a w'.
     c_Do E (Address cfg @ path) body w = (Inr a, w') \<longrightarrow>
     (\<exists>req v. hr_Method req = ''POST'' \<and> hr_Path req = path \<and> hr_Body req = body \<and>
        pageOf (fst (handler M srt S scfg node version req v)) = Inr a))"

lemma posted_answered:
  assumes "mux_law M" and "postedTo E cfg M srt S scfg node version"
  shows "answeredBy E cfg S scfg node"
proof -
  have api: "fst (handler M srt S scfg node version req v) = ApiAnswer (fst (serveInvoice S scfg (hr_Body req) v))"
    if "hr_Path req = ''/api/v1/invoice''" for req v
  proof -
    obtain p t where "handler M srt S scfg node version req v = (p, t)" by force
    with that show ?thesis
      by (cases rule: handler_cases [OF assms(1)]) (auto simp: targetOf_def split: prod.splits)
  qed
  have pol: "fst (handler M srt S scfg node version req v) = ApiAnswer (servePolicy node scfg)"
    if "hr_Path req = ''/api/v1/policy''" for req v
  proof -
    obtain p t where "handler M srt S scfg node version req v = (p, t)" by force
    with that show ?thesis
      by (cases rule: handler_cases [OF assms(1)]) (auto simp: targetOf_def)
  qed
  show ?thesis unfolding answeredBy_def
  proof (intro conjI allI impI)
    fix body w a w' assume "c_Do E (Address cfg @ ''/api/v1/policy'') body w = (Inr a, w')"
    from bspec [OF assms(2) [unfolded postedTo_def], of "''/api/v1/policy''"] this
    obtain req v where "hr_Path req = ''/api/v1/policy''"
      "pageOf (fst (handler M srt S scfg node version req v)) = Inr a" by blast
    with pol [of req v] show "httpOf (servePolicy node scfg) = Inr a" by simp
  next
    fix body w a w' assume "c_Do E (Address cfg @ ''/api/v1/invoice'') body w = (Inr a, w')"
    from bspec [OF assms(2) [unfolded postedTo_def], of "''/api/v1/invoice''"] this
    obtain req v where "hr_Path req = ''/api/v1/invoice''" "hr_Body req = body"
      "pageOf (fst (handler M srt S scfg node version req v)) = Inr a" by blast
    with api [of req v] show "\<exists>v. httpOf (fst (serveInvoice S scfg body v)) = Inr a" by auto
  qed
qed

section \<open>Properties\<close>

text \<open>
  C33. Every request reaches the handler of its path and no other: the two pages answer only GET, the two calls of
  the API any method. A request changes the server only if its path is that of the invoice call; one without
  a route is redirected or refused and changes nothing.
\<close>

theorem requests_dispatched:
  assumes "mux_law M" and "handler M srt E cfg node version req s = (p, t)"
  shows "(hr_Path req \<noteq> ''/api/v1/invoice'' \<longrightarrow> quiet s t) \<and>
    (case targetOf (hr_Method req) (hr_Path req) of
       Some IndexPage \<Rightarrow> p = TextPage (indexHandler version) \<and> t = s
     | Some InfoPage \<Rightarrow> \<exists>a. infoHandler srt E cfg (hr_From req) s = (a, t) \<and> p = InfoAnswer a
     | Some InvoiceCall \<Rightarrow> \<exists>a. serveInvoice E cfg (hr_Body req) s = (a, t) \<and> p = ApiAnswer a
     | Some PolicyCall \<Rightarrow> p = ApiAnswer (servePolicy node cfg) \<and> t = s
     | None \<Rightarrow> t = s \<and> ((\<exists>to. p = Redirected to) \<or> p = NoPage 404 \<or> p = NoPage 405))"
  using assms
proof (cases rule: handler_cases)
  case (target tg)
  have "infoHandler srt E cfg (hr_From req) s = (a, t) \<Longrightarrow> quiet s t" for a
    using FetchManagedChannels_quiet by (auto simp: infoHandler_def split: if_splits prod.splits res.splits)
  with target show ?thesis by (cases tg) (auto simp: targetOf_def split: prod.splits if_splits)
next
  case no_route
  then show ?thesis by simp
qed

text \<open>A router that tests the routes in order, and a POST for the policy.\<close>

definition sampleMux :: mux where
  "sampleMux rs meth path =
     (case List.find (\<lambda>i. routeMatches meth path (rs ! i)) [0..<length rs] of
        Some i \<Rightarrow> MuxRoute i
      | None \<Rightarrow> if \<exists>rt \<in> set rs. rt_Path rt = path then MuxMethodNotAllowed else MuxNotFound)"

lemma sampleMux_law: "mux_law sampleMux"
  unfolding mux_law_def
proof (intro allI conjI impI)
  fix meth path i
  assume "sampleMux routes meth path = MuxRoute i"
  then have "List.find (\<lambda>i. routeMatches meth path (routes ! i)) [0..<length routes] = Some i"
    by (auto simp: sampleMux_def split: option.splits if_splits)
  then show "i < length routes" "routeMatches meth path (routes ! i)"
    "j < i \<Longrightarrow> \<not> routeMatches meth path (routes ! j)" for j
    by (auto simp: find_Some_iff)
next
  fix meth path
  assume "\<exists>rt \<in> set routes. routeMatches meth path rt"
  then have "List.find (\<lambda>i. routeMatches meth path (routes ! i)) [0..<length routes] \<noteq> None"
    by (auto simp: find_None_iff in_set_conv_nth)
  then show "\<exists>i. sampleMux routes meth path = MuxRoute i"
    by (auto simp: sampleMux_def)
qed

theorem requests_dispatched_witness:
  "fst (handler sampleMux goInsertionSort sampleEnv sampleCfg sampleNode ''1.0.0''
      \<lparr>hr_Method = ''POST'', hr_Path = ''/api/v1/policy'', hr_From = spoofed, hr_Body = []\<rparr> sampleState) =
   ApiAnswer (servePolicy sampleNode sampleCfg)"
proof -
  let ?req = "\<lparr>hr_Method = ''POST'', hr_Path = ''/api/v1/policy'', hr_From = spoofed, hr_Body = []\<rparr>"
  obtain p t where h: "handler sampleMux goInsertionSort sampleEnv sampleCfg sampleNode ''1.0.0'' ?req sampleState = (p, t)"
    by force
  have "targetOf (hr_Method ?req) (hr_Path ?req) = Some PolicyCall" by (simp add: targetOf_def)
  with requests_dispatched [OF sampleMux_law h] h show ?thesis by simp
qed

text \<open>
  C7. What the client pays for is what the server opens, with the HTTP side of the daemon in between: the client
  posts to the API, the router finds the handler, the handler answers. When such a client has prepared its payment,
  the server has created an invoice for the client's own node, the size asked for and exactly the amount that the
  client's node reads from the invoice, and has stored the record under the invoice's hash. From any later state
  that still has the record, the settlement of that hash over at least this amount starts the opening of a channel
  of this size to this node.
\<close>

theorem posted_request_is_opened:
  assumes "prepare E cfg chanSize s = (Ok (policy, payreq, hash), t)"
    and "mux_law M" and "postedTo E cfg M srt S scfg node version"
    and "wf_nodeID node" and "\<forall>a \<in> set (LNNodeAddrs scfg). valid_utf8 a"
    and "\<forall>r. ChanInvoiceFeeRate scfg = Fin r \<longrightarrow> rnd r = Fin r"
    and "valid_utf8 (Key cfg)" and "textInvoices S" and "c_u64_oor E = e_u64_oor S"
  shows "\<exists>info w w' myID v u rhash price x x' y y'. policy = handlePolicy node scfg \<and>
    c_GetInfo E w = (Inr info, w') \<and> fromString (IdentityPubkey info) = Ok myID \<and>
    CreateInvoice S scfg myID chanSize v = (Ok payreq, u) \<and>
    e_AddInvoice S (invoiceMemo myID chanSize) price (invoiceExpiry S scfg) x = (Inr (rhash, payreq), x') \<and>
    c_DecodePayReq E payreq y = (Inr (price, hash), y') \<and>
    stored u (invoicePath scfg rhash) = Some \<lparr>TargetNode = myID, ChannelSize = chanSize\<rparr> \<and>
    (\<forall>later i. inv_State i = InvSettled \<and> inv_RHash i = rhash \<and> i64_le price (inv_AmtPaidAtoms i) \<and>
       stored later (invoicePath scfg rhash) = stored u (invoicePath scfg rhash) \<longrightarrow>
       (\<exists>z. handleInvoiceUpdate (with_good_fs S) scfg i later = (Ok (), z) \<and>
          tasks z = tasks later @ [OpenTask \<lparr>TargetNode = myID, ChannelSize = chanSize\<rparr> OpenCheck]))"
  by (rule paid_request_is_opened [OF assms(1) posted_answered [OF assms(2,3)] assms(4-9)])

text \<open>The client of \<open>Client_Lib\<close>, whose answers are those of the handler.\<close>

lemma sample_posted: "postedTo sampleClient sampleClientCfg sampleMux srt sampleEnv lpCfg sampleNode version"
proof -
  have "[0..<length routes] = [0, 1, 2, 3]" by (simp add: routes_nth(1) upt_rec)
  then have law: "sampleMux routes ''POST'' ''/api/v1/policy'' = MuxRoute 3"
    "sampleMux routes ''POST'' ''/api/v1/invoice'' = MuxRoute 2"
    by (simp_all add: sampleMux_def routes_nth(3-6) routes_nth_Suc routeMatches_def)
  let ?req = "\<lambda>path body. \<lparr>hr_Method = ''POST'', hr_Path = path, hr_From = spoofed, hr_Body = body\<rparr>"
  have "pageOf (fst (handler sampleMux srt sampleEnv lpCfg sampleNode version (?req path body) w)) = Inr a"
    if "path \<in> {''/api/v1/policy'', ''/api/v1/invoice''}"
      "c_Do sampleClient (Address sampleClientCfg @ path) body w = (Inr a, w')" for path body w a w'
    using that by (auto simp: handler_def law routes_nth sampleClient_def sampleClientCfg_def split: prod.splits)
  then show ?thesis unfolding postedTo_def by (metis (no_types, lifting) httpRequest.select_convs)
qed

theorem posted_request_is_opened_witness:
  "\<exists>v u rhash. CreateInvoice sampleEnv lpCfg sampleNode 1048576 v = (Ok ''payreq'', u) \<and>
     stored u (invoicePath lpCfg rhash) = Some sampleInvoice"
proof -
  obtain t where p: "prepare sampleClient sampleClientCfg 1048576 sampleClientState =
     (Ok (handlePolicy sampleNode lpCfg, ''payreq'', ''hash''), t)" using sample_prepare by blast
  have info: "fromString (IdentityPubkey info) = Ok myID \<Longrightarrow> myID = sampleNode"
    if "c_GetInfo sampleClient w = (Inr info, w')" for info w w' myID
    using that by (auto simp: sampleClient_def fromString_nodeString)
  from posted_request_is_opened [OF p sampleMux_law sample_posted sample_simps(1) sample_policy_sound]
  show ?thesis unfolding sampleInvoice_def using info by blast
qed

end
