(* ===== verification/Log_Output.thy ===== *)
theory Log_Output
  imports Load_Config "HOL-Library.Char_ord" "HOL-Library.List_Lexorder"
begin

text \<open>
  The output side of \<open>log.go\<close>, and the list of subsystems that \<open>--debuglevel show\<close> prints.
\<close>

section \<open>Writing\<close>

text \<open>
  Standard output and the rotator of a file; \<open>Write\<close> ignores their errors. A rotator that was never
  initialized is a nil pointer.
\<close>

record 'w logSinks =
  w_Stdout :: "string \<Rightarrow> 'w \<Rightarrow> 'w"
  w_Rotator :: "string \<Rightarrow> string \<Rightarrow> 'w \<Rightarrow> 'w"

definition logWriter_Write :: "'w logSinks \<Rightarrow> string \<Rightarrow> 'w bootState \<Rightarrow> nat res \<times> 'w bootState" where
  "logWriter_Write W p s =
     (let s = s\<lparr>boot_world := w_Stdout W p (boot_world s)\<rparr> in
      case logRotator s of
        None \<Rightarrow> (Panic ''nil pointer dereference'', s)
      | Some f \<Rightarrow> (Ok (length p), s\<lparr>boot_world := w_Rotator W f p (boot_world s)\<rparr>))"

text \<open>A sequence of messages, up to the first that panics. The first message of the program is the warning at the end
  of \<open>loadConfig\<close> about an unreadable configuration file.\<close>

fun writeAll :: "'w logSinks \<Rightarrow> string list \<Rightarrow> 'w bootState \<Rightarrow> unit res \<times> 'w bootState" where
  "writeAll W [] s = (Ok (), s)"
| "writeAll W (p # ps) s = bindR (logWriter_Write W p s) (\<lambda>_ s. writeAll W ps s)"

lemma logWriter_Write_ready:
  "logRotator s = Some f \<Longrightarrow> \<exists>t. logWriter_Write W p s = (Ok (length p), t) \<and> logRotator t = Some f \<and> loggers t = loggers s"
  by (simp add: logWriter_Write_def)

lemma writeAll_ready:
  "logRotator s = Some f \<Longrightarrow> \<exists>t. writeAll W ps s = (Ok (), t) \<and> logRotator t = Some f \<and> loggers t = loggers s"
proof (induction ps arbitrary: s)
  case (Cons p ps)
  from logWriter_Write_ready [OF Cons.prems, of W p] obtain t where
    t: "logWriter_Write W p s = (Ok (length p), t)" "logRotator t = Some f" "loggers t = loggers s" by blast
  from Cons.IH [OF t(2)] t show ?case by simp
qed simp

text \<open>A daemon whose options were accepted can log: no write panics, whatever is written.\<close>

lemma logging_safe:
  assumes "loadConfig B s = (Ok (cfg, rest), t)"
  shows "\<exists>u. writeAll W ps t = (Ok (), u)"
proof -
  from assms obtain f where "logRotator t = Some f" by (rule loadConfig_Ok) (rule finishConfig_Ok)
  from writeAll_ready [OF this] show ?thesis by blast
qed

section \<open>The supported subsystems\<close>

text \<open>\<open>keys\<close>: the keys of \<open>subsystemLoggers\<close> in the order in which \<open>range\<close> happens to give them.\<close>

definition supportedSubsystems :: "string list \<Rightarrow> string list" where
  "supportedSubsystems keys = sort (fold (\<lambda>subsysID subs. subs @ [subsysID]) keys [])"

lemma fold_snoc: "fold (\<lambda>x acc. acc @ [x]) xs ys = ys @ xs"
  by (induction xs arbitrary: ys) auto

lemma supportedSubsystems_stable:
  assumes "distinct keys" and "set keys = set subsystems"
  shows "supportedSubsystems keys = subsystems"
proof -
  have "sorted subsystems" "distinct subsystems"
    by (simp_all add: subsystems_def less_eq_char_def)
  with assms show ?thesis
    by (simp add: supportedSubsystems_def fold_snoc sorted_distinct_set_unique)
qed

section \<open>The logger of the server\<close>

text \<open>
  \<open>svrLog\<close> of \<open>server/log.go\<close>: \<open>None\<close> is \<open>slog.Disabled\<close>, its initial value; a logger is its subsystem. \<open>init\<close> of
  \<open>log.go\<close> sets it, and \<open>New\<close> takes it where the configuration names no logger; the daemon's names the same one.
\<close>

definition svrLog :: "string option" where
  "svrLog = None"

definition UseLogger :: "string option \<Rightarrow> string option \<Rightarrow> string option" where
  "UseLogger logger old = logger"

definition log_init :: "string option \<Rightarrow> string option" where
  "log_init = UseLogger (Some ''SRVR'')"

definition newLogger :: "string option \<Rightarrow> string option \<Rightarrow> string option" where
  "newLogger cfgLog svr = (case cfgLog of None \<Rightarrow> svr | Some l \<Rightarrow> Some l)"

text \<open>The server of the daemon, or of another program with this \<open>init\<close>, writes to a logger whose level the options set.\<close>

lemma server_logger_leveled:
  assumes "dom L = set subsystems" and "cfgLog = None \<or> cfgLog = Some ''SRVR''"
  shows "\<exists>sub. newLogger cfgLog (log_init svrLog) = Some sub \<and> sub \<in> set (supportedSubsystems subsystems) \<and>
    setLogLevels lf lv L sub = Some (fst (lf lv))"
proof -
  have "''SRVR'' \<in> dom L" "''MAIN'' \<in> dom L" unfolding assms(1) by (simp_all add: subsystems_def)
  then have "setLogLevels lf lv L ''SRVR'' = Some (fst (lf lv))"
    by (auto simp: setLogLevels_def subsystems_def setLogLevel_def)
  moreover have "supportedSubsystems subsystems = subsystems"
    by (rule supportedSubsystems_stable) (simp_all add: subsystems_def)
  then have "''SRVR'' \<in> set (supportedSubsystems subsystems)" by (simp add: subsystems_def)
  ultimately show ?thesis using assms(2) by (auto simp: newLogger_def log_init_def UseLogger_def)
qed

end
