(* ===== verification/Spec2Isabelle.thy ===== *)
theory Spec2Isabelle
  imports Record_Trail Order_Ledger Client_Lib System_Types Version Daemon_Main End_To_End Client_Command Server_Run Http_Router Log_Output
begin

text \<open>
  A verification development for dcrlnlpd, the liquidity provider daemon of the Decred Lightning
  Network. A client asks the daemon over HTTP for a channel of a size; the daemon checks its policy
  and answers with an invoice over the price; when dcrlnd reports the invoice settled, the daemon
  opens the channel to the client's node; and when the wallet runs low it closes the least active
  of the channels it opened.

  Parts of the program, in the order of the imports:

  \<^item> \<open>LP_Prelude\<close>: the integer types at their widths (signed types are words read by \<open>sint\<close>), the
    program's error values, and \<open>res\<close>, the three ways a Go function ends (a value, an error, a panic).
  \<^item> \<open>Go_Strconv\<close>, \<open>Go_Float64\<close>, \<open>Go_Json\<close>, \<open>Go_Path\<close>, \<open>Go_Sort\<close>: what the program uses of Go's
    standard library. Doubles are rationals with rounding to nearest even written out, infinities
    and NaN; conversions out of range are implementation dependent in Go and stay parameters.
    \<open>sort.Slice\<close> is a contract (\<open>slice_sort\<close>), interpreted on the insertion sort that Go runs on
    short slices; its users take the sorting function as an argument.
  \<^item> \<open>Node_ID\<close>: \<open>rpc/types.go\<close>.
  \<^item> \<open>Daemon_State\<close>: the configuration and the state of \<open>Server\<close> (\<open>server/server.go\<close>). The record \<open>env\<close>
    holds every call to code outside the repository as a function of an opaque world: dcrlnd's
    gRPC calls, the clock, timers, the file system's failures, and pure functions of \<open>lnwire\<close> and
    \<open>chainhash\<close>. Nothing is assumed of the answers. \<open>sys\<close> holds the pending-request table, the files
    under the root directory, the goroutines under way, and a ghost trace of effects.
  \<^item> \<open>Sample_World\<close>: one concrete environment, on which the witnesses are evaluated.
  \<^item> \<open>Invoice_Store\<close>: \<open>server/db.go\<close>; the JSON form of a record with its round trip, the file
    operations with their failures, and the interface \<open>keyed_store\<close> they implement on a file system
    that works.
  \<^item> \<open>Pending_Table\<close>: \<open>Server.pendingChans\<close>; the interface \<open>lease_table\<close>, interpreted on the code's
    three operations, and their interleavings on a clock that does not go back.
  \<^item> \<open>Create_Invoice\<close>: the policy, the queries of \<open>server/dcrlnd.go\<close>, the price and \<open>CreateInvoice\<close>.
  \<^item> \<open>Chan_Point\<close>: \<open>server/util.go\<close> and \<open>rpc/util.go\<close>.
  \<^item> \<open>Open_Channel\<close>: \<open>openChannel\<close>, whole and cut into the steps at which others can run.
  \<^item> \<open>Invoice_Listener\<close>: \<open>listenToInvoices\<close>.
  \<^item> \<open>Chan_Score\<close>: \<open>server/chanscore.go\<close>.
  \<^item> \<open>Manage_Channels\<close>: \<open>FetchManagedChannels\<close>, \<open>manageChannels\<close>, \<open>closeChannel\<close>.
  \<^item> \<open>Server_System\<close>: all of it running together as a step relation with crashes and restarts.
  \<^item> \<open>Order_Ledger\<close>: what the server promises, as a ledger of orders without goroutines, files and retries, and
    the refinement (interfaces \<open>invariant_system\<close> and \<open>simulation\<close>): every run of \<open>Server_System\<close> is a run of it.
  \<^item> \<open>Server_Start\<close>: \<open>connectToDcrlnd\<close> and \<open>New\<close>, and the goroutine loops of \<open>Run\<close>, each of which is a run of
    that relation. \<open>Server_Run\<close>: \<open>Run\<close> itself as a machine (\<open>run_step\<close>) of its four goroutines, with the group of
    \<open>errgroup\<close> as a parameter under its documented laws: which error it returns, when the connection is closed, and
    that it winds down. \<open>System_Types\<close>: the node ids of every reachable state have their 33 bytes. \<open>Record_Trail\<close>: on a directory that was
    empty at the start, every file, opening and goroutine is for a record within the policy whose invoice was
    requested, also after writes that were cut short; the law used of the file system is \<open>writes_prefixes\<close>.
  \<^item> \<open>Go_Json_Write\<close>, \<open>Go_Float_Text\<close>: the printing side of \<open>encoding/json\<close>, and doubles as JSON numbers (the
    shortest decimal that reads back).
  \<^item> \<open>Api_V1\<close>: the messages of \<open>rpc/lprpc_v1\<close>, each an instance of the interface \<open>json_struct\<close>, and the
    handlers of \<open>server/api-v1.go\<close>.
  \<^item> \<open>Client_Lib\<close>: \<open>client/lpdclient.go\<close>, up to the checked invoice (\<open>prepare\<close>) and then the payment beside the
    goroutine that watches for the channel (\<open>session\<close>). Its trace holds the payments sent, dcrlnd's answers to them
    and the open events read. \<open>Client_Command\<close>: \<open>cmd/client\<close>.
  \<^item> \<open>End_To_End\<close>: a client whose requests are answered by the server, each with a world of its own.
  \<^item> \<open>Go_Net\<close>, \<open>Go_Os\<close>: addresses, host names and ports, environment variables and paths.
  \<^item> \<open>Request_Util\<close>: \<open>util.go\<close> and the handlers of \<open>main.go\<close>. \<open>Version\<close>: \<open>internal/version\<close>; its regular
    expression as written, run by the backtracking search of \<open>Go_Regexp\<close>, against the rules of semantic versioning.
  \<^item> \<open>Http_Router\<close>: \<open>handler\<close> of \<open>main.go\<close> with \<open>NewV1Handler\<close>: the routes as data, the router of \<open>gorilla/mux\<close> as a
    parameter that picks one of them (\<open>mux_law\<close>), \<open>logRouterConfig\<close>, and the client of \<open>End_To_End\<close> behind the router.
  \<^item> \<open>Log_Output\<close>: writing log lines, the supported subsystems, and the logger that the server gets.
  \<^item> \<open>Lpd_Config\<close>, \<open>Load_Config\<close>: \<open>config.go\<close> with the loggers of \<open>log.go\<close>; \<open>Config_Bounds\<close>: what the accepted options
    mean for the server's policy.
  \<^item> \<open>Daemon_Main\<close>: \<open>main.go\<close> and \<open>signal.go\<close>; the stages of the start with their exit codes, and the shutdown as a
    transition system: what the program does by itself (\<open>life_step\<close>; the \<open>Serve\<close> loops end because \<open>svr.Shutdown\<close>
    was called) and what happens to it, signals and failures (\<open>life_run\<close>).

  The theorems of this file are about the whole server: what must have happened before it opens a
  channel, and how often. The properties of one component are at the end of its theory.

  Bounds. Recursion is structural or has a measure, and the loops of goroutines run over the list of what
  they are given. Fuel occurs twice. \<open>openSteps\<close> runs an opening's goroutine by single steps: five are
  enough, because the policy check and three attempts are four and the fifth only stays where it is.
  \<open>shortest\<close> tries up to seventeen digits, which suffice for every double. Streams (\<open>Recv\<close>) are lists of
  what they deliver; a list that ends without an error is a goroutine that still waits.

  Not modelled: the texts of log messages other than those of the routes; the durations of timers (a
  round may happen at any time); the gRPC and HTTP transport, TLS, and the pages of the profiler behind its
  listener; the inside of the router and of \<open>errgroup\<close>, which are parameters with their documented behaviour as
  laws; the command line parser \<open>go-flags\<close>, whose results are a parameter; log rotation. These are
  calls into libraries that the repository does not contain, and what the code does with their results is
  modelled. JSON nesting beyond Go's limit of 10000 levels is accepted by the model.
\<close>

section \<open>Properties of the running server\<close>

text \<open>
  C5. Audit trail: in every reachable state of the interleaved server, restarts included, each
  recorded effect happened after the effects that entitle it. A stored record was within the policy
  and has an invoice over its price; an opening was started for a record that was stored and at
  least its price was paid; a request to open a channel is for the node and size of such an opening;
  a closing was started by management.
\<close>

theorem audit_trail:
  assumes "reach srt E cfg s0 s" and "fresh s0" and "events s = xs @ e # ys"
  shows "entitled E cfg (files s0) (set xs) e"
  using trail_reach [OF assms(1,2)] assms(3) by (simp add: trail_def)

theorem audit_trail_witness:
  "entitled sampleEnv sampleCfg (files sampleState) (set (take 3 sampleTrace)) (EvOpenChannel sampleNode 1048576)"
proof -
  have "events sampleEnd = take 3 sampleTrace @ EvOpenChannel sampleNode 1048576 # drop 4 sampleTrace"
    by (simp add: sampleEnd_def sampleTrace_def numeral_3_eq_3)
  from audit_trail [OF sample_run fresh_sampleState this] show ?thesis .
qed



text \<open>
  C4. One opening per record, for the life of the directory: the openings started for a path are at
  most the writes of its file (and one more if the file was there at the start), however updates,
  requests and restarts interleave.
\<close>

theorem openings_bounded_by_writes:
  assumes "reach srt E cfg s0 s" and "fresh s0"
  shows "spawnCount p (events s) + (if files s p = None then 0 else 1)
    \<le> writeCount p (events s) + (if files s0 p = None then 0 else 1)"
  using solvent_reach [OF assms, of p] by (simp add: solvent_def credit_def present_def)

theorem openings_bounded_by_writes_witness:
  "spawnCount samplePath sampleTrace \<le> writeCount samplePath sampleTrace"
  using openings_bounded_by_writes [OF sample_run fresh_sampleState, of samplePath]
  by (simp add: sampleEnd_def sampleState_def)

text \<open>
  Each payment is answered with at most one accepted channel and at most three requests: counted
  over all goroutines, accepted channels never outnumber the openings started, nor requests three
  times their number.
\<close>

lemma one_channel_per_opening:
  assumes "reach srt E cfg s0 s" and "fresh s0"
  shows "length (filter isAcceptedEv (events s)) \<le> length (filter isSpawn (events s)) \<and>
    length (filter isOpenEv (events s)) \<le> 3 * length (filter isSpawn (events s))"
  using budget_reach [OF assms] by (simp add: budget_def maxAttempts_def)

lemma one_channel_per_opening_witness:
  "length (filter isAcceptedEv sampleTrace) \<le> length (filter isSpawn sampleTrace)"
  using one_channel_per_opening [OF sample_run fresh_sampleState] by (simp add: sampleEnd_def)

end
